(* ===== verification/Prelude.thy ===== *)
theory Prelude
  imports Main "HOL-Library.Word" "HOL-Library.Signed_Division" "HOL-Library.Monad_Syntax"
begin

text \<open>
  Shared vocabulary of the development: the machine integers of \<^verbatim>\<open>include/Types.h\<close>, C arrays
  passed as a pointer and a count, little-endian byte access, and the generic facts the
  component theories build on. Nothing here is specific to one component.
\<close>

unbundle bit_operations_syntax

section \<open>Machine integers\<close>

text \<open>\<^verbatim>\<open>byte\<close>, \<^verbatim>\<open>hword\<close>, \<^verbatim>\<open>word\<close> and \<^verbatim>\<open>dword\<close> of Types.h; \<^verbatim>\<open>size_t\<close> values are naturals
  with the 64-bit limit written out where the code checks it.\<close>

type_synonym u8 = "8 word"
type_synonym u16 = "16 word"
type_synonym u32 = "32 word"
type_synonym u64 = "64 word"

definition SIZE_T_MAX :: nat where
  "SIZE_T_MAX = 2 ^ 64 - 1"

definition WORD_MAX :: nat where
  "WORD_MAX = 2 ^ 32 - 1"

definition SWORD_MIN :: int where
  "SWORD_MIN = - (2 ^ 31)"

definition SWORD_MAX :: int where
  "SWORD_MAX = 2 ^ 31 - 1"

named_theorems limits \<open>the numeric limits of Types.h, unfolded\<close>

declare SIZE_T_MAX_def [limits] WORD_MAX_def [limits]
  SWORD_MIN_def [limits] SWORD_MAX_def [limits]

lemma unat_u32_le [simp]: "unat (w :: u32) \<le> WORD_MAX"
  using unsigned_less [of w, where 'a = nat] by (simp add: WORD_MAX_def)

lemma unat_u32_less [simp]: "unat (w :: u32) < 4294967296"
  using unsigned_less [of w, where 'a = nat] by simp

lemma unat_u8_less [simp]: "unat (b :: u8) < 256"
  using unsigned_less [of b, where 'a = nat] by simp

lemma take_bit_full: "LENGTH('w) \<le> n \<Longrightarrow> take_bit n w = w" for w :: "'w::len word"
  by (rule bit_word_eqI) (auto simp: bit_simps)

lemma take_bit_u32 [simp]: "take_bit 32 w = w" for w :: u32
  by (simp add: take_bit_full)

section \<open>Little-endian access through byte reads and writes\<close>

text \<open>
  The three little-endian loops of the program (the memory accessors of the emulator, the
  image codec, the instruction codec) all read with \<^verbatim>\<open>value |= byte << (index * 8)\<close> and write
  with \<^verbatim>\<open>(byte)(value >> (index * 8))\<close>. They are stated once here, over any byte store.
\<close>

definition le_read :: "(nat \<Rightarrow> u8) \<Rightarrow> nat \<Rightarrow> nat \<Rightarrow> 'w::len word" where
  "le_read rd n a = foldl (\<lambda>v i. v OR push_bit (i * 8) (ucast (rd (a + i)))) 0 [0..<n]"

definition le_byte :: "'w::len word \<Rightarrow> nat \<Rightarrow> u8" where
  "le_byte v i = ucast (drop_bit (i * 8) v)"

definition le_write ::
  "('s \<Rightarrow> nat \<Rightarrow> u8 \<Rightarrow> 's) \<Rightarrow> nat \<Rightarrow> nat \<Rightarrow> 'w::len word \<Rightarrow> 's \<Rightarrow> 's" where
  "le_write wr n a v s = foldl (\<lambda>s i. wr s (a + i) (le_byte v i)) s [0..<n]"

lemma le_read_0 [simp]: "le_read rd 0 a = 0"
  by (simp add: le_read_def)

lemma le_read_Suc:
  "le_read rd (Suc n) a = le_read rd n a OR push_bit (n * 8) (ucast (rd (a + n)))"
  by (simp add: le_read_def)

lemma le_write_0 [simp]: "le_write wr 0 a v s = s"
  by (simp add: le_write_def)

lemma le_write_Suc:
  "le_write wr (Suc n) a v s = wr (le_write wr n a v s) (a + n) (le_byte v n)"
  by (simp add: le_write_def)

lemma le_write_pres:
  "(\<And>s a v. f (wr s a v) = f s) \<Longrightarrow> f (le_write wr n a v s) = f s"
  by (induction n) (simp_all add: le_write_Suc)

lemma bit_le_byte: "bit (le_byte v i) j \<longleftrightarrow> j < 8 \<and> bit v (i * 8 + j)"
  by (auto simp: le_byte_def bit_simps bit_imp_le_length)

lemma bit_le_read:
  "bit (le_read rd n a :: 'w::len word) k \<longleftrightarrow>
     k < LENGTH('w) \<and> k div 8 < n \<and> bit (rd (a + k div 8)) (k mod 8)"
proof (induction n)
  case 0
  then show ?case by simp
next
  case (Suc n)
  have "(n * 8 \<le> k \<and> k < LENGTH('w) \<and> bit (rd (a + n)) (k - n * 8)) \<longleftrightarrow>
      (k < LENGTH('w) \<and> k div 8 = n \<and> bit (rd (a + k div 8)) (k mod 8))"
  proof (cases "n * 8 \<le> k \<and> k - n * 8 < 8")
    case True
    then have "k div 8 = n" by (auto simp: div_nat_eqI)
    moreover from this True have "k mod 8 = k - n * 8"
      by (metis minus_div_mult_eq_mod)
    ultimately show ?thesis using True by auto
  next
    case False
    then have "\<not> (n * 8 \<le> k \<and> bit (rd (a + n)) (k - n * 8))"
      by (auto dest: bit_imp_le_length)
    moreover from False have "k div 8 \<noteq> n"
      using div_mult_mod_eq [of k 8] by auto
    ultimately show ?thesis by auto
  qed
  then show ?case
    by (auto simp: le_read_Suc Suc bit_simps less_Suc_eq)
qed

lemma le_read_cong:
  "(\<And>i. i < n \<Longrightarrow> rd (a + i) = rd' (b + i)) \<Longrightarrow> le_read rd n a = le_read rd' n b"
  by (rule bit_word_eqI) (auto simp: bit_le_read)

text \<open>Reading back the bytes of a value gives its low bytes.\<close>

lemma le_read_le_byte:
  assumes "\<And>i. i < n \<Longrightarrow> rd (a + i) = le_byte v i"
  shows "(le_read rd n a :: 'w::len word) = ucast (take_bit (n * 8) v)"
proof (rule bit_word_eqI)
  fix k assume k: "k < LENGTH('w)"
  have "k div 8 < n \<longleftrightarrow> k < n * 8"
    by (simp add: div_less_iff_less_mult)
  moreover have "bit (rd (a + k div 8)) (k mod 8) \<longleftrightarrow> bit v k" if "k div 8 < n"
    using that by (simp add: assms bit_le_byte)
  ultimately show "bit (le_read rd n a :: 'w word) k \<longleftrightarrow> bit (ucast (take_bit (n * 8) v) :: 'w word) k"
    using k by (auto simp: bit_le_read bit_simps dest: bit_imp_le_length)
qed

lemma le_byte_le_read:
  assumes "i < n" "n * 8 \<le> LENGTH('w)"
  shows "le_byte (le_read rd n a :: 'w::len word) i = rd (a + i)"
proof (rule bit_word_eqI)
  fix j assume "j < LENGTH(8)"
  then have "j < 8" by simp
  then have "(i * 8 + j) div 8 = i" "(i * 8 + j) mod 8 = j" by simp_all
  moreover have "i * 8 + j < LENGTH('w)" using assms \<open>j < 8\<close> by simp
  ultimately show "bit (le_byte (le_read rd n a :: 'w word) i) j = bit (rd (a + i)) j"
    using assms \<open>j < 8\<close> by (simp add: bit_le_byte bit_le_read)
qed

lemma ucast_le_read:
  "n * 8 \<le> LENGTH('v) \<Longrightarrow> (ucast (le_read rd n a :: 'v::len word) :: 'w::len word) = le_read rd n a"
  by (rule bit_word_eqI) (auto simp: bit_simps bit_le_read less_mult_imp_div_less)

lemma take_bit_u64_u32 [simp]: "ucast (take_bit 32 (ucast (v :: u32) :: u64)) = v"
  by (rule bit_word_eqI) (simp add: bit_simps)

section \<open>Operations that can fail\<close>

text \<open>
  An operation that can fail returns the error on the left or its result on the right. \<open>sbind\<close> runs
  one after another, and \<open>require\<close> is the check that ends in an error.
\<close>

fun sbind :: "'e + 'a \<Rightarrow> ('a \<Rightarrow> 'e + 'b) \<Rightarrow> 'e + 'b" where
  "sbind (Inl e) f = Inl e"
| "sbind (Inr x) f = f x"

definition require :: "bool \<Rightarrow> 'e \<Rightarrow> 'e + unit" where
  "require b e = (if b then Inr () else Inl e)"

lemma sbind_Inr: "sbind m f = Inr y \<longleftrightarrow> (\<exists>x. m = Inr x \<and> f x = Inr y)"
  by (cases m) simp_all

lemma sbind_Inl: "sbind m f = Inl e \<longleftrightarrow> m = Inl e \<or> (\<exists>x. m = Inr x \<and> f x = Inl e)"
  by (cases m) simp_all

lemma require_Inr [simp]: "require b e = Inr u \<longleftrightarrow> b"
  by (simp add: require_def)

lemma require_True [simp]: "require True e = Inr ()"
  by (simp add: require_def)

lemma sbind_cong [fundef_cong]:
  "m = m' \<Longrightarrow> (\<And>x. m' = Inr x \<Longrightarrow> f x = g x) \<Longrightarrow> sbind m f = sbind m' g"
  by (cases m') simp_all

lemma sbind_assoc: "sbind (sbind m f) g = sbind m (\<lambda>x. sbind (f x) g)"
  by (cases m) simp_all

section \<open>Loops that can fail\<close>

text \<open>A loop whose body fills the next element or stops with an error.\<close>

fun try_map :: "('a \<Rightarrow> 'e + 'b) \<Rightarrow> 'a list \<Rightarrow> 'e + 'b list" where
  "try_map f [] = Inr []"
| "try_map f (x # xs) =
     (case f x of Inl e \<Rightarrow> Inl e
      | Inr y \<Rightarrow> (case try_map f xs of Inl e \<Rightarrow> Inl e | Inr ys \<Rightarrow> Inr (y # ys)))"

text \<open>A loop that threads a state through its elements or stops with an error.\<close>

fun try_fold :: "('s \<Rightarrow> 'a \<Rightarrow> 'e + 's) \<Rightarrow> 's \<Rightarrow> 'a list \<Rightarrow> 'e + 's" where
  "try_fold f s [] = Inr s"
| "try_fold f s (x # xs) = (case f s x of Inl e \<Rightarrow> Inl e | Inr s \<Rightarrow> try_fold f s xs)"

lemma try_map_Inr: "try_map f xs = Inr ys \<longleftrightarrow> list_all2 (\<lambda>x y. f x = Inr y) xs ys"
proof (induction xs arbitrary: ys)
  case (Cons x xs)
  show ?case
    by (cases "f x"; cases "try_map f xs") (auto simp: list_all2_Cons1 Cons [symmetric])
qed auto

lemma try_map_Inr_set: "try_map f xs = Inr ys \<Longrightarrow> \<forall>y \<in> set ys. \<exists>x \<in> set xs. f x = Inr y"
  by (fastforce simp: try_map_Inr list_all2_conv_all_nth in_set_conv_nth)

lemma try_map_Inr_length: "try_map f xs = Inr ys \<Longrightarrow> length ys = length xs"
  by (simp add: try_map_Inr list_all2_lengthD)

lemma try_fold_Cons_Inr:
  "try_fold f s (x # xs) = Inr r \<longleftrightarrow> (\<exists>t. f s x = Inr t \<and> try_fold f t xs = Inr r)"
  by (simp split: sum.split)

lemma try_fold_append:
  "try_fold f s (xs @ ys) = sbind (try_fold f s xs) (\<lambda>s. try_fold f s ys)"
  by (induction xs arbitrary: s) (simp_all split: sum.split)

end
