(* ===== verification/Token.thy ===== *)
theory Token
  imports Prelude "HOL-Library.Char_ord"
begin

text \<open>
  Tokens and diagnostics of the assembler: \<^verbatim>\<open>asm/src/Token.c\<close>, \<^verbatim>\<open>include/asm/Token.h\<close> and the error
  codes of \<^verbatim>\<open>include/asm/zlasm.h\<close>. A failure ends the assembly with \<^verbatim>\<open>longjmp\<close>; here it is the
  diagnostic on the left of a sum: its code and the source range it names, if any. The texts of the
  messages are left out.
\<close>

section \<open>Diagnostics\<close>

datatype (plugins only: code size) diagnostic_code =
    ZLASM_DIAGNOSTIC_NONE | ZLASM_DIAGNOSTIC_INVALID_ARGUMENT | ZLASM_DIAGNOSTIC_OUT_OF_MEMORY |
    ZLASM_DIAGNOSTIC_UNTERMINATED_LITERAL | ZLASM_DIAGNOSTIC_UNEXPECTED_TOKEN |
    ZLASM_DIAGNOSTIC_UNKNOWN_DIRECTIVE | ZLASM_DIAGNOSTIC_INVALID_DIRECTIVE |
    ZLASM_DIAGNOSTIC_MALFORMED_NUMBER | ZLASM_DIAGNOSTIC_NUMBER_OVERFLOW |
    ZLASM_DIAGNOSTIC_UNKNOWN_OPCODE | ZLASM_DIAGNOSTIC_INVALID_OPERANDS |
    ZLASM_DIAGNOSTIC_UNKNOWN_CONDITION | ZLASM_DIAGNOSTIC_UNKNOWN_REGISTER |
    ZLASM_DIAGNOSTIC_UNKNOWN_LABEL | ZLASM_DIAGNOSTIC_VALUE_OUT_OF_RANGE |
    ZLASM_DIAGNOSTIC_OUTPUT_TOO_LARGE | ZLASM_DIAGNOSTIC_INTERNAL_ERROR |
    ZLASM_DIAGNOSTIC_MALFORMED_LITERAL | ZLASM_DIAGNOSTIC_MACRO_DUPLICATE_DEFINITION |
    ZLASM_DIAGNOSTIC_MACRO_UNDEFINED | ZLASM_DIAGNOSTIC_MACRO_INVALID_ARGUMENT |
    ZLASM_DIAGNOSTIC_MACRO_RECURSION | ZLASM_DIAGNOSTIC_SECTION_ERROR | ZLASM_DIAGNOSTIC_LINK_ERROR

record location =
  loc_line :: nat
  loc_column :: nat
  loc_offset :: nat
  loc_length :: nat

type_synonym diagnostic = "diagnostic_code \<times> location option"

section \<open>Tokens\<close>

datatype (plugins only: code size) token_type =
    TOK_COMMENT | TOK_NEWLINE | TOK_ID | TOK_REGISTER | TOK_LABEL_INIT | TOK_LABEL_USE |
    TOK_DIRECTIVE | TOK_COMMA | TOK_STRING_LITERAL | TOK_CHAR_LITERAL | TOK_INT_HEX | TOK_INT_DEC |
    TOK_INT_OCT | TOK_INT_BIN

text \<open>The field \<^verbatim>\<open>size\<close> is the length of the value.\<close>

record token =
  tok_type :: token_type
  tok_value :: string
  tok_pos :: nat
  tok_line :: nat
  tok_col :: nat
  tok_source_size :: nat

definition asm_fail :: "diagnostic_code \<Rightarrow> diagnostic + 'a" where
  "asm_fail code = Inl (code, None)"

definition token_location :: "token \<Rightarrow> location" where
  "token_location t = \<lparr>loc_line = tok_line t, loc_column = tok_col t, loc_offset = tok_pos t,
     loc_length = tok_source_size t\<rparr>"

definition asm_token_fail :: "diagnostic_code \<Rightarrow> token option \<Rightarrow> diagnostic + 'a" where
  "asm_token_fail code tok =
     (case tok of None \<Rightarrow> asm_fail code | Some t \<Rightarrow> Inl (code, Some (token_location t)))"

lemma asm_fail_not_Inr [simp]: "asm_fail code \<noteq> Inr x" "asm_token_fail code tok \<noteq> Inr x"
  by (simp_all add: asm_fail_def asm_token_fail_def split: option.split)

section \<open>Integer literals\<close>

text \<open>The base of an integer token; the default of the switch is \<^term>\<open>None\<close>.\<close>

fun token_base :: "token_type \<Rightarrow> nat option" where
  "token_base TOK_INT_HEX = Some 16"
| "token_base TOK_INT_DEC = Some 10"
| "token_base TOK_INT_OCT = Some 8"
| "token_base TOK_INT_BIN = Some 2"
| "token_base _ = None"

text \<open>The digit of a character.\<close>

definition digit_of :: "char \<Rightarrow> nat option" where
  "digit_of c =
     (let n = of_char c :: nat in
      if of_char CHR ''0'' \<le> n \<and> n \<le> of_char CHR ''9'' then Some (n - of_char CHR ''0'')
      else if of_char CHR ''a'' \<le> n \<and> n \<le> of_char CHR ''f'' then Some (n - of_char CHR ''a'' + 10)
      else if of_char CHR ''A'' \<le> n \<and> n \<le> of_char CHR ''F'' then Some (n - of_char CHR ''A'' + 10)
      else None)"

text \<open>The loop over the characters, with 64-bit arithmetic.\<close>

fun int_value_loop :: "token \<Rightarrow> nat \<Rightarrow> u64 \<Rightarrow> string \<Rightarrow> diagnostic + u64" where
  "int_value_loop tok base value [] = Inr value"
| "int_value_loop tok base value (c # cs) =
     (case digit_of c of
        None \<Rightarrow> asm_token_fail ZLASM_DIAGNOSTIC_MALFORMED_NUMBER (Some tok)
      | Some digit \<Rightarrow>
          if digit \<ge> base then asm_token_fail ZLASM_DIAGNOSTIC_MALFORMED_NUMBER (Some tok)
          else if value > (- 1 - of_nat digit) div of_nat base
          then asm_token_fail ZLASM_DIAGNOSTIC_NUMBER_OVERFLOW (Some tok)
          else int_value_loop tok base (value * of_nat base + of_nat digit) cs)"

definition token_get_int_value :: "token \<Rightarrow> diagnostic + u64" where
  "token_get_int_value tok =
     (case token_base (tok_type tok) of
        None \<Rightarrow> asm_token_fail ZLASM_DIAGNOSTIC_MALFORMED_NUMBER (Some tok)
      | Some base \<Rightarrow>
          if tok_value tok = [] then asm_token_fail ZLASM_DIAGNOSTIC_MALFORMED_NUMBER (Some tok)
          else int_value_loop tok base 0 (tok_value tok))"

section \<open>Character and string literals\<close>

definition escape_of :: "char \<Rightarrow> char option" where
  "escape_of c =
     (if c = CHR ''n'' then Some (CHR 0x0A) else if c = CHR ''r'' then Some (CHR 0x0D)
      else if c = CHR ''t'' then Some (CHR 0x09) else if c = CHR ''a'' then Some (CHR 0x07)
      else if c = CHR ''f'' then Some (CHR 0x0C) else if c = CHR ''v'' then Some (CHR 0x0B)
      else if c = CHR ''b'' then Some (CHR 0x08) else if c = CHR 0x5C then Some (CHR 0x5C)
      else None)"

text \<open>\<^verbatim>\<open>CHR 0x5C\<close> is the backslash.\<close>

definition token_get_char_value :: "token \<Rightarrow> diagnostic + char" where
  "token_get_char_value tok =
     (let value = tok_value tok;
          malformed = asm_token_fail ZLASM_DIAGNOSTIC_MALFORMED_LITERAL (Some tok)
      in case value of
           [] \<Rightarrow> malformed
         | c # rest \<Rightarrow>
             if c \<noteq> CHR 0x5C then (if rest \<noteq> [] then malformed else Inr c)
             else (case rest of
                     [e] \<Rightarrow> (case escape_of e of None \<Rightarrow> malformed | Some r \<Rightarrow> Inr r)
                   | _ \<Rightarrow> malformed))"

text \<open>A character's bits, as a byte and, sign-extended as a \<^verbatim>\<open>char\<close> is, as a word.\<close>

definition char_byte :: "char \<Rightarrow> u8" where
  "char_byte c = of_char c"

definition char_word :: "char \<Rightarrow> u32" where
  "char_word c = scast (char_byte c)"

definition token_get_string_value :: "string \<Rightarrow> u8 list" where
  "token_get_string_value value = map char_byte value"

text \<open>The little-endian bytes of a value.\<close>

definition le_bytes :: "nat \<Rightarrow> u64 \<Rightarrow> u8 list" where
  "le_bytes n value = map (le_byte value) [0..<n]"

definition token_get_raw_data :: "token \<Rightarrow> diagnostic + u8 list" where
  "token_get_raw_data tok =
     (case tok_type tok of
        TOK_STRING_LITERAL \<Rightarrow> Inr (token_get_string_value (tok_value tok))
      | TOK_CHAR_LITERAL \<Rightarrow> sbind (token_get_char_value tok) (\<lambda>c. Inr [char_byte c])
      | _ \<Rightarrow> (if token_base (tok_type tok) \<noteq> None
              then sbind (token_get_int_value tok) (\<lambda>v. Inr (le_bytes 8 v))
              else asm_token_fail ZLASM_DIAGNOSTIC_INVALID_DIRECTIVE (Some tok)))"

section \<open>Names of token types\<close>

fun get_token_type_name :: "token_type \<Rightarrow> string" where
  "get_token_type_name TOK_COMMENT = ''COMMENT''"
| "get_token_type_name TOK_NEWLINE = ''NEWLINE''"
| "get_token_type_name TOK_ID = ''ID''"
| "get_token_type_name TOK_REGISTER = ''REGISTER''"
| "get_token_type_name TOK_LABEL_INIT = ''LABEL_INIT''"
| "get_token_type_name TOK_LABEL_USE = ''LABEL_USE''"
| "get_token_type_name TOK_DIRECTIVE = ''DIRECTIVE''"
| "get_token_type_name TOK_STRING_LITERAL = ''STRING_LIT''"
| "get_token_type_name TOK_CHAR_LITERAL = ''CHAR_LIT''"
| "get_token_type_name TOK_INT_HEX = ''INT_HEX''"
| "get_token_type_name TOK_INT_DEC = ''INT_DEC''"
| "get_token_type_name TOK_INT_OCT = ''INT_OCT''"
| "get_token_type_name TOK_INT_BIN = ''INT_BIN''"
| "get_token_type_name TOK_COMMA = ''COMMA''"

end
