(* ===== verification/Directive.thy ===== *)
theory Directive
  imports Token
begin

text \<open>
  Directives and the data they emit, \<^verbatim>\<open>asm/src/Directive.c\<close>. Allocations of the assembler are taken
  to succeed, except that of \<^verbatim>\<open>.space\<close>, whose size the source text gives: it asks \<open>can_alloc\<close>.
\<close>

section \<open>Directives\<close>

text \<open>\<^verbatim>\<open>DIR_TOTAL\<close>, the type of an unknown directive, is \<^term>\<open>None\<close>.\<close>

datatype (plugins only: code size) directive_type =
    DIR_SECTION | DIR_GLOBAL | DIR_EXTERN | DIR_ALIGN | DIR_ENTRY | DIR_LOCATE | DIR_ASCII |
    DIR_ASCIIZ | DIR_BYTE | DIR_HWORD | DIR_WORD | DIR_DWORD | DIR_SPACE | DIR_MACRO | DIR_ENDMACRO |
    DIR_PROC | DIR_ENDPROC

record directive =
  dir_type :: directive_type
  dir_name :: token
  dir_argv :: "token list"

definition directives :: "(string \<times> directive_type) list" where
  "directives =
     [(''section'', DIR_SECTION), (''global'', DIR_GLOBAL), (''extern'', DIR_EXTERN),
      (''align'', DIR_ALIGN), (''entry'', DIR_ENTRY), (''locate'', DIR_LOCATE),
      (''ascii'', DIR_ASCII), (''asciiz'', DIR_ASCIIZ), (''byte'', DIR_BYTE),
      (''hword'', DIR_HWORD), (''word'', DIR_WORD), (''dword'', DIR_DWORD),
      (''space'', DIR_SPACE), (''macro'', DIR_MACRO), (''endmacro'', DIR_ENDMACRO),
      (''proc'', DIR_PROC), (''endproc'', DIR_ENDPROC)]"

definition get_directive_type :: "token \<Rightarrow> directive_type option" where
  "get_directive_type tok = map_of directives (tok_value tok)"

definition directive_init :: "token \<Rightarrow> directive option" where
  "directive_init name =
     map_option (\<lambda>t. \<lparr>dir_type = t, dir_name = name, dir_argv = []\<rparr>) (get_directive_type name)"

definition directive_add_arg :: "directive \<Rightarrow> token \<Rightarrow> directive" where
  "directive_add_arg d argument = d\<lparr>dir_argv := dir_argv d @ [argument]\<rparr>"

definition is_data_directive :: "directive_type \<Rightarrow> bool" where
  "is_data_directive t \<longleftrightarrow>
     t \<in> {DIR_ASCII, DIR_ASCIIZ, DIR_BYTE, DIR_HWORD, DIR_WORD, DIR_DWORD, DIR_SPACE}"

section \<open>Data\<close>

text \<open>One argument of \<^verbatim>\<open>.ascii\<close> and \<^verbatim>\<open>.asciiz\<close>.\<close>

definition ascii_value :: "token \<Rightarrow> diagnostic + u8 list" where
  "ascii_value arg =
     (if tok_type arg = TOK_STRING_LITERAL then Inr (token_get_string_value (tok_value arg))
      else if tok_type arg = TOK_CHAR_LITERAL
      then sbind (token_get_char_value arg) (\<lambda>c. Inr [char_byte c])
      else sbind (token_get_int_value arg) (\<lambda>numeric_value.
           if numeric_value > 0xFF
           then asm_token_fail ZLASM_DIAGNOSTIC_VALUE_OUT_OF_RANGE (Some arg)
           else Inr [ucast numeric_value]))"

definition too_large :: "directive \<Rightarrow> diagnostic + 'a" where
  "too_large d = asm_token_fail ZLASM_DIAGNOSTIC_OUTPUT_TOO_LARGE (Some (dir_name d))"

definition append_ascii :: "directive \<Rightarrow> u8 list \<Rightarrow> token \<Rightarrow> diagnostic + u8 list" where
  "append_ascii d acc arg =
     sbind (ascii_value arg) (\<lambda>value.
       if length value > SIZE_T_MAX - length acc then too_large d else Inr (acc @ value))"

text \<open>One argument of a numeric directive of \<open>element_size\<close> bytes.\<close>

definition numeric_value :: "nat \<Rightarrow> u64 \<Rightarrow> token \<Rightarrow> diagnostic + u8 list" where
  "numeric_value element_size maximum_value arg =
     sbind (if tok_type arg = TOK_CHAR_LITERAL
            then sbind (token_get_char_value arg) (\<lambda>c. Inr (ucast (char_byte c)))
            else token_get_int_value arg) (\<lambda>value.
       if value > maximum_value
       then asm_token_fail ZLASM_DIAGNOSTIC_VALUE_OUT_OF_RANGE (Some arg)
       else Inr (le_bytes element_size value))"

definition encode_numeric_data :: "directive \<Rightarrow> nat \<Rightarrow> u64 \<Rightarrow> diagnostic + u8 list" where
  "encode_numeric_data d element_size maximum_value =
     (if length (dir_argv d) > SIZE_T_MAX div element_size then too_large d
      else sbind (try_map (numeric_value element_size maximum_value) (dir_argv d)) (\<lambda>vs.
           Inr (concat vs)))"

definition directive_get_raw_data :: "(nat \<Rightarrow> bool) \<Rightarrow> directive \<Rightarrow> diagnostic + u8 list" where
  "directive_get_raw_data can_alloc d =
     (case dir_type d of
        DIR_ASCII \<Rightarrow> try_fold (append_ascii d) [] (dir_argv d)
      | DIR_ASCIIZ \<Rightarrow> sbind (try_fold (append_ascii d) [] (dir_argv d)) (\<lambda>bytes.
          if length bytes = SIZE_T_MAX then too_large d else Inr (bytes @ [0]))
      | DIR_BYTE \<Rightarrow> encode_numeric_data d 1 0xFF
      | DIR_HWORD \<Rightarrow> encode_numeric_data d 2 0xFFFF
      | DIR_WORD \<Rightarrow> encode_numeric_data d 4 0xFFFFFFFF
      | DIR_DWORD \<Rightarrow> encode_numeric_data d 8 (- 1)
      | DIR_SPACE \<Rightarrow>
          (case dir_argv d of
             [arg] \<Rightarrow> sbind (token_get_int_value arg) (\<lambda>value.
               if unat value > SIZE_T_MAX
               then asm_token_fail ZLASM_DIAGNOSTIC_VALUE_OUT_OF_RANGE (Some arg)
               else if \<not> can_alloc (unat value) then asm_fail ZLASM_DIAGNOSTIC_OUT_OF_MEMORY
               else Inr (replicate (unat value) 0))
           | _ \<Rightarrow> asm_token_fail ZLASM_DIAGNOSTIC_INVALID_DIRECTIVE (Some (dir_name d)))
      | _ \<Rightarrow> asm_token_fail ZLASM_DIAGNOSTIC_INTERNAL_ERROR (Some (dir_name d)))"

end
