(* ===== verification/Parser.thy ===== *)
theory Parser
  imports Directive
begin

text \<open>
  The parser, \<^verbatim>\<open>asm/src/Parser.c\<close>, with the statements and lines of \<^verbatim>\<open>include/asm/Statement.h\<close>,
  \<^verbatim>\<open>Line.h\<close> and \<^verbatim>\<open>LineList.c\<close>. A token stream is the list of the tokens still to be read.
\<close>

section \<open>Statements and lines\<close>

record statement =
  st_opcode :: token
  st_cond :: "token option"
  st_reg1 :: "token option"
  st_reg2 :: "token option"
  st_imm :: "token option"

datatype (plugins only: code size) line_content = L_DIR directive | L_STMT statement | L_RAW "u8 list"

record line =
  ln_label :: "string option"
  ln_content :: line_content
  ln_size :: nat
  ln_section_index :: nat
  ln_section_offset :: nat

definition statement_init :: "token \<Rightarrow> statement" where
  "statement_init opcode =
     \<lparr>st_opcode = opcode, st_cond = None, st_reg1 = None, st_reg2 = None, st_imm = None\<rparr>"

section \<open>Lines of tokens\<close>

text \<open>The tokens of the next line that has any, without commas, and the rest of the stream. A label
  alone on its line takes in the line that follows.\<close>

definition parser_get_line :: "token list \<Rightarrow> (token list \<times> token list) option" where
  "parser_get_line stream =
     (case dropWhile (\<lambda>t. tok_type t = TOK_COMMENT \<or> tok_type t = TOK_NEWLINE) stream of
        [] \<Rightarrow> None
      | first # rest \<Rightarrow>
          let rest = (case rest of
                [] \<Rightarrow> []
              | t # ts \<Rightarrow> if tok_type first = TOK_LABEL_INIT \<and> tok_type t = TOK_NEWLINE then ts
                           else rest);
              inside = (\<lambda>t. tok_type t \<noteq> TOK_NEWLINE \<and> tok_type t \<noteq> TOK_COMMENT)
          in Some (first # filter (\<lambda>t. tok_type t \<noteq> TOK_COMMA) (takeWhile inside rest),
                   tl (dropWhile inside rest)))"

section \<open>Statements and directives\<close>

text \<open>The next token when it has one of the given types.\<close>

fun read_optional :: "token_type list \<Rightarrow> token list \<Rightarrow> token option \<times> token list" where
  "read_optional types [] = (None, [])"
| "read_optional types (t # ts) =
     (if tok_type t \<in> set types then (Some t, ts) else (None, t # ts))"

definition immediate_types :: "token_type list" where
  "immediate_types = [TOK_LABEL_USE, TOK_CHAR_LITERAL, TOK_INT_BIN, TOK_INT_OCT, TOK_INT_DEC, TOK_INT_HEX]"

definition parser_read_statement :: "token \<Rightarrow> token list \<Rightarrow> diagnostic + statement" where
  "parser_read_statement opcode ts =
     (let (cond, ts) = read_optional [TOK_ID] ts;
          (reg1, ts) = read_optional [TOK_REGISTER] ts;
          (reg2, ts) = (if reg1 = None then (None, ts) else read_optional [TOK_REGISTER] ts);
          (imm, ts) = read_optional immediate_types ts
      in case ts of
           t # _ \<Rightarrow> asm_token_fail ZLASM_DIAGNOSTIC_UNEXPECTED_TOKEN (Some t)
         | [] \<Rightarrow> Inr ((statement_init opcode)
                   \<lparr>st_cond := cond, st_reg1 := reg1, st_reg2 := reg2, st_imm := imm\<rparr>))"

definition parser_read_directive :: "token \<Rightarrow> token list \<Rightarrow> diagnostic + directive" where
  "parser_read_directive name ts =
     (case directive_init name of
        None \<Rightarrow> asm_token_fail ZLASM_DIAGNOSTIC_UNKNOWN_DIRECTIVE (Some name)
      | Some d \<Rightarrow> Inr (foldl directive_add_arg d ts))"

text \<open>A line after its label: a statement or a directive.\<close>

definition read_content :: "token \<Rightarrow> token list \<Rightarrow> diagnostic + line_content" where
  "read_content t ts =
     (case tok_type t of
        TOK_ID \<Rightarrow> sbind (parser_read_statement t ts) (\<lambda>s. Inr (L_STMT s))
      | TOK_DIRECTIVE \<Rightarrow> sbind (parser_read_directive t ts) (\<lambda>d. Inr (L_DIR d))
      | _ \<Rightarrow> asm_token_fail ZLASM_DIAGNOSTIC_UNEXPECTED_TOKEN (Some t))"

definition make_line :: "string option \<Rightarrow> line_content \<Rightarrow> line" where
  "make_line label content = \<lparr>ln_label = label, ln_content = content, ln_size = 0,
     ln_section_index = 0, ln_section_offset = 0\<rparr>"

definition parser_read_line :: "token list \<Rightarrow> diagnostic + line" where
  "parser_read_line ts =
     (case ts of
        [] \<Rightarrow> asm_fail ZLASM_DIAGNOSTIC_UNEXPECTED_TOKEN
      | t # ts \<Rightarrow>
          if tok_type t = TOK_LABEL_INIT
          then (case ts of
                  [] \<Rightarrow> asm_token_fail ZLASM_DIAGNOSTIC_UNEXPECTED_TOKEN (Some t)
                | u # us \<Rightarrow> sbind (read_content u us) (\<lambda>c. Inr (make_line (Some (tok_value t)) c)))
          else sbind (read_content t ts) (\<lambda>c. Inr (make_line None c)))"

lemma parser_get_line_length:
  assumes "parser_get_line stream = Some (line, rest)"
  shows "length rest < length stream"
proof -
  let ?d = "dropWhile (\<lambda>t. tok_type t = TOK_COMMENT \<or> tok_type t = TOK_NEWLINE) stream"
  from assms obtain first more where d: "?d = first # more"
    by (cases ?d) (auto simp: parser_get_line_def)
  have "length (tl (dropWhile P xs)) \<le> length xs" for P and xs :: "token list"
    using length_dropWhile_le [of P xs] by simp
  then have "length rest \<le> length more"
    using assms unfolding parser_get_line_def d
    by (auto simp: Let_def split: list.splits if_splits intro: le_SucI)
  moreover have "length ?d \<le> length stream" by (rule length_dropWhile_le)
  ultimately show ?thesis unfolding d by simp
qed

text \<open>\<^verbatim>\<open>parser_parse\<close>: the lines of the program.\<close>

function parser_parse :: "token list \<Rightarrow> diagnostic + line list" where
  "parser_parse stream =
     (case parser_get_line stream of
        None \<Rightarrow> Inr []
      | Some (ts, rest) \<Rightarrow>
          sbind (parser_read_line ts) (\<lambda>line.
          sbind (parser_parse rest) (\<lambda>lines. Inr (line # lines))))"
  by auto

termination
  by (relation "measure length") (auto dest: parser_get_line_length)

declare parser_parse.simps [simp del]

end
