(* ===== verification/Byte_Store.thy ===== *)
theory Byte_Store
  imports Prelude
begin

text \<open>
  The contract of anything that holds bytes at addresses: reading after a write gives the written
  byte at its address and the old byte elsewhere, and a write changes no address's validity. The
  multi-byte accessors of the program are proved correct from this contract alone; the contract is
  interpreted on C byte buffers here and on the emulator's memory in \<open>Machine\<close>.
\<close>

section \<open>Block writes\<close>

text \<open>\<^verbatim>\<open>memcpy\<close> of the bytes \<open>bs\<close> to address \<open>a\<close>.\<close>

primrec bytes_write ::
  "('s \<Rightarrow> nat \<Rightarrow> u8 \<Rightarrow> 's) \<Rightarrow> nat \<Rightarrow> u8 list \<Rightarrow> 's \<Rightarrow> 's" where
  "bytes_write wr a [] s = s"
| "bytes_write wr a (b # bs) s = bytes_write wr (Suc a) bs (wr s a b)"

section \<open>The contract\<close>

locale byte_store =
  fixes rd :: "'s \<Rightarrow> nat \<Rightarrow> u8"
    and wr :: "'s \<Rightarrow> nat \<Rightarrow> u8 \<Rightarrow> 's"
    and valid :: "'s \<Rightarrow> nat \<Rightarrow> bool"
  assumes rd_wr: "valid s a \<Longrightarrow> valid s b \<Longrightarrow> rd (wr s a v) b = (if b = a then v else rd s b)"
    and valid_wr: "valid s a \<Longrightarrow> valid (wr s a v) b \<longleftrightarrow> valid s b"
begin

lemma valid_le_write:
  "(\<And>i. i < n \<Longrightarrow> valid s (a + i)) \<Longrightarrow> valid (le_write wr n a v s) b \<longleftrightarrow> valid s b"
proof (induction n arbitrary: b)
  case 0
  then show ?case by simp
next
  case (Suc n)
  then have "\<And>b. valid (le_write wr n a v s) b \<longleftrightarrow> valid s b" by simp
  then show ?case using Suc.prems by (simp add: le_write_Suc valid_wr)
qed

lemma rd_le_write:
  assumes "\<And>i. i < n \<Longrightarrow> valid s (a + i)" "valid s b"
  shows "rd (le_write wr n a v s) b = (if a \<le> b \<and> b < a + n then le_byte v (b - a) else rd s b)"
  using assms
proof (induction n)
  case 0
  then show ?case by auto
next
  case (Suc n)
  have "rd (le_write wr (Suc n) a v s) b =
      (if b = a + n then le_byte v n else rd (le_write wr n a v s) b)"
    using Suc.prems by (simp add: le_write_Suc rd_wr valid_le_write)
  also have "\<dots> = (if a \<le> b \<and> b < a + Suc n then le_byte v (b - a) else rd s b)"
    using Suc by auto
  finally show ?case .
qed

text \<open>A value written over \<open>n\<close> bytes reads back as its low \<open>n\<close> bytes.\<close>

lemma le_read_le_write:
  assumes "\<And>i. i < n \<Longrightarrow> valid s (a + i)"
  shows "(le_read (rd (le_write wr n a v s)) n a :: 'w::len word) = ucast (take_bit (n * 8) v)"
  by (rule le_read_le_byte) (simp add: rd_le_write assms)

lemma le_read_le_write_other:
  assumes "\<And>i. i < n \<Longrightarrow> valid s (a + i)" "\<And>i. i < m \<Longrightarrow> valid s (b + i)"
    and "b + m \<le> a \<or> a + n \<le> b"
  shows "le_read (rd (le_write wr n a v s)) m b = le_read (rd s) m b"
  by (rule le_read_cong) (use assms in \<open>auto simp: rd_le_write\<close>)

text \<open>The same for a block write.\<close>

lemma valid_bytes_write:
  "(\<And>i. i < length bs \<Longrightarrow> valid s (a + i)) \<Longrightarrow> valid (bytes_write wr a bs s) b \<longleftrightarrow> valid s b"
proof (induction bs arbitrary: a s)
  case Nil
  then show ?case by simp
next
  case (Cons x bs)
  have a: "valid s a" using Cons.prems [of 0] by simp
  have "valid (wr s a x) (Suc a + i)" if "i < length bs" for i
    using Cons.prems [of "Suc i"] that a by (simp add: valid_wr)
  then show ?case using Cons.IH [of "wr s a x" "Suc a"] a by (simp add: valid_wr)
qed

lemma rd_bytes_write:
  assumes "\<And>i. i < length bs \<Longrightarrow> valid s (a + i)" "valid s b"
  shows "rd (bytes_write wr a bs s) b =
    (if a \<le> b \<and> b < a + length bs then bs ! (b - a) else rd s b)"
  using assms
proof (induction bs arbitrary: a s)
  case Nil
  then show ?case by auto
next
  case (Cons x bs)
  have a: "valid s a" using Cons.prems(1) [of 0] by simp
  have v: "valid (wr s a x) (Suc a + i)" if "i < length bs" for i
    using Cons.prems(1) [of "Suc i"] that a by (simp add: valid_wr)
  have "rd (bytes_write wr (Suc a) bs (wr s a x)) b =
      (if Suc a \<le> b \<and> b < Suc a + length bs then bs ! (b - Suc a) else rd (wr s a x) b)"
    using Cons.IH [of "wr s a x" "Suc a"] v a Cons.prems(2) by (simp add: valid_wr)
  then show ?case
    using a Cons.prems(2) by (auto simp: rd_wr nth_Cons' not_le less_Suc_eq_le dest: le_antisym)
qed

end

section \<open>C byte buffers\<close>

text \<open>A buffer is the list of its bytes; an index outside it is not valid.\<close>

abbreviation buf_ok :: "u8 list \<Rightarrow> nat \<Rightarrow> bool" where
  "buf_ok b a \<equiv> a < length b"

interpretation buf: byte_store "(!)" list_update buf_ok
  by unfold_locales (auto simp: nth_list_update)

lemma length_le_write [simp]: "length (le_write list_update n a v b) = length b"
  by (induction n) (simp_all add: le_write_Suc)

lemma length_bytes_write [simp]: "length (bytes_write list_update a bs b) = length b"
  by (induction bs arbitrary: a b) simp_all

lemma bytes_write_eq:
  "a + length bs \<le> length b \<Longrightarrow>
     bytes_write list_update a bs b = take a b @ bs @ drop (a + length bs) b"
  by (rule nth_equalityI) (auto simp: buf.rd_bytes_write nth_append min_def)

end
