(* ===== verification/Image.thy ===== *)
theory Image
  imports Byte_Store
begin

text \<open>
  Object and executable images: \<^verbatim>\<open>include/Image.h\<close> and \<^verbatim>\<open>emulator/src/Image.c\<close>. The data types
  of the header, the size and byte helpers, the encoder with its three writing loops and the decoder
  with its three reading loops. C strings are lists of bytes without the terminator, a null pointer
  is \<^term>\<open>None\<close>. Allocation is the parameter \<open>can_alloc\<close>: whether the allocator grants so many bytes.
\<close>

section \<open>Data\<close>

type_synonym cstring = "u8 list"

datatype (plugins only: code size) image_error =
    ZL_IMAGE_ERROR_NONE | ZL_IMAGE_ERROR_INVALID_ARGUMENT | ZL_IMAGE_ERROR_OUT_OF_MEMORY |
    ZL_IMAGE_ERROR_BAD_MAGIC | ZL_IMAGE_ERROR_UNSUPPORTED_VERSION | ZL_IMAGE_ERROR_INVALID_KIND |
    ZL_IMAGE_ERROR_MALFORMED | ZL_IMAGE_ERROR_OVERFLOW | ZL_IMAGE_ERROR_BOUNDS

named_theorems image_consts \<open>the enumerators and sizes of the image format, unfolded\<close>

definition ZL_IMAGE_UNDEFINED_SECTION :: u32 where
  [image_consts]: "ZL_IMAGE_UNDEFINED_SECTION = - 1"

definition ZL_IMAGE_OBJECT :: u8 where
  [image_consts]: "ZL_IMAGE_OBJECT = 1"

definition ZL_IMAGE_EXECUTABLE :: u8 where
  [image_consts]: "ZL_IMAGE_EXECUTABLE = 2"

definition ZL_IMAGE_SECTION_TEXT :: u32 where
  [image_consts]: "ZL_IMAGE_SECTION_TEXT = 1"

definition ZL_IMAGE_SECTION_DATA :: u32 where
  [image_consts]: "ZL_IMAGE_SECTION_DATA = 2"

definition ZL_IMAGE_SECTION_BSS :: u32 where
  [image_consts]: "ZL_IMAGE_SECTION_BSS = 3"

definition ZL_IMAGE_SYMBOL_LOCAL :: u8 where
  [image_consts]: "ZL_IMAGE_SYMBOL_LOCAL = 0"

definition ZL_IMAGE_SYMBOL_GLOBAL :: u8 where
  [image_consts]: "ZL_IMAGE_SYMBOL_GLOBAL = 1"

definition ZL_IMAGE_SYMBOL_WEAK :: u8 where
  [image_consts]: "ZL_IMAGE_SYMBOL_WEAK = 2"

definition ZL_IMAGE_SYMBOL_OBJECT :: u8 where
  [image_consts]: "ZL_IMAGE_SYMBOL_OBJECT = 1"

definition ZL_IMAGE_SYMBOL_FUNCTION :: u8 where
  [image_consts]: "ZL_IMAGE_SYMBOL_FUNCTION = 2"

definition ZL_IMAGE_RELOCATION_ABSOLUTE32 :: u32 where
  [image_consts]: "ZL_IMAGE_RELOCATION_ABSOLUTE32 = 1"

definition ZL_IMAGE_RELOCATION_PC_RELATIVE32 :: u32 where
  [image_consts]: "ZL_IMAGE_RELOCATION_PC_RELATIVE32 = 2"

definition IMAGE_VERSION :: u16 where
  [image_consts]: "IMAGE_VERSION = 1"

definition IMAGE_HEADER_SIZE :: nat where
  [image_consts]: "IMAGE_HEADER_SIZE = 52"

definition IMAGE_SECTION_RECORD_SIZE :: nat where
  [image_consts]: "IMAGE_SECTION_RECORD_SIZE = 28"

definition IMAGE_SYMBOL_RECORD_SIZE :: nat where
  [image_consts]: "IMAGE_SYMBOL_RECORD_SIZE = 20"

definition IMAGE_RELOCATION_RECORD_SIZE :: nat where
  [image_consts]: "IMAGE_RELOCATION_RECORD_SIZE = 20"

definition image_magic :: "u8 list" where
  [image_consts]: "image_magic = [0x5A, 0x4C, 0x49, 0x4D]"

record zl_section =
  sec_name :: "cstring option"
  sec_type :: u32
  sec_flags :: u32
  sec_alignment :: u32
  sec_address :: u32
  sec_data :: "u8 list option"
  sec_data_size :: nat

record zl_symbol =
  sym_name :: "cstring option"
  sym_section_index :: u32
  sym_value :: u32
  sym_size :: u32
  sym_binding :: u8
  sym_type :: u8

text \<open>The addend is the \<^verbatim>\<open>int32_t\<close> read by \<^term>\<open>sint\<close>.\<close>

record zl_relocation =
  rel_section_index :: u32
  rel_offset :: u32
  rel_type :: u32
  rel_symbol_index :: u32
  rel_addend :: u32

record zl_image =
  img_kind :: u8
  img_entry_point :: u32
  img_entry_symbol :: "cstring option"
  img_sections :: "zl_section list option"
  img_section_count :: nat
  img_symbols :: "zl_symbol list option"
  img_symbol_count :: nat
  img_relocations :: "zl_relocation list option"
  img_relocation_count :: nat

text \<open>The elements of an array given as a pointer and a count.\<close>

definition c_array :: "'a list option \<Rightarrow> nat \<Rightarrow> 'a list" where
  "c_array p n = (case p of None \<Rightarrow> [] | Some xs \<Rightarrow> take n xs)"

abbreviation image_sections :: "zl_image \<Rightarrow> zl_section list" where
  "image_sections img \<equiv> c_array (img_sections img) (img_section_count img)"

abbreviation image_symbols :: "zl_image \<Rightarrow> zl_symbol list" where
  "image_symbols img \<equiv> c_array (img_symbols img) (img_symbol_count img)"

abbreviation image_relocations :: "zl_image \<Rightarrow> zl_relocation list" where
  "image_relocations img \<equiv> c_array (img_relocations img) (img_relocation_count img)"

text \<open>The string a name stands for; the encoder writes a null name as the empty one.\<close>

definition c_name :: "cstring option \<Rightarrow> cstring" where
  "c_name p = (case p of None \<Rightarrow> [] | Some s \<Rightarrow> s)"

section \<open>Helpers\<close>

definition add_size :: "nat \<Rightarrow> nat \<Rightarrow> nat option" where
  "add_size left right = (if right > SIZE_T_MAX - left then None else Some (left + right))"

definition multiply_size :: "nat \<Rightarrow> nat \<Rightarrow> nat option" where
  "multiply_size left right =
     (if left \<noteq> 0 \<and> right > SIZE_T_MAX div left then None else Some (left * right))"

text \<open>\<^verbatim>\<open>size_t\<close> subtraction wraps.\<close>

definition size_sub :: "nat \<Rightarrow> nat \<Rightarrow> nat" where
  "size_sub a b = (a + (SIZE_T_MAX + 1) - b) mod (SIZE_T_MAX + 1)"

definition put16 :: "u8 list \<Rightarrow> nat \<Rightarrow> u16 \<Rightarrow> u8 list" where
  "put16 output offset value = output[offset := ucast value, offset + 1 := ucast (drop_bit 8 value)]"

definition put32 :: "u8 list \<Rightarrow> nat \<Rightarrow> u32 \<Rightarrow> u8 list" where
  "put32 output offset value = le_write list_update 4 offset value output"

definition get16 :: "u8 list \<Rightarrow> nat \<Rightarrow> u16" where
  "get16 input offset = ucast (input ! offset) OR push_bit 8 (ucast (input ! (offset + 1)))"

definition get32 :: "u8 list \<Rightarrow> nat \<Rightarrow> u32" where
  "get32 input offset = le_read ((!) input) 4 offset"

text \<open>\<^verbatim>\<open>in_range\<close> of the image codec.\<close>

definition image_in_range :: "nat \<Rightarrow> nat \<Rightarrow> nat \<Rightarrow> bool" where
  "image_in_range offset sz input_size \<longleftrightarrow> offset \<le> input_size \<and> sz \<le> input_size - offset"

text \<open>\<^verbatim>\<open>get_string\<close> followed by \<^verbatim>\<open>copy_string\<close>: the bytes up to the terminator.\<close>

definition get_string :: "u8 list \<Rightarrow> nat \<Rightarrow> u32 \<Rightarrow> cstring option" where
  "get_string strings string_size offset =
     (if unat offset \<ge> string_size then None
      else let rest = drop (unat offset) strings
           in if 0 \<notin> set (take (string_size - unat offset) rest) then None
              else Some (takeWhile (\<lambda>b. b \<noteq> 0) rest))"

text \<open>The strings region starts at \<open>base\<close> of the output; the result is the output, the advanced
  cursor and the offset of the string.\<close>

definition append_string ::
  "u8 list \<Rightarrow> nat \<Rightarrow> nat \<Rightarrow> nat \<Rightarrow> cstring option \<Rightarrow> (u8 list \<times> nat \<times> u32) option" where
  "append_string out base string_size cursor value =
     (let v = c_name value; len = length v + 1
      in if len > size_sub string_size cursor \<or> cursor > WORD_MAX then None
         else Some (bytes_write list_update (base + cursor) (v @ [0]) out, cursor + len,
                    of_nat cursor))"

definition valid_alignment :: "u32 \<Rightarrow> bool" where
  "valid_alignment alignment \<longleftrightarrow> alignment \<noteq> 0 \<and> alignment AND (alignment - 1) = 0"

text \<open>\<^verbatim>\<open>copy_string\<close> allocates the copy with its terminator.\<close>

definition copy_string :: "(nat \<Rightarrow> bool) \<Rightarrow> cstring \<Rightarrow> cstring option" where
  "copy_string can_alloc value = (if can_alloc (length value + 1) then Some value else None)"

section \<open>Encoding: sizes and checks\<close>

text \<open>The loop that sums the lengths of the names, in the order sections then symbols.\<close>

fun names_size :: "cstring option list \<Rightarrow> nat \<Rightarrow> nat option" where
  "names_size [] string_size = Some string_size"
| "names_size (name # names) string_size =
     (case add_size string_size (length (c_name name) + 1) of
        None \<Rightarrow> None | Some string_size \<Rightarrow> names_size names string_size)"

definition encode_string_size :: "zl_image \<Rightarrow> nat option" where
  "encode_string_size img =
     (case names_size (map sec_name (image_sections img) @ map sym_name (image_symbols img)) 1 of
        None \<Rightarrow> None
      | Some string_size \<Rightarrow>
          (case img_entry_symbol img of
             Some entry \<Rightarrow> if img_kind img = ZL_IMAGE_OBJECT
                           then add_size string_size (length entry + 1) else Some string_size
           | None \<Rightarrow> Some string_size))"

record image_offsets =
  off_section :: nat
  off_symbol :: nat
  off_relocation :: nat
  off_string :: nat
  off_payload :: nat

definition encode_offsets :: "zl_image \<Rightarrow> nat \<Rightarrow> image_offsets option" where
  "encode_offsets img string_size =
     (case (multiply_size (img_section_count img) IMAGE_SECTION_RECORD_SIZE,
            multiply_size (img_symbol_count img) IMAGE_SYMBOL_RECORD_SIZE,
            multiply_size (img_relocation_count img) IMAGE_RELOCATION_RECORD_SIZE) of
        (Some section_bytes, Some symbol_bytes, Some relocation_bytes) \<Rightarrow>
          (case add_size IMAGE_HEADER_SIZE section_bytes of None \<Rightarrow> None | Some symbol_offset \<Rightarrow>
          (case add_size symbol_offset symbol_bytes of None \<Rightarrow> None | Some relocation_offset \<Rightarrow>
          (case add_size relocation_offset relocation_bytes of None \<Rightarrow> None | Some string_offset \<Rightarrow>
          (case add_size string_offset string_size of None \<Rightarrow> None | Some payload_offset \<Rightarrow>
             Some \<lparr>off_section = IMAGE_HEADER_SIZE, off_symbol = symbol_offset,
                   off_relocation = relocation_offset, off_string = string_offset,
                   off_payload = payload_offset\<rparr>))))
      | _ \<Rightarrow> None)"

definition section_ok :: "zl_section \<Rightarrow> bool" where
  "section_ok section \<longleftrightarrow>
     \<not> (sec_data_size section > WORD_MAX \<or>
        (sec_type section \<noteq> ZL_IMAGE_SECTION_BSS \<and> sec_data_size section \<noteq> 0 \<and>
         sec_data section = None) \<or>
        \<not> valid_alignment (sec_alignment section) \<or>
        (sec_type section < ZL_IMAGE_SECTION_TEXT \<or> sec_type section > ZL_IMAGE_SECTION_BSS) \<or>
        sec_data_size section > WORD_MAX - unat (sec_address section))"

fun check_sections :: "zl_section list \<Rightarrow> nat \<Rightarrow> image_error + nat" where
  "check_sections [] payload_size = Inr payload_size"
| "check_sections (section # sections) payload_size =
     (if \<not> section_ok section then Inl ZL_IMAGE_ERROR_MALFORMED
      else if sec_type section \<noteq> ZL_IMAGE_SECTION_BSS
      then (case add_size payload_size (sec_data_size section) of
              None \<Rightarrow> Inl ZL_IMAGE_ERROR_OVERFLOW
            | Some payload_size \<Rightarrow> check_sections sections payload_size)
      else check_sections sections payload_size)"

definition symbol_ok :: "nat \<Rightarrow> zl_symbol \<Rightarrow> bool" where
  "symbol_ok section_count symbol \<longleftrightarrow>
     \<not> ((sym_section_index symbol \<noteq> ZL_IMAGE_UNDEFINED_SECTION \<and>
         unat (sym_section_index symbol) \<ge> section_count) \<or>
        sym_binding symbol > ZL_IMAGE_SYMBOL_WEAK \<or> sym_type symbol > ZL_IMAGE_SYMBOL_FUNCTION)"

definition relocation_ok :: "zl_section list \<Rightarrow> nat \<Rightarrow> nat \<Rightarrow> zl_relocation \<Rightarrow> bool" where
  "relocation_ok sections section_count symbol_count relocation \<longleftrightarrow>
     \<not> (unat (rel_section_index relocation) \<ge> section_count \<or>
        unat (rel_symbol_index relocation) \<ge> symbol_count \<or>
        (rel_type relocation \<noteq> ZL_IMAGE_RELOCATION_ABSOLUTE32 \<and>
         rel_type relocation \<noteq> ZL_IMAGE_RELOCATION_PC_RELATIVE32) \<or>
        (let section = sections ! unat (rel_section_index relocation)
         in sec_type section = ZL_IMAGE_SECTION_BSS \<or>
            unat (rel_offset relocation) > sec_data_size section \<or>
            sec_data_size section - unat (rel_offset relocation) < 4))"

text \<open>The loop that sets \<^verbatim>\<open>entry_found\<close>.\<close>

definition entry_found :: "u32 \<Rightarrow> zl_section list \<Rightarrow> bool" where
  "entry_found entry_point sections \<longleftrightarrow>
     (\<exists>section \<in> set sections. sec_type section = ZL_IMAGE_SECTION_TEXT \<and>
        entry_point \<ge> sec_address section \<and>
        unat (entry_point - sec_address section) < sec_data_size section)"

section \<open>Encoding: writing\<close>

text \<open>The calls of \<^verbatim>\<open>append_string\<close> for section and symbol names ignore its result; the case where it
  fails is not reached, because \<open>string_size\<close> is the sum of the lengths.\<close>

definition append_name :: "u8 list \<Rightarrow> nat \<Rightarrow> nat \<Rightarrow> nat \<Rightarrow> cstring option \<Rightarrow> u8 list \<times> nat \<times> u32" where
  "append_name out base string_size cursor name =
     (case append_string out base string_size cursor name of
        None \<Rightarrow> (out, cursor, 0) | Some r \<Rightarrow> r)"

definition write_section ::
  "image_offsets \<Rightarrow> nat \<Rightarrow> u8 list \<times> nat \<times> nat \<Rightarrow> nat \<times> zl_section \<Rightarrow> u8 list \<times> nat \<times> nat" where
  "write_section off string_size st ixs =
     (let (result, string_cursor, payload_cursor) = st; (index, section) = ixs;
          record = off_section off + index * IMAGE_SECTION_RECORD_SIZE;
          (result, string_cursor, name_offset) =
            append_name result (off_string off) string_size string_cursor (sec_name section);
          result = put32 result record name_offset;
          result = put32 result (record + 4) (sec_type section);
          result = put32 result (record + 8) (sec_flags section);
          result = put32 result (record + 12) (sec_alignment section);
          result = put32 result (record + 16) (sec_address section);
          result = put32 result (record + 20) (of_nat payload_cursor);
          result = put32 result (record + 24) (of_nat (sec_data_size section))
      in if sec_type section \<noteq> ZL_IMAGE_SECTION_BSS \<and> sec_data_size section \<noteq> 0
         then (bytes_write list_update payload_cursor
                 (c_array (sec_data section) (sec_data_size section)) result,
               string_cursor, payload_cursor + sec_data_size section)
         else (result, string_cursor, payload_cursor))"

definition write_symbol ::
  "image_offsets \<Rightarrow> nat \<Rightarrow> u8 list \<times> nat \<Rightarrow> nat \<times> zl_symbol \<Rightarrow> u8 list \<times> nat" where
  "write_symbol off string_size st ixs =
     (let (result, string_cursor) = st; (index, symbol) = ixs;
          record = off_symbol off + index * IMAGE_SYMBOL_RECORD_SIZE;
          (result, string_cursor, name_offset) =
            append_name result (off_string off) string_size string_cursor (sym_name symbol);
          result = put32 result record name_offset;
          result = put32 result (record + 4) (sym_section_index symbol);
          result = put32 result (record + 8) (sym_value symbol);
          result = put32 result (record + 12) (sym_size symbol)
      in (result[record + 16 := sym_binding symbol, record + 17 := sym_type symbol], string_cursor))"

definition write_relocation :: "image_offsets \<Rightarrow> u8 list \<Rightarrow> nat \<times> zl_relocation \<Rightarrow> u8 list" where
  "write_relocation off result ixs =
     (let (index, relocation) = ixs;
          record = off_relocation off + index * IMAGE_RELOCATION_RECORD_SIZE;
          result = put32 result record (rel_section_index relocation);
          result = put32 result (record + 4) (rel_offset relocation);
          result = put32 result (record + 8) (rel_type relocation);
          result = put32 result (record + 12) (rel_symbol_index relocation)
      in put32 result (record + 16) (rel_addend relocation))"

definition write_header :: "zl_image \<Rightarrow> image_offsets \<Rightarrow> nat \<Rightarrow> u8 list \<Rightarrow> u8 list" where
  "write_header img off string_size result =
     (let result = bytes_write list_update 0 image_magic result;
          result = put16 result 4 IMAGE_VERSION;
          result = result[6 := img_kind img];
          result = put32 result 8 (of_nat IMAGE_HEADER_SIZE);
          result = put32 result 12 (of_nat (img_section_count img));
          result = put32 result 16 (of_nat (img_symbol_count img));
          result = put32 result 20 (of_nat (img_relocation_count img));
          result = put32 result 24 (img_entry_point img);
          result = put32 result 28 (of_nat (off_section off));
          result = put32 result 32 (of_nat (off_symbol off));
          result = put32 result 36 (of_nat (off_relocation off));
          result = put32 result 40 (of_nat (off_string off));
          result = put32 result 44 (of_nat string_size)
      in put32 result 48 (of_nat (off_payload off)))"

text \<open>The body of the encoder after the allocation of \<open>total_size\<close> zero bytes.\<close>

definition encode_into :: "zl_image \<Rightarrow> image_offsets \<Rightarrow> nat \<Rightarrow> nat \<Rightarrow> image_error + u8 list" where
  "encode_into img off string_size total_size =
     (let result = write_header img off string_size (replicate total_size 0);
          (result, string_cursor, payload_cursor) =
            foldl (write_section off string_size) (result, 1, off_payload off)
              (enumerate 0 (image_sections img));
          (result, string_cursor) =
            foldl (write_symbol off string_size) (result, string_cursor)
              (enumerate 0 (image_symbols img));
          finish = (\<lambda>result. Inr (foldl (write_relocation off) result
              (enumerate 0 (image_relocations img))))
      in case img_entry_symbol img of
           Some entry \<Rightarrow>
             if img_kind img = ZL_IMAGE_OBJECT
             then (case append_string result (off_string off) string_size string_cursor (Some entry) of
                     None \<Rightarrow> Inl ZL_IMAGE_ERROR_OVERFLOW
                   | Some (result, _, entry_offset) \<Rightarrow> finish (put32 result 24 entry_offset))
             else finish result
         | None \<Rightarrow> finish result)"

definition null_arrays :: "zl_image \<Rightarrow> bool" where
  "null_arrays img \<longleftrightarrow>
     (img_section_count img \<noteq> 0 \<and> img_sections img = None) \<or>
     (img_symbol_count img \<noteq> 0 \<and> img_symbols img = None) \<or>
     (img_relocation_count img \<noteq> 0 \<and> img_relocations img = None)"

text \<open>\<^verbatim>\<open>zl_image_encode\<close>; the result is the error code or the encoded bytes, whose number is
  \<^verbatim>\<open>*output_size\<close>. The caller's output pointers are not null.\<close>

definition zl_image_encode ::
  "(nat \<Rightarrow> bool) \<Rightarrow> zl_image option \<Rightarrow> image_error + u8 list" where
  "zl_image_encode can_alloc img_ptr =
     (case img_ptr of None \<Rightarrow> Inl ZL_IMAGE_ERROR_INVALID_ARGUMENT
      | Some img \<Rightarrow>
      if null_arrays img then Inl ZL_IMAGE_ERROR_INVALID_ARGUMENT
      else if img_kind img \<noteq> ZL_IMAGE_OBJECT \<and> img_kind img \<noteq> ZL_IMAGE_EXECUTABLE
      then Inl ZL_IMAGE_ERROR_INVALID_KIND
      else if img_section_count img > WORD_MAX \<or> img_symbol_count img > WORD_MAX \<or>
              img_relocation_count img > WORD_MAX then Inl ZL_IMAGE_ERROR_OVERFLOW
      else if img_kind img = ZL_IMAGE_EXECUTABLE \<and> img_relocation_count img \<noteq> 0
      then Inl ZL_IMAGE_ERROR_MALFORMED
      else case encode_string_size img of None \<Rightarrow> Inl ZL_IMAGE_ERROR_OVERFLOW
      | Some string_size \<Rightarrow>
     (case encode_offsets img string_size of None \<Rightarrow> Inl ZL_IMAGE_ERROR_OVERFLOW
      | Some off \<Rightarrow>
     (case check_sections (image_sections img) 0 of Inl e \<Rightarrow> Inl e
      | Inr payload_size \<Rightarrow>
      if \<not> list_all (symbol_ok (img_section_count img)) (image_symbols img)
      then Inl ZL_IMAGE_ERROR_MALFORMED
      else if \<not> list_all (relocation_ok (image_sections img) (img_section_count img)
                           (img_symbol_count img)) (image_relocations img)
      then Inl ZL_IMAGE_ERROR_MALFORMED
      else case add_size (off_payload off) payload_size of None \<Rightarrow> Inl ZL_IMAGE_ERROR_OVERFLOW
      | Some total_size \<Rightarrow>
      if total_size > WORD_MAX then Inl ZL_IMAGE_ERROR_OVERFLOW
      else if img_kind img = ZL_IMAGE_OBJECT \<and> img_entry_point img \<noteq> 0
      then Inl ZL_IMAGE_ERROR_MALFORMED
      else if img_kind img = ZL_IMAGE_EXECUTABLE \<and> img_entry_point img = 0
      then Inl ZL_IMAGE_ERROR_MALFORMED
      else if img_kind img = ZL_IMAGE_EXECUTABLE \<and>
              \<not> entry_found (img_entry_point img) (image_sections img)
      then Inl ZL_IMAGE_ERROR_MALFORMED
      else if \<not> can_alloc total_size then Inl ZL_IMAGE_ERROR_OUT_OF_MEMORY
      else encode_into img off string_size total_size)))"

section \<open>Decoding\<close>

record image_header =
  hdr_kind :: u8
  hdr_entry :: u32
  hdr_section_count :: nat
  hdr_symbol_count :: nat
  hdr_relocation_count :: nat
  hdr_off :: image_offsets
  hdr_string_size :: nat

text \<open>The fixed header up to the check of the entry point.\<close>

definition decode_header :: "u8 list \<Rightarrow> nat \<Rightarrow> image_error + image_header" where
  "decode_header input input_size =
     (if input_size < IMAGE_HEADER_SIZE \<or> take 4 input \<noteq> image_magic
      then Inl ZL_IMAGE_ERROR_BAD_MAGIC
      else if get16 input 4 \<noteq> IMAGE_VERSION then Inl ZL_IMAGE_ERROR_UNSUPPORTED_VERSION
      else let kind = input ! 6 in
      if (kind \<noteq> ZL_IMAGE_OBJECT \<and> kind \<noteq> ZL_IMAGE_EXECUTABLE) \<or> input ! 7 \<noteq> 0 \<or>
         unat (get32 input 8) \<noteq> IMAGE_HEADER_SIZE
      then Inl ZL_IMAGE_ERROR_MALFORMED
      else let section_count = unat (get32 input 12); symbol_count = unat (get32 input 16);
               relocation_count = unat (get32 input 20);
               section_offset = unat (get32 input 28); symbol_offset = unat (get32 input 32);
               relocation_offset = unat (get32 input 36); string_offset = unat (get32 input 40);
               string_size = unat (get32 input 44); payload_offset = unat (get32 input 48)
      in case (multiply_size section_count IMAGE_SECTION_RECORD_SIZE,
               multiply_size symbol_count IMAGE_SYMBOL_RECORD_SIZE,
               multiply_size relocation_count IMAGE_RELOCATION_RECORD_SIZE) of
        (Some section_bytes, Some symbol_bytes, Some relocation_bytes) \<Rightarrow>
          if \<not> image_in_range section_offset section_bytes input_size \<or>
             \<not> image_in_range symbol_offset symbol_bytes input_size \<or>
             \<not> image_in_range relocation_offset relocation_bytes input_size \<or>
             \<not> image_in_range string_offset string_size input_size \<or>
             payload_offset > input_size \<or> section_offset < IMAGE_HEADER_SIZE \<or>
             symbol_offset < section_offset + section_bytes \<or>
             relocation_offset < symbol_offset + symbol_bytes \<or>
             string_offset < relocation_offset + relocation_bytes \<or>
             string_offset > payload_offset \<or> string_size > payload_offset - string_offset
          then Inl ZL_IMAGE_ERROR_BOUNDS
          else if string_size = 0 \<or> input ! string_offset \<noteq> 0 then Inl ZL_IMAGE_ERROR_MALFORMED
          else let entry_field = get32 input 24 in
               if kind = ZL_IMAGE_EXECUTABLE \<and> (entry_field = 0 \<or> relocation_count \<noteq> 0)
               then Inl ZL_IMAGE_ERROR_MALFORMED
               else Inr \<lparr>hdr_kind = kind, hdr_entry = entry_field,
                 hdr_section_count = section_count, hdr_symbol_count = symbol_count,
                 hdr_relocation_count = relocation_count,
                 hdr_off = \<lparr>off_section = section_offset, off_symbol = symbol_offset,
                   off_relocation = relocation_offset, off_string = string_offset,
                   off_payload = payload_offset\<rparr>,
                 hdr_string_size = string_size\<rparr>
      | _ \<Rightarrow> Inl ZL_IMAGE_ERROR_BOUNDS)"

definition read_section ::
  "(nat \<Rightarrow> bool) \<Rightarrow> u8 list \<Rightarrow> nat \<Rightarrow> image_header \<Rightarrow> nat \<Rightarrow> image_error + zl_section" where
  "read_section can_alloc input input_size h index =
     (let record = off_section (hdr_off h) + index * IMAGE_SECTION_RECORD_SIZE;
          strings = drop (off_string (hdr_off h)) input;
          data_offset = unat (get32 input (record + 20));
          data_size = unat (get32 input (record + 24));
          type = get32 input (record + 4);
          address = get32 input (record + 16)
      in case get_string strings (hdr_string_size h) (get32 input record) of
           None \<Rightarrow> Inl ZL_IMAGE_ERROR_MALFORMED
         | Some name \<Rightarrow>
         if \<not> valid_alignment (get32 input (record + 12)) \<or>
            (type < ZL_IMAGE_SECTION_TEXT \<or> type > ZL_IMAGE_SECTION_BSS) \<or>
            (type = ZL_IMAGE_SECTION_BSS \<and> data_offset > input_size) \<or>
            (type \<noteq> ZL_IMAGE_SECTION_BSS \<and>
             (data_offset < off_payload (hdr_off h) \<or>
              \<not> image_in_range data_offset data_size input_size)) \<or>
            data_size > WORD_MAX - unat address
         then Inl ZL_IMAGE_ERROR_MALFORMED
         else let name' = copy_string can_alloc name;
                  data = (if can_alloc data_size
                          then Some (if type = ZL_IMAGE_SECTION_BSS then replicate data_size 0
                                     else take data_size (drop data_offset input))
                          else None)
              in if name' = None \<or> (data_size \<noteq> 0 \<and> data = None) then Inl ZL_IMAGE_ERROR_OUT_OF_MEMORY
                 else Inr \<lparr>sec_name = name', sec_type = type, sec_flags = get32 input (record + 8),
                   sec_alignment = get32 input (record + 12), sec_address = address,
                   sec_data = data, sec_data_size = data_size\<rparr>)"

definition read_symbol ::
  "(nat \<Rightarrow> bool) \<Rightarrow> u8 list \<Rightarrow> image_header \<Rightarrow> nat \<Rightarrow> image_error + zl_symbol" where
  "read_symbol can_alloc input h index =
     (let record = off_symbol (hdr_off h) + index * IMAGE_SYMBOL_RECORD_SIZE;
          strings = drop (off_string (hdr_off h)) input;
          section_index = get32 input (record + 4)
      in case get_string strings (hdr_string_size h) (get32 input record) of
           None \<Rightarrow> Inl ZL_IMAGE_ERROR_MALFORMED
         | Some name \<Rightarrow>
         if section_index \<noteq> ZL_IMAGE_UNDEFINED_SECTION \<and> unat section_index \<ge> hdr_section_count h
         then Inl ZL_IMAGE_ERROR_MALFORMED
         else case copy_string can_alloc name of
           None \<Rightarrow> Inl ZL_IMAGE_ERROR_OUT_OF_MEMORY
         | Some name \<Rightarrow>
         if input ! (record + 16) > ZL_IMAGE_SYMBOL_WEAK \<or>
            input ! (record + 17) > ZL_IMAGE_SYMBOL_FUNCTION
         then Inl ZL_IMAGE_ERROR_MALFORMED
         else if input ! (record + 18) \<noteq> 0 \<or> input ! (record + 19) \<noteq> 0
         then Inl ZL_IMAGE_ERROR_MALFORMED
         else Inr \<lparr>sym_name = Some name, sym_section_index = section_index,
                sym_value = get32 input (record + 8), sym_size = get32 input (record + 12),
                sym_binding = input ! (record + 16), sym_type = input ! (record + 17)\<rparr>)"

definition read_relocation ::
  "u8 list \<Rightarrow> image_header \<Rightarrow> zl_section list \<Rightarrow> nat \<Rightarrow> image_error + zl_relocation" where
  "read_relocation input h sections index =
     (let record = off_relocation (hdr_off h) + index * IMAGE_RELOCATION_RECORD_SIZE;
          relocation = \<lparr>rel_section_index = get32 input record, rel_offset = get32 input (record + 4),
            rel_type = get32 input (record + 8), rel_symbol_index = get32 input (record + 12),
            rel_addend = get32 input (record + 16)\<rparr>
      in if \<not> relocation_ok sections (hdr_section_count h) (hdr_symbol_count h) relocation
         then Inl ZL_IMAGE_ERROR_MALFORMED else Inr relocation)"

text \<open>The sizes of the array elements on a 64-bit host.\<close>

definition sizeof_section :: nat where [image_consts]: "sizeof_section = 40"
definition sizeof_symbol :: nat where [image_consts]: "sizeof_symbol = 24"
definition sizeof_relocation :: nat where [image_consts]: "sizeof_relocation = 20"

text \<open>The entry symbol of an object; the outer result is the error.\<close>

definition decode_entry_symbol ::
  "(nat \<Rightarrow> bool) \<Rightarrow> u8 list \<Rightarrow> image_header \<Rightarrow> image_error + cstring option" where
  "decode_entry_symbol can_alloc input h =
     (if hdr_kind h = ZL_IMAGE_OBJECT \<and> hdr_entry h \<noteq> 0
      then case get_string (drop (off_string (hdr_off h)) input) (hdr_string_size h) (hdr_entry h) of
             None \<Rightarrow> Inl ZL_IMAGE_ERROR_MALFORMED
           | Some entry \<Rightarrow>
               (case copy_string can_alloc entry of None \<Rightarrow> Inl ZL_IMAGE_ERROR_OUT_OF_MEMORY
                | Some entry \<Rightarrow> Inr (Some entry))
      else Inr None)"

text \<open>\<^verbatim>\<open>zl_image_decode\<close>: every error path releases what was allocated and leaves the zero image, so
  the result is the error code or the decoded image.\<close>

definition zl_image_decode ::
  "(nat \<Rightarrow> bool) \<Rightarrow> u8 list option \<Rightarrow> nat \<Rightarrow> image_error + zl_image" where
  "zl_image_decode can_alloc input_ptr input_size =
     (case input_ptr of None \<Rightarrow> Inl ZL_IMAGE_ERROR_INVALID_ARGUMENT
      | Some input \<Rightarrow>
     (case decode_header input input_size of Inl e \<Rightarrow> Inl e
      | Inr h \<Rightarrow>
      let a1 = can_alloc (hdr_section_count h * sizeof_section);
          a2 = can_alloc (hdr_symbol_count h * sizeof_symbol);
          a3 = can_alloc (hdr_relocation_count h * sizeof_relocation)
      in if (hdr_section_count h \<noteq> 0 \<and> \<not> a1) \<or> (hdr_symbol_count h \<noteq> 0 \<and> \<not> a2) \<or>
            (hdr_relocation_count h \<noteq> 0 \<and> \<not> a3)
         then Inl ZL_IMAGE_ERROR_OUT_OF_MEMORY
         else case decode_entry_symbol can_alloc input h of Inl e \<Rightarrow> Inl e
      | Inr entry_symbol \<Rightarrow>
     (case try_map (read_section can_alloc input input_size h) [0..<hdr_section_count h] of
        Inl e \<Rightarrow> Inl e
      | Inr sections \<Rightarrow>
     (case try_map (read_symbol can_alloc input h) [0..<hdr_symbol_count h] of
        Inl e \<Rightarrow> Inl e
      | Inr symbols \<Rightarrow>
     (case try_map (read_relocation input h sections) [0..<hdr_relocation_count h] of
        Inl e \<Rightarrow> Inl e
      | Inr relocations \<Rightarrow>
      if hdr_kind h = ZL_IMAGE_EXECUTABLE \<and> \<not> entry_found (hdr_entry h) sections
      then Inl ZL_IMAGE_ERROR_MALFORMED
      else Inr \<lparr>img_kind = hdr_kind h,
        img_entry_point = (if hdr_kind h = ZL_IMAGE_EXECUTABLE then hdr_entry h else 0),
        img_entry_symbol = entry_symbol,
        img_sections = (if a1 then Some sections else None),
        img_section_count = hdr_section_count h,
        img_symbols = (if a2 then Some symbols else None),
        img_symbol_count = hdr_symbol_count h,
        img_relocations = (if a3 then Some relocations else None),
        img_relocation_count = hdr_relocation_count h\<rparr>)))))"

definition zero_image :: zl_image where
  "zero_image = \<lparr>img_kind = 0, img_entry_point = 0, img_entry_symbol = None, img_sections = None,
     img_section_count = 0, img_symbols = None, img_symbol_count = 0, img_relocations = None,
     img_relocation_count = 0\<rparr>"

text \<open>\<^verbatim>\<open>zl_image_free\<close>; what the image owned is gone, the image itself becomes zero.\<close>

definition zl_image_free :: "zl_image option \<Rightarrow> zl_image option" where
  "zl_image_free img_ptr = (case img_ptr of None \<Rightarrow> None | Some _ \<Rightarrow> Some zero_image)"

end
