(* ===== verification/Isa.thy ===== *)
theory Isa
  imports Byte_Store
begin

text \<open>
  The instruction set as data: the enumerations of \<^verbatim>\<open>include/Opcode.h\<close>, \<^verbatim>\<open>include/Condition.h\<close>
  and \<^verbatim>\<open>include/Registers.h\<close>, their mnemonics (\<^verbatim>\<open>emulator/src/Opcode.c\<close>,
  \<^verbatim>\<open>emulator/src/Condition.c\<close>) and the eight-byte instruction codec
  (\<^verbatim>\<open>emulator/src/Instruction.c\<close>). The lemmas show that mnemonics and codes determine each
  other and that encoding and decoding are inverse to each other.
\<close>

section \<open>Opcodes\<close>

text \<open>
  The enumerators of \<^verbatim>\<open>FOREACH_OPCODE\<close> in their order. \<^verbatim>\<open>INT\<close> and \<^verbatim>\<open>NOT\<close> are keywords of HOL, so
  their constructors carry a prime. A C variable of type \<^verbatim>\<open>Opcode\<close> may hold any value that a
  cast from a byte gives, so an instruction stores the number and \<open>opcode_of\<close> reads it.
\<close>

datatype (plugins only: code size) opcode =
    NOP | POP | POPR | PUSHR | PUSHI | DUP | MOVR | MOVI | ADDR | SUBR | MULR | DIVR |
    MODR | ADDI | SUBI | MULI | DIVI | MODI | INT' | SYSCALL | JMP | NOT' | ANDR |
    ORR | XORR | NANDR | NORR | ANDI | ORI | XORI | NANDI | NORI | INC | DEC | LOADB |
    STOREB | LOADH | STOREH | LOADW | STOREW | JMPAL | RET | CMPR | CMPI | CMPSR |
    CMPSI | ADDSR | SUBSR | MULSR | DIVSR | MODSR | ADDSI | SUBSI | MULSI | DIVSI |
    MODSI

definition opcodes :: "opcode list" where
  "opcodes = [
     NOP, POP, POPR, PUSHR, PUSHI, DUP, MOVR, MOVI, ADDR, SUBR, MULR, DIVR, MODR, ADDI,
     SUBI, MULI, DIVI, MODI, INT', SYSCALL, JMP, NOT', ANDR, ORR, XORR, NANDR, NORR,
     ANDI, ORI, XORI, NANDI, NORI, INC, DEC, LOADB, STOREB, LOADH, STOREH, LOADW,
     STOREW, JMPAL, RET, CMPR, CMPI, CMPSR, CMPSI, ADDSR, SUBSR, MULSR, DIVSR, MODSR,
     ADDSI, SUBSI, MULSI, DIVSI, MODSI]"

definition OPCODE_TOTAL :: nat where
  "OPCODE_TOTAL = 56"

definition opcode_of :: "u32 \<Rightarrow> opcode option" where
  "opcode_of n = (if unat n < OPCODE_TOTAL then Some (opcodes ! unat n) else None)"

fun index_of :: "'a \<Rightarrow> 'a list \<Rightarrow> nat" where
  "index_of x [] = 0"
| "index_of x (y # ys) = (if x = y then 0 else Suc (index_of x ys))"

definition opcode_code :: "opcode \<Rightarrow> u32" where
  "opcode_code op = of_nat (index_of op opcodes)"

text \<open>The strings that \<^verbatim>\<open>FOREACH_OPCODE(GENERATE_STRING)\<close> puts into \<^verbatim>\<open>opcode_strings\<close>.\<close>

definition opcode_strings :: "string list" where
  "opcode_strings = [
     ''NOP'', ''POP'', ''POPR'', ''PUSHR'', ''PUSHI'', ''DUP'', ''MOVR'', ''MOVI'',
     ''ADDR'', ''SUBR'', ''MULR'', ''DIVR'', ''MODR'', ''ADDI'', ''SUBI'', ''MULI'',
     ''DIVI'', ''MODI'', ''INT'', ''SYSCALL'', ''JMP'', ''NOT'', ''ANDR'', ''ORR'',
     ''XORR'', ''NANDR'', ''NORR'', ''ANDI'', ''ORI'', ''XORI'', ''NANDI'', ''NORI'',
     ''INC'', ''DEC'', ''LOADB'', ''STOREB'', ''LOADH'', ''STOREH'', ''LOADW'',
     ''STOREW'', ''JMPAL'', ''RET'', ''CMPR'', ''CMPI'', ''CMPSR'', ''CMPSI'',
     ''ADDSR'', ''SUBSR'', ''MULSR'', ''DIVSR'', ''MODSR'', ''ADDSI'', ''SUBSI'',
     ''MULSI'', ''DIVSI'', ''MODSI'']"

text \<open>\<^verbatim>\<open>NULL\<close> is \<^term>\<open>None\<close>.\<close>

definition opcode_to_string :: "u32 \<Rightarrow> string option" where
  "opcode_to_string op =
     (if unat op \<ge> OPCODE_TOTAL then None else Some (opcode_strings ! unat op))"

fun string_to_opcode_from :: "string \<Rightarrow> nat \<Rightarrow> string list \<Rightarrow> nat" where
  "string_to_opcode_from s i [] = OPCODE_TOTAL"
| "string_to_opcode_from s i (t # ts) = (if s = t then i else string_to_opcode_from s (Suc i) ts)"

definition string_to_opcode :: "string \<Rightarrow> u32" where
  "string_to_opcode s = of_nat (string_to_opcode_from s 0 opcode_strings)"

section \<open>Conditions\<close>

datatype (plugins only: code size) condition =
    C_UNCONDITIONAL | C_ZERO_SET | C_ZERO_CLEAR | C_NEGATIVE_SET | C_NEGATIVE_CLEAR |
    C_OVERFLOW_SET | C_OVERFLOW_CLEAR | C_CARRY_SET | C_CARRY_CLEAR | C_SIGNED_SET |
    C_SIGNED_CLEAR | C_UNSIGNED_HIGHER | C_UNSIGNED_LOWER_OR_SAME | C_LESS |
    C_LESS_OR_EQUALS | C_GREATER | C_GREATER_OR_EQUALS

definition conditions :: "condition list" where
  "conditions = [
     C_UNCONDITIONAL, C_ZERO_SET, C_ZERO_CLEAR, C_NEGATIVE_SET, C_NEGATIVE_CLEAR,
     C_OVERFLOW_SET, C_OVERFLOW_CLEAR, C_CARRY_SET, C_CARRY_CLEAR, C_SIGNED_SET,
     C_SIGNED_CLEAR, C_UNSIGNED_HIGHER, C_UNSIGNED_LOWER_OR_SAME, C_LESS,
     C_LESS_OR_EQUALS, C_GREATER, C_GREATER_OR_EQUALS]"

definition C_TOTAL :: nat where
  "C_TOTAL = 17"

definition condition_of :: "u32 \<Rightarrow> condition option" where
  "condition_of n = (if unat n < C_TOTAL then Some (conditions ! unat n) else None)"

definition condition_code :: "condition \<Rightarrow> u32" where
  "condition_code c = of_nat (index_of c conditions)"

fun condition_name :: "condition \<Rightarrow> string" where
  "condition_name C_UNCONDITIONAL = ''un''"
| "condition_name C_ZERO_SET = ''zs''"
| "condition_name C_ZERO_CLEAR = ''zc''"
| "condition_name C_NEGATIVE_SET = ''ns''"
| "condition_name C_NEGATIVE_CLEAR = ''nc''"
| "condition_name C_OVERFLOW_SET = ''vs''"
| "condition_name C_OVERFLOW_CLEAR = ''vc''"
| "condition_name C_CARRY_SET = ''cs''"
| "condition_name C_CARRY_CLEAR = ''cc''"
| "condition_name C_SIGNED_SET = ''ss''"
| "condition_name C_SIGNED_CLEAR = ''sc''"
| "condition_name C_UNSIGNED_HIGHER = ''uh''"
| "condition_name C_UNSIGNED_LOWER_OR_SAME = ''ul''"
| "condition_name C_LESS = ''lt''"
| "condition_name C_LESS_OR_EQUALS = ''le''"
| "condition_name C_GREATER = ''gt''"
| "condition_name C_GREATER_OR_EQUALS = ''ge''"

definition condition_to_string :: "u32 \<Rightarrow> string" where
  "condition_to_string c =
     (case condition_of c of Some c \<Rightarrow> condition_name c | None \<Rightarrow> ''ERROR'')"

section \<open>Registers\<close>

datatype (plugins only: code size) register =
    R_ZERO | R_AT | R_V0 | R_V1 | R_V2 | R_V3 | R_A0 | R_A1 | R_A2 | R_A3 | R_T0 |
    R_T1 | R_T2 | R_T3 | R_T4 | R_T5 | R_T6 | R_T7 | R_S0 | R_S1 | R_S2 | R_S3 | R_S4 |
    R_S5 | R_S6 | R_S7 | R_K0 | R_SC | R_LP | R_SP | R_BP | R_PC

definition registers_list :: "register list" where
  "registers_list = [
     R_ZERO, R_AT, R_V0, R_V1, R_V2, R_V3, R_A0, R_A1, R_A2, R_A3, R_T0, R_T1, R_T2,
     R_T3, R_T4, R_T5, R_T6, R_T7, R_S0, R_S1, R_S2, R_S3, R_S4, R_S5, R_S6, R_S7,
     R_K0, R_SC, R_LP, R_SP, R_BP, R_PC]"

definition R_TOTAL :: nat where
  "R_TOTAL = 32"

definition register_index :: "register \<Rightarrow> nat" where
  "register_index r = index_of r registers_list"

section \<open>Instructions\<close>

record instruction =
  ins_opcode :: u32
  ins_condition :: u32
  register1 :: u8
  register2 :: u8
  immediate :: u32

definition ZLVM_INSTRUCTION_SIZE :: nat where
  "ZLVM_INSTRUCTION_SIZE = 8"

text \<open>
  \<^verbatim>\<open>bool instruction_encode(byte *output, size_t output_size, const Instruction *instruction)\<close>:
  a null pointer is \<^term>\<open>None\<close>; the result \<^term>\<open>None\<close> is \<^verbatim>\<open>false\<close>, which leaves the output
  alone, and \<open>Some out'\<close> is \<^verbatim>\<open>true\<close> with the output buffer's new contents.
\<close>

definition instruction_encode ::
  "u8 list option \<Rightarrow> nat \<Rightarrow> instruction option \<Rightarrow> u8 list option" where
  "instruction_encode output output_size instruction =
     (case (output, instruction) of
        (Some out, Some ins) \<Rightarrow>
          if output_size < ZLVM_INSTRUCTION_SIZE \<or>
             unat (ins_opcode ins) \<ge> OPCODE_TOTAL \<or> unat (ins_condition ins) \<ge> C_TOTAL
          then None
          else Some (le_write list_update 4 4 (immediate ins)
                 (out[0 := ucast (ins_opcode ins), 1 := ucast (ins_condition ins),
                      2 := register1 ins, 3 := register2 ins]))
      | _ \<Rightarrow> None)"

text \<open>\<^verbatim>\<open>instruction_decode\<close>: \<open>output\<close> is the object the first pointer addresses.\<close>

definition instruction_decode ::
  "instruction option \<Rightarrow> u8 list option \<Rightarrow> nat \<Rightarrow> instruction option" where
  "instruction_decode output input input_size =
     (case (output, input) of
        (Some _, Some inp) \<Rightarrow>
          if input_size < ZLVM_INSTRUCTION_SIZE then None
          else Some \<lparr>ins_opcode = ucast (inp ! 0), ins_condition = ucast (inp ! 1),
                     register1 = inp ! 2, register2 = inp ! 3,
                     immediate = le_read ((!) inp) 4 4\<rparr>
      | _ \<Rightarrow> None)"

section \<open>Codes and mnemonics\<close>

lemma index_of_nth: "distinct xs \<Longrightarrow> i < length xs \<Longrightarrow> index_of (xs ! i) xs = i"
  by (induction xs arbitrary: i) (auto simp: nth_Cons split: nat.split)

lemma nth_index_of: "x \<in> set xs \<Longrightarrow> xs ! index_of x xs = x"
  by (induction xs) auto

lemma index_of_less: "x \<in> set xs \<Longrightarrow> index_of x xs < length xs"
  by (induction xs) auto

lemma length_opcodes: "length opcodes = OPCODE_TOTAL"
  by (simp add: opcodes_def OPCODE_TOTAL_def)

lemma distinct_opcodes: "distinct opcodes"
  by (simp add: opcodes_def)

lemma in_opcodes: "op \<in> set opcodes"
  by (cases op) (simp_all add: opcodes_def)

lemma length_conditions: "length conditions = C_TOTAL"
  by (simp add: conditions_def C_TOTAL_def)

lemma distinct_conditions: "distinct conditions"
  by (simp add: conditions_def)

lemma in_conditions: "c \<in> set conditions"
  by (cases c) (simp_all add: conditions_def)

lemma opcode_of_code: "opcode_of (opcode_code op) = Some op"
  using index_of_less [OF in_opcodes, of op] nth_index_of [OF in_opcodes, of op]
  by (simp add: opcode_of_def opcode_code_def length_opcodes unat_of_nat OPCODE_TOTAL_def)

lemma opcode_code_of: "opcode_of n = Some op \<Longrightarrow> opcode_code op = n"
  using index_of_nth [OF distinct_opcodes, of "unat n"]
  by (auto simp: opcode_of_def opcode_code_def length_opcodes split: if_splits)

lemma condition_of_code: "condition_of (condition_code c) = Some c"
  using index_of_less [OF in_conditions, of c] nth_index_of [OF in_conditions, of c]
  by (simp add: condition_of_def condition_code_def length_conditions unat_of_nat C_TOTAL_def)

lemma condition_code_of: "condition_of n = Some c \<Longrightarrow> condition_code c = n"
  using index_of_nth [OF distinct_conditions, of "unat n"]
  by (auto simp: condition_of_def condition_code_def length_conditions split: if_splits)

lemma length_opcode_strings: "length opcode_strings = OPCODE_TOTAL"
  by (simp add: opcode_strings_def OPCODE_TOTAL_def)

lemma distinct_opcode_strings: "distinct opcode_strings"
  by (simp add: opcode_strings_def)

lemma string_to_opcode_from_eq:
  "string_to_opcode_from s i ts =
     (if s \<in> set ts then i + index_of s ts else OPCODE_TOTAL)"
  by (induction s i ts rule: string_to_opcode_from.induct) auto

lemma unat_string_to_opcode:
  "unat (string_to_opcode s) =
     (if s \<in> set opcode_strings then index_of s opcode_strings else OPCODE_TOTAL)"
  using index_of_less [of s opcode_strings]
  by (auto simp: string_to_opcode_def string_to_opcode_from_eq length_opcode_strings
      OPCODE_TOTAL_def unat_of_nat)

text \<open>An opcode number and a mnemonic belong together in one table exactly when they do in the
  other: \<^verbatim>\<open>opcode_to_string\<close> and \<^verbatim>\<open>string_to_opcode\<close> are inverse on the defined opcodes, and an
  unknown mnemonic gives \<^verbatim>\<open>OPCODE_TOTAL\<close>.\<close>

theorem opcode_mnemonic_roundtrip:
  "opcode_to_string op = Some s \<longleftrightarrow> string_to_opcode s = op \<and> unat op < OPCODE_TOTAL"
proof
  assume "opcode_to_string op = Some s"
  then have op: "unat op < OPCODE_TOTAL" "s = opcode_strings ! unat op"
    by (auto simp: opcode_to_string_def split: if_splits)
  then have "index_of s opcode_strings = unat op" "s \<in> set opcode_strings"
    by (simp_all add: index_of_nth distinct_opcode_strings length_opcode_strings)
  then have "unat (string_to_opcode s) = unat op"
    by (simp add: unat_string_to_opcode)
  then show "string_to_opcode s = op \<and> unat op < OPCODE_TOTAL"
    using op by (simp add: word_unat_eq_iff)
next
  assume a: "string_to_opcode s = op \<and> unat op < OPCODE_TOTAL"
  then have "s \<in> set opcode_strings" "unat op = index_of s opcode_strings"
    using unat_string_to_opcode [of s] by (auto split: if_splits)
  then show "opcode_to_string op = Some s"
    using a by (simp add: opcode_to_string_def nth_index_of)
qed

lemma condition_name_inj: "condition_name c = condition_name d \<Longrightarrow> c = d"
  by (cases c; cases d) simp_all

section \<open>The instruction codec\<close>

lemmas codec_defs = instruction_encode_def instruction_decode_def ZLVM_INSTRUCTION_SIZE_def

lemma ucast_byte_code [simp]: "unat (w :: u32) < 256 \<Longrightarrow> ucast (ucast w :: u8) = w"
  by (rule word_unat_eq_iff [THEN iffD2])
     (simp add: unsigned_ucast_eq unsigned_take_bit_eq take_bit_nat_eq_self)

lemma ucast_code_byte [simp]: "ucast (ucast (b :: u8) :: u32) = b"
  by (rule bit_word_eqI) (simp add: bit_simps)

lemma unat_code_byte [simp]: "unat (ucast (b :: u8) :: u32) = unat b"
  by (simp add: unsigned_ucast_eq take_bit_nat_eq_self order_less_trans [OF unat_u8_less])

lemma nth_encoded:
  assumes "8 \<le> length out" "k < length out"
  shows "le_write list_update 4 4 v out ! k =
    (if 4 \<le> k \<and> k < 8 then le_byte v (k - 4) else out ! k)"
  using assms by (subst buf.rd_le_write) auto

lemma nth_encoded_low:
  "8 \<le> length out \<Longrightarrow> k < 4 \<Longrightarrow> le_write list_update 4 4 v out ! k = out ! k"
  by (simp add: nth_encoded)

lemma le_read_encoded:
  assumes "8 \<le> length out"
  shows "le_read ((!) (le_write list_update 4 4 v out)) 4 4 = (v :: u32)"
  using assms by (subst buf.le_read_le_write) simp_all

lemma instruction_decode_of_encode:
  assumes "instruction_encode (Some out) n (Some ins) = Some out'" "8 \<le> length out"
    and "8 \<le> m"
  shows "instruction_decode (Some old) (Some out') m = Some ins"
proof -
  from assms(1) have c: "unat (ins_opcode ins) < 56" "unat (ins_condition ins) < 17"
    and o: "out' = le_write list_update 4 4 (immediate ins)
      (out[0 := ucast (ins_opcode ins), 1 := ucast (ins_condition ins),
           2 := register1 ins, 3 := register2 ins])"
    by (auto simp: codec_defs OPCODE_TOTAL_def C_TOTAL_def split: if_splits)
  have "le_read ((!) out') 4 4 = immediate ins"
    using assms(2) o by (simp add: le_read_encoded)
  moreover have "out \<noteq> []" using assms(2) by auto
  ultimately show ?thesis
    using c assms(2,3) o by (cases ins) (simp add: codec_defs nth_encoded_low nth_list_update)
qed

text \<open>C40: decoding what \<^verbatim>\<open>instruction_encode\<close> wrote gives the instruction back, and the bytes of the
  output after the first eight are untouched.\<close>

theorem instruction_encode_decode:
  assumes "instruction_encode (Some out) n (Some ins) = Some out'" "8 \<le> length out"
    and "8 \<le> m"
  shows "instruction_decode (Some old) (Some out') m = Some ins \<and> drop 8 out' = drop 8 out"
proof -
  have "out' = le_write list_update 4 4 (immediate ins)
      (out[0 := ucast (ins_opcode ins), 1 := ucast (ins_condition ins),
           2 := register1 ins, 3 := register2 ins])"
    using assms(1) by (auto simp: codec_defs split: if_splits)
  then have "drop 8 out' = drop 8 out"
    using assms(2) by (intro nth_equalityI) (auto simp: nth_encoded)
  then show ?thesis using instruction_decode_of_encode [OF assms] by simp
qed

theorem instruction_encode_decode_witness:
  "instruction_decode (Some undefined)
     (instruction_encode (Some (replicate 8 0)) 8
       (Some \<lparr>ins_opcode = 7, ins_condition = 1, register1 = 10, register2 = 11,
              immediate = 0x12345678\<rparr>)) 8 =
     Some \<lparr>ins_opcode = 7, ins_condition = 1, register1 = 10, register2 = 11,
           immediate = 0x12345678\<rparr>"
proof -
  let ?i = "\<lparr>ins_opcode = 7, ins_condition = 1, register1 = 10, register2 = 11,
              immediate = 0x12345678\<rparr>"
  obtain out' where "instruction_encode (Some (replicate 8 0)) 8 (Some ?i) = Some out'"
    by (simp add: codec_defs OPCODE_TOTAL_def C_TOTAL_def)
  then show ?thesis using instruction_encode_decode [of "replicate 8 0" 8 ?i out' 8] by simp
qed

text \<open>The byte sequence that the ISA document gives as its example.\<close>

lemma instruction_encode_example:
  "instruction_encode (Some (replicate 8 0)) 8
     (Some \<lparr>ins_opcode = 7, ins_condition = 1, register1 = 10, register2 = 11,
            immediate = 0x12345678\<rparr>) =
   Some [0x07, 0x01, 0x0a, 0x0b, 0x78, 0x56, 0x34, 0x12]"
  by code_simp

text \<open>Encoding what \<^verbatim>\<open>instruction_decode\<close> read reproduces the eight bytes, for every input whose
  opcode and condition bytes are defined; any other input is refused by the encoder.\<close>

theorem instruction_decode_encode:
  assumes "length inp = 8" "instruction_decode (Some old) (Some inp) 8 = Some ins"
    and "length out = 8"
  shows "instruction_encode (Some out) 8 (Some ins) =
    (if unat (inp ! 0) < OPCODE_TOTAL \<and> unat (inp ! 1) < C_TOTAL then Some inp else None)"
proof -
  from assms(2) have i: "ins = \<lparr>ins_opcode = ucast (inp ! 0), ins_condition = ucast (inp ! 1),
      register1 = inp ! 2, register2 = inp ! 3, immediate = le_read ((!) inp) 4 4\<rparr>"
    by (auto simp: codec_defs)
  have "le_write list_update 4 4 (le_read ((!) inp) 4 4 :: u32)
      (out[0 := inp ! 0, 1 := inp ! 1, 2 := inp ! 2, 3 := inp ! 3]) = inp"
  proof (intro nth_equalityI)
    fix k assume "k < length (le_write list_update 4 4 (le_read ((!) inp) 4 4 :: u32)
      (out[0 := inp ! 0, 1 := inp ! 1, 2 := inp ! 2, 3 := inp ! 3]))"
    then have k: "k < 8" using assms(3) by simp
    consider "k = 0" | "k = 1" | "k = 2" | "k = 3" | "4 \<le> k" by linarith
    then show "le_write list_update 4 4 (le_read ((!) inp) 4 4 :: u32)
        (out[0 := inp ! 0, 1 := inp ! 1, 2 := inp ! 2, 3 := inp ! 3]) ! k = inp ! k"
      using assms(1,3) k
      by cases (simp_all add: nth_encoded nth_encoded_low nth_list_update le_byte_le_read)
  qed (use assms in simp)
  then show ?thesis
    by (auto simp: codec_defs i OPCODE_TOTAL_def C_TOTAL_def)
qed

end
