(* ===== verification/Alu.thy ===== *)
theory Alu
  imports Prelude
begin

text \<open>
  The arithmetic unit of \<^verbatim>\<open>include/ALU.h\<close> and \<^verbatim>\<open>emulator/src/ALU.c\<close>: its operation codes, its
  state, the computation and the flags. The lemmas relate the flags to the mathematical result:
  carry and overflow are exactly unrepresentability, and the flags of a subtraction decide the
  unsigned and the signed order.
\<close>

section \<open>Operations\<close>

datatype (plugins only: code size) operation =
    OP_NOOP | OP_ID | OP_ADD | OP_SUB | OP_MUL | OP_DIV | OP_MOD | OP_NOT | OP_AND | OP_OR |
    OP_XOR | OP_NAND | OP_NOR | OP_INC | OP_DEC | OP_SADD | OP_SSUB | OP_SMUL | OP_SDIV |
    OP_SMOD | OP_TOTAL

fun operation_code :: "operation \<Rightarrow> nat" where
  "operation_code OP_NOOP = 0"
| "operation_code OP_ID = 1"
| "operation_code OP_ADD = 2"
| "operation_code OP_SUB = 3"
| "operation_code OP_MUL = 4"
| "operation_code OP_DIV = 5"
| "operation_code OP_MOD = 6"
| "operation_code OP_NOT = 7"
| "operation_code OP_AND = 8"
| "operation_code OP_OR = 9"
| "operation_code OP_XOR = 10"
| "operation_code OP_NAND = 11"
| "operation_code OP_NOR = 12"
| "operation_code OP_INC = 13"
| "operation_code OP_DEC = 14"
| "operation_code OP_SADD = 15"
| "operation_code OP_SSUB = 16"
| "operation_code OP_SMUL = 17"
| "operation_code OP_SDIV = 18"
| "operation_code OP_SMOD = 19"
| "operation_code OP_TOTAL = 20"

lemma operation_code_inj: "operation_code a = operation_code b \<Longrightarrow> a = b"
  by (cases a; cases b) simp_all

text \<open>Enumerators compare as their numbers, as in \<^verbatim>\<open>alu->op_ >= OP_SADD && alu->op_ <= OP_SMOD\<close>.\<close>

instantiation operation :: linorder
begin

definition less_eq_operation :: "operation \<Rightarrow> operation \<Rightarrow> bool" where
  "less_eq_operation a b \<longleftrightarrow> operation_code a \<le> operation_code b"

definition less_operation :: "operation \<Rightarrow> operation \<Rightarrow> bool" where
  "less_operation a b \<longleftrightarrow> operation_code a < operation_code b"

instance
  by standard (auto simp: less_eq_operation_def less_operation_def operation_code_inj)

end

section \<open>State\<close>

record alu_flags =
  flag_N :: bool
  flag_Z :: bool
  flag_V :: bool
  flag_C :: bool
  flag_S :: bool

record alu =
  alu_left :: u32
  alu_right :: u32
  alu_res :: u64
  alu_op :: operation
  alu_fl :: alu_flags

definition no_flags :: alu_flags where
  "no_flags = \<lparr>flag_N = False, flag_Z = False, flag_V = False, flag_C = False, flag_S = False\<rparr>"

definition alu_reset :: "alu \<Rightarrow> alu" where
  "alu_reset a = \<lparr>alu_left = 0, alu_right = 0, alu_res = 0, alu_op = OP_NOOP, alu_fl = no_flags\<rparr>"

section \<open>Flags\<close>

text \<open>\<^verbatim>\<open>(sdword)(sword)left\<close> is \<^term>\<open>sint\<close>; the 64-bit sums and products of two such values do not
  overflow, so they are integers here.\<close>

definition out_of_sword :: "int \<Rightarrow> bool" where
  "out_of_sword r \<longleftrightarrow> r < SWORD_MIN \<or> r > SWORD_MAX"

definition alu_set_signed_flags :: "alu \<Rightarrow> alu" where
  "alu_set_signed_flags a =
     (let left = sint (alu_left a); right = sint (alu_right a);
          f = (alu_fl a)\<lparr>flag_S := True\<rparr>
      in a\<lparr>alu_fl :=
        (case alu_op a of
           OP_SADD \<Rightarrow> f\<lparr>flag_V := out_of_sword (left + right)\<rparr>
         | OP_SSUB \<Rightarrow> f\<lparr>flag_V := out_of_sword (left - right)\<rparr>
         | OP_SMUL \<Rightarrow> f\<lparr>flag_V := out_of_sword (left * right)\<rparr>
         | OP_SDIV \<Rightarrow> f\<lparr>flag_V := (left = SWORD_MIN \<and> right = -1)\<rparr>
         | OP_SMOD \<Rightarrow> f
         | _ \<Rightarrow> f)\<rparr>)"

definition alu_set_unsigned_flags :: "alu \<Rightarrow> alu" where
  "alu_set_unsigned_flags a =
     (let left = unat (alu_left a); right = unat (alu_right a); f = alu_fl a
      in a\<lparr>alu_fl :=
        (case alu_op a of
           OP_ADD \<Rightarrow> f\<lparr>flag_C := (left + right > WORD_MAX)\<rparr>
         | OP_SUB \<Rightarrow> f\<lparr>flag_C := (left \<ge> right)\<rparr>
         | OP_MUL \<Rightarrow> f\<lparr>flag_C := (left * right > WORD_MAX)\<rparr>
         | OP_INC \<Rightarrow> f\<lparr>flag_C := (left = WORD_MAX)\<rparr>
         | OP_DEC \<Rightarrow> f\<lparr>flag_C := (left \<ge> 1)\<rparr>
         | _ \<Rightarrow> f)\<rparr>)"

definition alu_setFlags :: "alu \<Rightarrow> alu" where
  "alu_setFlags a =
     (let a = a\<lparr>alu_fl := no_flags\<lparr>flag_Z := ((ucast (alu_res a) :: u32) = 0),
                                   flag_N := (sint (ucast (alu_res a) :: u32) < 0)\<rparr>\<rparr>
      in if alu_op a \<ge> OP_SADD \<and> alu_op a \<le> OP_SMOD
         then alu_set_signed_flags a else alu_set_unsigned_flags a)"

section \<open>Computation\<close>

text \<open>
  The 32-bit value each case of the switch stores, \<^term>\<open>None\<close> where the switch falls to its
  \<^verbatim>\<open>default: return\<close>. C's \<^verbatim>\<open>/\<close> and \<^verbatim>\<open>%\<close> on signed operands truncate: \<^verbatim>\<open>sdiv\<close> and \<^verbatim>\<open>smod\<close> of
  \<^verbatim>\<open>Signed_Division\<close>.
\<close>

fun alu_result :: "operation \<Rightarrow> u32 \<Rightarrow> u32 \<Rightarrow> u32 option" where
  "alu_result OP_ID l r = Some l"
| "alu_result OP_ADD l r = Some (l + r)"
| "alu_result OP_SUB l r = Some (l - r)"
| "alu_result OP_MUL l r = Some (l * r)"
| "alu_result OP_DIV l r = Some (l div r)"
| "alu_result OP_MOD l r = Some (l mod r)"
| "alu_result OP_NOT l r = Some (NOT l)"
| "alu_result OP_AND l r = Some (l AND r)"
| "alu_result OP_OR l r = Some (l OR r)"
| "alu_result OP_XOR l r = Some (l XOR r)"
| "alu_result OP_NAND l r = Some (NOT (l AND r))"
| "alu_result OP_NOR l r = Some (NOT (l OR r))"
| "alu_result OP_INC l r = Some (l + 1)"
| "alu_result OP_DEC l r = Some (l - 1)"
| "alu_result OP_SADD l r = Some (word_of_int (sint l + sint r))"
| "alu_result OP_SSUB l r = Some (word_of_int (sint l - sint r))"
| "alu_result OP_SMUL l r = Some (word_of_int (sint l * sint r))"
| "alu_result OP_SDIV l r = Some (word_of_int (sint l sdiv sint r))"
| "alu_result OP_SMOD l r = Some (word_of_int (sint l smod sint r))"
| "alu_result OP_NOOP l r = None"
| "alu_result OP_TOTAL l r = None"

definition is_division :: "operation \<Rightarrow> bool" where
  "is_division op \<longleftrightarrow> op = OP_DIV \<or> op = OP_MOD \<or> op = OP_SDIV \<or> op = OP_SMOD"

definition alu_compute :: "alu \<Rightarrow> alu" where
  "alu_compute a =
     (let a = a\<lparr>alu_fl := no_flags\<rparr>
      in if is_division (alu_op a) \<and> alu_right a = 0 then a\<lparr>alu_res := 0\<rparr>
         else (case alu_result (alu_op a) (alu_left a) (alu_right a) of
                 None \<Rightarrow> a
               | Some r \<Rightarrow> alu_setFlags (a\<lparr>alu_res := ucast r\<rparr>)))"

section \<open>Flags and the mathematical result\<close>

text \<open>The value of the result as the instruction writes it to a register.\<close>

definition alu_word :: "alu \<Rightarrow> u32" where
  "alu_word a = ucast (alu_res a)"

lemma ucast_u64_u32 [simp]: "ucast (ucast (w :: u32) :: u64) = w"
  by (rule bit_word_eqI) (auto simp: bit_simps)

text \<open>What the signed operations compute on integers; C's division truncates.\<close>

fun signed_result :: "operation \<Rightarrow> int \<Rightarrow> int \<Rightarrow> int" where
  "signed_result OP_SADD l r = l + r"
| "signed_result OP_SSUB l r = l - r"
| "signed_result OP_SMUL l r = l * r"
| "signed_result OP_SDIV l r = l sdiv r"
| "signed_result OP_SMOD l r = l smod r"
| "signed_result _ l r = 0"

fun unsigned_result :: "operation \<Rightarrow> int \<Rightarrow> int \<Rightarrow> int" where
  "unsigned_result OP_ADD l r = l + r"
| "unsigned_result OP_SUB l r = l - r"
| "unsigned_result OP_MUL l r = l * r"
| "unsigned_result OP_INC l r = l + 1"
| "unsigned_result OP_DEC l r = l - 1"
| "unsigned_result _ l r = 0"

lemma sint_word_of_int_u32: "sint (word_of_int x :: u32) = x \<longleftrightarrow> \<not> out_of_sword x"
  by (auto simp: signed_of_int out_of_sword_def limits signed_take_bit_int_eq_self_iff)

lemma sint_u32_bounds: "SWORD_MIN \<le> sint (w :: u32)" "sint w \<le> SWORD_MAX"
  using sint_range_size [of w] by (simp_all add: limits size_word_def)

lemma mod_abs_nonneg: "0 \<le> k \<Longrightarrow> 0 \<le> k mod \<bar>l\<bar>" for k l :: int
  by (cases "l = 0") auto

lemma smod_cases:
  "0 \<le> k \<Longrightarrow> 0 \<le> k smod l \<and> k smod l \<le> k"
  "k \<le> 0 \<Longrightarrow> k \<le> k smod l \<and> k smod l \<le> 0" for k l :: int
  using mod_abs_nonneg [of k l] mod_abs_nonneg [of "- k" l]
    zmod_le_nonneg_dividend [of k "\<bar>l\<bar>"] zmod_le_nonneg_dividend [of "- k" "\<bar>l\<bar>"]
  by (auto simp: signed_modulo_int_def sgn_if)

lemma smod_in_range: "\<not> out_of_sword k \<Longrightarrow> \<not> out_of_sword (k smod l)"
  using smod_cases [of k l] by (cases "0 \<le> k") (auto simp: out_of_sword_def limits)

lemma sdiv_out_of_range:
  assumes "\<not> out_of_sword k"
  shows "out_of_sword (k sdiv l) \<longleftrightarrow> k = SWORD_MIN \<and> l = - 1"
proof
  assume out: "out_of_sword (k sdiv l)"
  have "\<bar>k sdiv l\<bar> \<le> \<bar>k\<bar>"
    using sdiv_int_range [of k l] by auto
  then have "k sdiv l = 2 ^ 31" "k = - (2 ^ 31)"
    using assms out unfolding out_of_sword_def limits by linarith+
  then show "k = SWORD_MIN \<and> l = - 1"
    using int_sdiv_negated_is_minus1 [of k l] by (simp add: limits)
next
  assume "k = SWORD_MIN \<and> l = - 1"
  then show "out_of_sword (k sdiv l)"
    by (simp add: out_of_sword_def limits)
qed

lemma sint_in_range: "\<not> out_of_sword (sint (w :: u32))"
  using sint_u32_bounds [of w] by (simp add: out_of_sword_def)

lemma sint_arith:
  "sint (l + r) = sint l + sint r \<longleftrightarrow> \<not> out_of_sword (sint l + sint r)"
  "sint (l - r) = sint l - sint r \<longleftrightarrow> \<not> out_of_sword (sint l - sint r)"
  "sint (l * r) = sint l * sint r \<longleftrightarrow> \<not> out_of_sword (sint l * sint r)"
  "sint (word_of_int (sint l sdiv sint r) :: u32) = sint l sdiv sint r \<longleftrightarrow>
     \<not> (sint l = SWORD_MIN \<and> sint r = - 1)"
  "sint (word_of_int (sint l smod sint r) :: u32) = sint l smod sint r"
  for l r :: u32
  using sint_word_of_int_u32 [of "sint l + sint r"] sint_word_of_int_u32 [of "sint l - sint r"]
    sint_word_of_int_u32 [of "sint l * sint r"] sint_word_of_int_u32 [of "sint l sdiv sint r"]
    sint_word_of_int_u32 [of "sint l smod sint r"]
  by (simp_all add: sdiv_out_of_range smod_in_range sint_in_range)

section \<open>What a computation leaves\<close>

lemmas alu_eval = alu_compute_def alu_word_def is_division_def alu_setFlags_def alu_set_signed_flags_def
  alu_set_unsigned_flags_def less_eq_operation_def no_flags_def Let_def

definition signed_ops :: "operation set" where
  "signed_ops = {OP_SADD, OP_SSUB, OP_SMUL, OP_SDIV, OP_SMOD}"

text \<open>C38: after a signed operation (with a nonzero divisor for division and modulo) the result
  word read as a signed integer is the mathematical result exactly when the overflow flag is clear;
  the S flag is set and C is clear.\<close>

theorem alu_signed_overflow_exact:
  assumes "alu_op a \<in> signed_ops" and "is_division (alu_op a) \<Longrightarrow> alu_right a \<noteq> 0"
  shows "(flag_V (alu_fl (alu_compute a)) \<longleftrightarrow>
      sint (alu_word (alu_compute a)) \<noteq>
        signed_result (alu_op a) (sint (alu_left a)) (sint (alu_right a))) \<and>
    flag_S (alu_fl (alu_compute a)) \<and> \<not> flag_C (alu_fl (alu_compute a))"
  using assms
  by (auto simp: signed_ops_def alu_eval sint_arith) (simp add: limits)

definition unsigned_ops :: "operation set" where
  "unsigned_ops = {OP_ADD, OP_SUB, OP_MUL, OP_INC, OP_DEC}"

lemma uint_nat_id: "int (unat w) = uint w" for w :: u32
  by simp

lemma uint_arith_exact:
  "uint (l + r) = uint l + uint r \<longleftrightarrow> unat l + unat r \<le> WORD_MAX"
  "uint (l - r) = uint l - uint r \<longleftrightarrow> unat r \<le> unat l"
  "uint (l * r) = uint l * uint r \<longleftrightarrow> unat l * unat r \<le> WORD_MAX"
  "uint (l + 1) = uint l + 1 \<longleftrightarrow> unat l \<noteq> WORD_MAX"
  "uint (l - 1) = uint l - 1 \<longleftrightarrow> 1 \<le> unat l"
  for l r :: u32
proof -
  have less: "int m < 4294967296 \<longleftrightarrow> m \<le> WORD_MAX" for m
    by (auto simp: limits)
  show "uint (l + r) = uint l + uint r \<longleftrightarrow> unat l + unat r \<le> WORD_MAX"
    using uint_add_lem [of l r] less [of "unat l + unat r"] by simp
  show "uint (l * r) = uint l * uint r \<longleftrightarrow> unat l * unat r \<le> WORD_MAX"
    using uint_mult_lem [of l r] less [of "unat l * unat r"] by simp
  show "uint (l - r) = uint l - uint r \<longleftrightarrow> unat r \<le> unat l"
    using uint_sub_lem [of r l] by (simp add: word_le_nat_alt flip: word_le_def)
  show "uint (l + 1) = uint l + 1 \<longleftrightarrow> unat l \<noteq> WORD_MAX"
    using uint_add_lem [of l 1] less [of "unat l + 1"] unat_u32_le [of l] by (simp add: le_less) linarith
  have "1 \<le> uint l \<longleftrightarrow> 1 \<le> unat l"
    using uint_nat_id [of l] by presburger
  then show "uint (l - 1) = uint l - 1 \<longleftrightarrow> 1 \<le> unat l"
    using uint_sub_lem [of 1 l] by simp
qed

text \<open>C39: after an unsigned operation the carry flag says exactly whether the result word is the
  mathematical result: set on overflow of an addition, multiplication or increment, and clear on
  the borrow of a subtraction or decrement. S and V are clear.\<close>

theorem alu_carry_exact:
  assumes "alu_op a \<in> unsigned_ops"
  shows "(uint (alu_word (alu_compute a)) =
        unsigned_result (alu_op a) (uint (alu_left a)) (uint (alu_right a)) \<longleftrightarrow>
      flag_C (alu_fl (alu_compute a)) = (alu_op a = OP_SUB \<or> alu_op a = OP_DEC)) \<and>
    \<not> flag_S (alu_fl (alu_compute a)) \<and> \<not> flag_V (alu_fl (alu_compute a))"
  using assms by (auto simp: unsigned_ops_def alu_eval uint_arith_exact)

text \<open>The flags of a subtraction decide the order of its operands.\<close>

lemma sub_flags_unsigned:
  assumes "alu_op a = OP_SUB"
  shows "flag_Z (alu_fl (alu_compute a)) \<longleftrightarrow> alu_left a = alu_right a"
    and "flag_C (alu_fl (alu_compute a)) \<longleftrightarrow> alu_right a \<le> alu_left a"
  using assms by (simp_all add: alu_eval word_le_nat_alt)

lemma signed_diff_sign:
  fixes d :: int
  assumes "- (2 ^ 32) < d" "d < 2 ^ 32"
  shows "(signed_take_bit 31 d < 0) \<noteq> (d < - (2 ^ 31) \<or> d > 2 ^ 31 - 1) \<longleftrightarrow> d < 0"
proof -
  have e: "signed_take_bit 31 d = (d + 2 ^ 31) mod 2 ^ 32 - 2 ^ 31"
    by (simp add: signed_take_bit_eq_take_bit_shift take_bit_eq_mod)
  consider "d < - (2 ^ 31)" | "- (2 ^ 31) \<le> d \<and> d \<le> 2 ^ 31 - 1" | "2 ^ 31 \<le> d" by linarith
  then show ?thesis
  proof cases
    case 1
    have "(d + 2 ^ 31) mod 2 ^ 32 = (d + 2 ^ 31 + 2 ^ 32) mod 2 ^ 32"
      by (rule mod_add_self2 [symmetric])
    also have "\<dots> = d + 2 ^ 31 + 2 ^ 32"
      using 1 assms by (intro mod_pos_pos_trivial) simp_all
    finally have "(d + 2 ^ 31) mod 2 ^ 32 = d + 2 ^ 31 + 2 ^ 32" .
    then show ?thesis using 1 assms e by auto
  next
    case 2
    then have "(d + 2 ^ 31) mod 2 ^ 32 = d + 2 ^ 31"
      by (intro mod_pos_pos_trivial) simp_all
    then show ?thesis using 2 e by auto
  next
    case 3
    have "(d + 2 ^ 31) mod 2 ^ 32 = (d + 2 ^ 31 - 2 ^ 32) mod 2 ^ 32"
      by (rule minus_mod_self2 [symmetric])
    also have "\<dots> = d + 2 ^ 31 - 2 ^ 32"
      using 3 assms by (intro mod_pos_pos_trivial) simp_all
    finally have "(d + 2 ^ 31) mod 2 ^ 32 = d + 2 ^ 31 - 2 ^ 32" .
    then show ?thesis using 3 assms e by auto
  qed
qed

lemma sint_sub_take_bit: "sint (l - r) = signed_take_bit 31 (sint l - sint r)" for l r :: u32
proof -
  have "sint (word_of_int (sint l - sint r) :: u32) = signed_take_bit 31 (sint l - sint r)"
    by (simp only: sint_sbintrunc' len_num1 len_bit0 len_bit1) simp
  then show ?thesis by simp
qed

lemma sub_flags_signed:
  assumes "alu_op a = OP_SSUB"
  shows "flag_Z (alu_fl (alu_compute a)) \<longleftrightarrow> alu_left a = alu_right a"
    and "flag_N (alu_fl (alu_compute a)) \<noteq> flag_V (alu_fl (alu_compute a)) \<longleftrightarrow>
      sint (alu_left a) < sint (alu_right a)"
proof -
  let ?d = "sint (alu_left a) - sint (alu_right a)"
  show "flag_Z (alu_fl (alu_compute a)) \<longleftrightarrow> alu_left a = alu_right a"
    using assms by (simp add: alu_eval)
  have "- (2 ^ 32) < ?d" "?d < 2 ^ 32"
    using sint_u32_bounds [of "alu_left a"] sint_u32_bounds [of "alu_right a"]
    by (simp_all add: limits)
  note sign = signed_diff_sign [OF this]
  have "sint (alu_left a - alu_right a) = signed_take_bit 31 ?d"
    by (simp add: sint_sub_take_bit)
  then show "flag_N (alu_fl (alu_compute a)) \<noteq> flag_V (alu_fl (alu_compute a)) \<longleftrightarrow>
      sint (alu_left a) < sint (alu_right a)"
    using sign assms by (simp add: alu_eval out_of_sword_def limits)
qed

end
