(* ===== verification/Machine.thy ===== *)
theory Machine
  imports Isa Alu
begin

text \<open>
  The state of the emulator (\<^verbatim>\<open>include/VirtualMachine.h\<close>, \<^verbatim>\<open>include/CPSR.h\<close>, \<^verbatim>\<open>include/State.h\<close>)
  and its memory operations (the second half of \<^verbatim>\<open>emulator/src/VirtualMachineInternal.c\<close>):
  execution states, address validation, byte and scalar access. The lemmas show that the first
  error sticks, that an access inside the address space changes at most the bytes it names, and
  that the memory meets the contract \<open>byte_store\<close>.
\<close>

section \<open>Execution states\<close>

datatype (plugins only: code size) state =
    S_HALTED | S_NORMAL | S_ERR_BEGIN | S_ERR_OUT_OF_MEMORY | S_ERR_STACK_OVERFLOW |
    S_ERR_STACK_UNDERFLOW | S_ERR_DIVISION_BY_ZERO | S_ERR_INVALID_CONDITION |
    S_ERR_INVALID_OPCODE | S_ERR_END | S_TOTAL

fun state_code :: "state \<Rightarrow> nat" where
  "state_code S_HALTED = 0"
| "state_code S_NORMAL = 1"
| "state_code S_ERR_BEGIN = 2"
| "state_code S_ERR_OUT_OF_MEMORY = 3"
| "state_code S_ERR_STACK_OVERFLOW = 4"
| "state_code S_ERR_STACK_UNDERFLOW = 5"
| "state_code S_ERR_DIVISION_BY_ZERO = 6"
| "state_code S_ERR_INVALID_CONDITION = 7"
| "state_code S_ERR_INVALID_OPCODE = 8"
| "state_code S_ERR_END = 9"
| "state_code S_TOTAL = 10"

lemma state_code_inj: "state_code a = state_code b \<Longrightarrow> a = b"
  by (cases a; cases b) simp_all

instantiation state :: linorder
begin

definition less_eq_state :: "state \<Rightarrow> state \<Rightarrow> bool" where
  "less_eq_state a b \<longleftrightarrow> state_code a \<le> state_code b"

definition less_state :: "state \<Rightarrow> state \<Rightarrow> bool" where
  "less_state a b \<longleftrightarrow> state_code a < state_code b"

instance
  by standard (auto simp: less_eq_state_def less_state_def state_code_inj)

end

definition is_error :: "state \<Rightarrow> bool" where
  "is_error s \<longleftrightarrow> s \<ge> S_ERR_BEGIN \<and> s \<le> S_ERR_END"

section \<open>The machine\<close>

record cpsr =
  cpsr_N :: bool
  cpsr_Z :: bool
  cpsr_C :: bool
  cpsr_V :: bool
  cpsr_S :: bool
  cpsr_ST :: state

definition ZLVM_ROM_SIZE :: nat where
  "ZLVM_ROM_SIZE = 4096"

definition ZLVM_STACK_SIZE :: u32 where
  "ZLVM_STACK_SIZE = 256"

definition ZLVM_REGISTER_COUNT :: nat where
  "ZLVM_REGISTER_COUNT = R_TOTAL"

definition ZLVM_WORD_SIZE :: u32 where
  "ZLVM_WORD_SIZE = 4"

named_theorems vm_sizes \<open>the constants of VirtualMachine.h, unfolded\<close>

declare ZLVM_ROM_SIZE_def [vm_sizes] ZLVM_STACK_SIZE_def [vm_sizes]
  ZLVM_REGISTER_COUNT_def [vm_sizes] R_TOTAL_def [vm_sizes] ZLVM_WORD_SIZE_def [vm_sizes]

text \<open>\<^verbatim>\<open>struct VirtualMachine\<close>; the last two fields are the host's standard streams, which the
  \<^verbatim>\<open>INT\<close> services read and write: the bytes still to be read and the bytes written so far.\<close>

record vm =
  vm_cpsr :: cpsr
  vm_alu :: alu
  vm_registers :: "u32 list"
  vm_rom :: "u8 list"
  vm_memory :: "u8 list"
  vm_memorySize :: nat
  vm_entryPoint :: u32
  vm_stdin :: "u8 list"
  vm_stdout :: "u8 list"

abbreviation reg :: "vm \<Rightarrow> register \<Rightarrow> u32" where
  "reg vm r \<equiv> vm_registers vm ! register_index r"

definition set_register :: "nat \<Rightarrow> u32 \<Rightarrow> vm \<Rightarrow> vm" where
  "set_register n v vm = vm\<lparr>vm_registers := (vm_registers vm)[n := v]\<rparr>"

abbreviation set_reg :: "register \<Rightarrow> u32 \<Rightarrow> vm \<Rightarrow> vm" where
  "set_reg r v vm \<equiv> set_register (register_index r) v vm"

section \<open>Execution state\<close>

definition vm_has_no_error :: "vm \<Rightarrow> bool" where
  "vm_has_no_error vm \<longleftrightarrow> \<not> is_error (cpsr_ST (vm_cpsr vm))"

definition vm_has_state :: "vm \<Rightarrow> state \<Rightarrow> bool" where
  "vm_has_state vm s \<longleftrightarrow> cpsr_ST (vm_cpsr vm) = s"

definition vm_set_state :: "state \<Rightarrow> vm \<Rightarrow> vm" where
  "vm_set_state s vm =
     (if vm_has_no_error vm then vm\<lparr>vm_cpsr := (vm_cpsr vm)\<lparr>cpsr_ST := s\<rparr>\<rparr> else vm)"

definition vm_get_state :: "vm \<Rightarrow> state" where
  "vm_get_state vm = cpsr_ST (vm_cpsr vm)"

section \<open>Memory\<close>

text \<open>\<^verbatim>\<open>vm_validate_range\<close> sets the out-of-memory state and answers false outside the address space;
  the result is the machine and the answer.\<close>

definition vm_validate_range :: "vm \<Rightarrow> nat \<Rightarrow> nat \<Rightarrow> vm \<times> bool" where
  "vm_validate_range vm address sz =
     (if vm_memorySize vm > SIZE_T_MAX - ZLVM_ROM_SIZE
      then (vm_set_state S_ERR_OUT_OF_MEMORY vm, False)
      else let memory_end = ZLVM_ROM_SIZE + vm_memorySize vm
           in if sz > memory_end \<or> address > memory_end - sz
              then (vm_set_state S_ERR_OUT_OF_MEMORY vm, False)
              else (vm, True))"

definition vm_read_byte :: "vm \<Rightarrow> nat \<Rightarrow> vm \<times> u8" where
  "vm_read_byte vm address =
     (let (vm, ok) = vm_validate_range vm address 1
      in if \<not> ok then (vm, 0)
         else if address \<ge> ZLVM_ROM_SIZE then (vm, vm_memory vm ! (address - ZLVM_ROM_SIZE))
         else (vm, vm_rom vm ! address))"

definition vm_write_byte :: "vm \<Rightarrow> nat \<Rightarrow> u8 \<Rightarrow> vm" where
  "vm_write_byte vm address value =
     (let (vm, ok) = vm_validate_range vm address 1
      in if \<not> ok then vm
         else if address \<ge> ZLVM_ROM_SIZE
         then vm\<lparr>vm_memory := (vm_memory vm)[address - ZLVM_ROM_SIZE := value]\<rparr>
         else vm\<lparr>vm_rom := (vm_rom vm)[address := value]\<rparr>)"

definition vm_read_scalar :: "vm \<Rightarrow> nat \<Rightarrow> nat \<Rightarrow> vm \<times> u64" where
  "vm_read_scalar vm address sz =
     (let (vm, ok) = vm_validate_range vm address sz
      in if \<not> ok then (vm, 0)
         else foldl (\<lambda>(vm, result) index.
                let (vm, b) = vm_read_byte vm (address + index)
                in (vm, result OR push_bit (index * 8) (ucast b))) (vm, 0) [0..<sz])"

definition vm_write_scalar :: "vm \<Rightarrow> nat \<Rightarrow> u64 \<Rightarrow> nat \<Rightarrow> vm" where
  "vm_write_scalar vm address value sz =
     (let (vm, ok) = vm_validate_range vm address sz
      in if \<not> ok then vm else le_write vm_write_byte sz address value vm)"

definition vm_read_hword :: "vm \<Rightarrow> nat \<Rightarrow> vm \<times> u16" where
  "vm_read_hword vm address = (let (vm, r) = vm_read_scalar vm address 2 in (vm, ucast r))"

definition vm_write_hword :: "vm \<Rightarrow> nat \<Rightarrow> u16 \<Rightarrow> vm" where
  "vm_write_hword vm address value = vm_write_scalar vm address (ucast value) 2"

definition vm_read_word :: "vm \<Rightarrow> nat \<Rightarrow> vm \<times> u32" where
  "vm_read_word vm address = (let (vm, r) = vm_read_scalar vm address 4 in (vm, ucast r))"

definition vm_write_word :: "vm \<Rightarrow> nat \<Rightarrow> u32 \<Rightarrow> vm" where
  "vm_write_word vm address value = vm_write_scalar vm address (ucast value) 4"

definition vm_read_dword :: "vm \<Rightarrow> nat \<Rightarrow> vm \<times> u64" where
  "vm_read_dword vm address = vm_read_scalar vm address 8"

definition vm_write_dword :: "vm \<Rightarrow> nat \<Rightarrow> u64 \<Rightarrow> vm" where
  "vm_write_dword vm address value = vm_write_scalar vm address value 8"

text \<open>\<^verbatim>\<open>vm_effective_address\<close>: the sum is a 64-bit \<^verbatim>\<open>dword\<close>, so two words never wrap in it.\<close>

definition vm_effective_address :: "vm \<Rightarrow> u32 \<Rightarrow> u32 \<Rightarrow> nat \<Rightarrow> vm \<times> nat option" where
  "vm_effective_address vm base offset sz =
     (let result = unat base + unat offset
      in if result > SIZE_T_MAX then (vm_set_state S_ERR_OUT_OF_MEMORY vm, None)
         else let (vm, ok) = vm_validate_range vm result sz
              in if \<not> ok then (vm_set_state S_ERR_OUT_OF_MEMORY vm, None)
                 else (vm, Some result))"

section \<open>Creation and destruction\<close>

text \<open>
  \<^verbatim>\<open>vm_initialize\<close> sets every field of the machine; the host streams are not the machine's and
  stay. \<open>can_alloc n\<close> says whether the C allocator grants \<open>n\<close> bytes; when it does not,
  \<^verbatim>\<open>vm_calloc\<close> ends the process, which is \<^term>\<open>None\<close>.
\<close>

definition vm_calloc :: "(nat \<Rightarrow> bool) \<Rightarrow> nat \<Rightarrow> nat \<Rightarrow> u8 list option" where
  "vm_calloc can_alloc count sz =
     (let n = (if count = 0 then 1 else count) * (if sz = 0 then 1 else sz)
      in if can_alloc n then Some (replicate n 0) else None)"

definition cpsr_zero :: cpsr where
  "cpsr_zero = \<lparr>cpsr_N = False, cpsr_Z = False, cpsr_C = False, cpsr_V = False, cpsr_S = False,
     cpsr_ST = S_HALTED\<rparr>"

definition vm_initialize :: "(nat \<Rightarrow> bool) \<Rightarrow> vm \<Rightarrow> nat \<Rightarrow> vm option" where
  "vm_initialize can_alloc vm ram_size =
     (case vm_calloc can_alloc ram_size 1 of
        None \<Rightarrow> None
      | Some m \<Rightarrow> Some (vm_set_state S_NORMAL
          (vm\<lparr>vm_registers := replicate ZLVM_REGISTER_COUNT 0,
              vm_rom := replicate ZLVM_ROM_SIZE 0,
              vm_memorySize := ram_size,
              vm_entryPoint := 0,
              vm_memory := m,
              vm_cpsr := cpsr_zero,
              vm_alu := alu_reset (vm_alu vm)\<rparr>)))"

definition vm_destroy :: "vm \<Rightarrow> vm" where
  "vm_destroy vm = vm\<lparr>vm_memory := [], vm_memorySize := 0\<rparr>"

section \<open>Execution state: the first error sticks\<close>

lemma is_error_iff:
  "is_error s \<longleftrightarrow> s \<noteq> S_HALTED \<and> s \<noteq> S_NORMAL \<and> s \<noteq> S_TOTAL"
  by (cases s) (simp_all add: is_error_def less_eq_state_def)

lemma vm_set_state_error [simp]:
  "is_error (vm_get_state vm) \<Longrightarrow> vm_set_state s vm = vm"
  by (simp add: vm_set_state_def vm_has_no_error_def vm_get_state_def)

lemma vm_get_set_state:
  "vm_get_state (vm_set_state s vm) = (if is_error (vm_get_state vm) then vm_get_state vm else s)"
  by (simp add: vm_set_state_def vm_has_no_error_def vm_get_state_def)

lemma vm_has_no_error_iff: "vm_has_no_error vm \<longleftrightarrow> \<not> is_error (vm_get_state vm)"
  by (simp add: vm_has_no_error_def vm_get_state_def)

lemma vm_set_state_fields [simp]:
  "vm_registers (vm_set_state s vm) = vm_registers vm"
  "vm_rom (vm_set_state s vm) = vm_rom vm"
  "vm_memory (vm_set_state s vm) = vm_memory vm"
  "vm_memorySize (vm_set_state s vm) = vm_memorySize vm"
  "vm_entryPoint (vm_set_state s vm) = vm_entryPoint vm"
  "vm_alu (vm_set_state s vm) = vm_alu vm"
  "vm_stdin (vm_set_state s vm) = vm_stdin vm"
  "vm_stdout (vm_set_state s vm) = vm_stdout vm"
  by (simp_all add: vm_set_state_def)

lemma vm_set_state_flags [simp]:
  "cpsr_N (vm_cpsr (vm_set_state s vm)) = cpsr_N (vm_cpsr vm)"
  "cpsr_Z (vm_cpsr (vm_set_state s vm)) = cpsr_Z (vm_cpsr vm)"
  "cpsr_C (vm_cpsr (vm_set_state s vm)) = cpsr_C (vm_cpsr vm)"
  "cpsr_V (vm_cpsr (vm_set_state s vm)) = cpsr_V (vm_cpsr vm)"
  "cpsr_S (vm_cpsr (vm_set_state s vm)) = cpsr_S (vm_cpsr vm)"
  by (simp_all add: vm_set_state_def)

section \<open>Well-formed machines\<close>

text \<open>The C arrays have their declared lengths and the RAM is at least as long as its recorded
  size (a machine without RAM still owns one byte).\<close>

definition wf_vm :: "vm \<Rightarrow> bool" where
  "wf_vm vm \<longleftrightarrow>
     length (vm_registers vm) = ZLVM_REGISTER_COUNT \<and>
     length (vm_rom vm) = ZLVM_ROM_SIZE \<and>
     vm_memorySize vm \<le> length (vm_memory vm)"

named_theorems wf_intros \<open>operations keep machines well formed\<close>

lemma wf_vm_set_state [simp]: "wf_vm (vm_set_state s vm) \<longleftrightarrow> wf_vm vm"
  by (simp add: wf_vm_def)

lemma wf_vm_set_register [simp]: "wf_vm (set_register n v vm) \<longleftrightarrow> wf_vm vm"
  by (simp add: wf_vm_def set_register_def)

lemma set_register_fields [simp]:
  "vm_rom (set_register n v vm) = vm_rom vm"
  "vm_memory (set_register n v vm) = vm_memory vm"
  "vm_memorySize (set_register n v vm) = vm_memorySize vm"
  "vm_entryPoint (set_register n v vm) = vm_entryPoint vm"
  "vm_alu (set_register n v vm) = vm_alu vm"
  "vm_cpsr (set_register n v vm) = vm_cpsr vm"
  "vm_stdin (set_register n v vm) = vm_stdin vm"
  "vm_stdout (set_register n v vm) = vm_stdout vm"
  "vm_registers (set_register n v vm) = (vm_registers vm)[n := v]"
  "vm_get_state (set_register n v vm) = vm_get_state vm"
  by (simp_all add: set_register_def vm_get_state_def)

lemma register_index_less: "register_index r < ZLVM_REGISTER_COUNT"
  by (cases r) (simp_all add: register_index_def registers_list_def vm_sizes)

lemma reg_less [simp]: "wf_vm vm \<Longrightarrow> register_index r < length (vm_registers vm)"
  by (simp add: wf_vm_def register_index_less)

lemma register_index_inj [simp]: "register_index r = register_index q \<longleftrightarrow> r = q"
proof
  assume "register_index r = register_index q"
  moreover have "x \<in> set registers_list" for x
    by (cases x) (simp_all add: registers_list_def)
  ultimately show "r = q"
    by (metis register_index_def nth_index_of)
qed simp

section \<open>The address space\<close>

definition memory_end :: "vm \<Rightarrow> nat" where
  "memory_end vm = ZLVM_ROM_SIZE + vm_memorySize vm"

definition in_range :: "vm \<Rightarrow> nat \<Rightarrow> nat \<Rightarrow> bool" where
  "in_range vm address sz \<longleftrightarrow>
     memory_end vm \<le> SIZE_T_MAX \<and> address + sz \<le> memory_end vm"

text \<open>The byte at an address: ROM below \<^verbatim>\<open>ZLVM_ROM_SIZE\<close>, RAM from there.\<close>

definition mem_byte :: "vm \<Rightarrow> nat \<Rightarrow> u8" where
  "mem_byte vm a =
     (if a \<ge> ZLVM_ROM_SIZE then vm_memory vm ! (a - ZLVM_ROM_SIZE) else vm_rom vm ! a)"

lemma vm_validate_range_eq:
  "vm_validate_range vm a n =
     (if in_range vm a n then (vm, True) else (vm_set_state S_ERR_OUT_OF_MEMORY vm, False))"
  by (auto simp: vm_validate_range_def in_range_def memory_end_def Let_def ZLVM_ROM_SIZE_def
      SIZE_T_MAX_def)

lemma in_range_sub: "in_range vm a n \<Longrightarrow> i < n \<Longrightarrow> in_range vm (a + i) (Suc 0)"
  by (simp add: in_range_def)

lemma vm_read_byte_eq:
  "vm_read_byte vm a =
     (if in_range vm a 1 then (vm, mem_byte vm a) else (vm_set_state S_ERR_OUT_OF_MEMORY vm, 0))"
  by (simp add: vm_read_byte_def vm_validate_range_eq mem_byte_def)

definition poke :: "vm \<Rightarrow> nat \<Rightarrow> u8 \<Rightarrow> vm" where
  "poke vm a v =
     (if a \<ge> ZLVM_ROM_SIZE
      then vm\<lparr>vm_memory := (vm_memory vm)[a - ZLVM_ROM_SIZE := v]\<rparr>
      else vm\<lparr>vm_rom := (vm_rom vm)[a := v]\<rparr>)"

lemma vm_write_byte_eq:
  "vm_write_byte vm a v =
     (if in_range vm a 1 then poke vm a v else vm_set_state S_ERR_OUT_OF_MEMORY vm)"
  by (simp add: vm_write_byte_def vm_validate_range_eq poke_def)

lemma poke_fields [simp]:
  "vm_registers (poke vm a v) = vm_registers vm"
  "vm_memorySize (poke vm a v) = vm_memorySize vm"
  "vm_entryPoint (poke vm a v) = vm_entryPoint vm"
  "vm_alu (poke vm a v) = vm_alu vm"
  "vm_cpsr (poke vm a v) = vm_cpsr vm"
  "vm_stdin (poke vm a v) = vm_stdin vm"
  "vm_stdout (poke vm a v) = vm_stdout vm"
  "wf_vm (poke vm a v) = wf_vm vm"
  "in_range (poke vm a v) b n = in_range vm b n"
  by (simp_all add: poke_def wf_vm_def in_range_def memory_end_def)

definition vm_addr_ok :: "vm \<Rightarrow> nat \<Rightarrow> bool" where
  "vm_addr_ok vm a \<longleftrightarrow> wf_vm vm \<and> in_range vm a 1"

text \<open>The machine's memory meets the byte-store contract.\<close>

interpretation vmem: byte_store "\<lambda>vm a. snd (vm_read_byte vm a)" vm_write_byte vm_addr_ok
proof unfold_locales
  fix vm a b v
  assume "vm_addr_ok vm a" "vm_addr_ok vm b"
  then show "snd (vm_read_byte (vm_write_byte vm a v) b) =
      (if b = a then v else snd (vm_read_byte vm b))"
    by (auto simp: vm_addr_ok_def vm_read_byte_eq vm_write_byte_eq mem_byte_def poke_def in_range_def
        memory_end_def wf_vm_def ZLVM_ROM_SIZE_def nth_list_update)
next
  fix vm a b v
  assume "vm_addr_ok vm a"
  then show "vm_addr_ok (vm_write_byte vm a v) b = vm_addr_ok vm b"
    by (simp add: vm_addr_ok_def vm_write_byte_eq)
qed

section \<open>Scalars\<close>

lemma vm_read_scalar_loop:
  "in_range vm a n \<Longrightarrow> k \<le> n \<Longrightarrow>
   foldl (\<lambda>(vm, result) index. let (vm, b) = vm_read_byte vm (a + index)
            in (vm, result OR push_bit (index * 8) (ucast b))) (vm, 0) [0..<k] =
     (vm, le_read (mem_byte vm) k a)"
proof (induction k)
  case 0
  then show ?case by simp
next
  case (Suc k)
  then have "in_range vm (a + k) (Suc 0)" by (simp add: in_range_sub)
  then show ?case using Suc by (simp add: vm_read_byte_eq le_read_Suc)
qed

lemma vm_read_scalar_eq:
  "vm_read_scalar vm a n =
     (if in_range vm a n then (vm, le_read (mem_byte vm) n a)
      else (vm_set_state S_ERR_OUT_OF_MEMORY vm, 0))"
  using vm_read_scalar_loop [of vm a n n]
  by (auto simp: vm_read_scalar_def vm_validate_range_eq)

text \<open>A scalar write inside the address space is the sequence of its byte writes.\<close>

definition poke_scalar :: "vm \<Rightarrow> nat \<Rightarrow> nat \<Rightarrow> u64 \<Rightarrow> vm" where
  "poke_scalar vm a n v = le_write poke n a v vm"

lemma poke_scalar_fields [simp]:
  "vm_registers (poke_scalar vm a n v) = vm_registers vm"
  "vm_memorySize (poke_scalar vm a n v) = vm_memorySize vm"
  "vm_entryPoint (poke_scalar vm a n v) = vm_entryPoint vm"
  "vm_alu (poke_scalar vm a n v) = vm_alu vm"
  "vm_cpsr (poke_scalar vm a n v) = vm_cpsr vm"
  "vm_stdin (poke_scalar vm a n v) = vm_stdin vm"
  "vm_stdout (poke_scalar vm a n v) = vm_stdout vm"
  "wf_vm (poke_scalar vm a n v) = wf_vm vm"
  "in_range (poke_scalar vm a n v) b m = in_range vm b m"
  "memory_end (poke_scalar vm a n v) = memory_end vm"
  "vm_get_state (poke_scalar vm a n v) = vm_get_state vm"
  unfolding poke_scalar_def
  by (rule le_write_pres; simp add: memory_end_def vm_get_state_def)+

lemma le_write_vm_write_byte:
  "in_range vm a n \<Longrightarrow> k \<le> n \<Longrightarrow>
     le_write vm_write_byte k a v vm = le_write poke k a v vm \<and>
     in_range (le_write poke k a v vm) a n"
proof (induction k)
  case 0
  then show ?case by simp
next
  case (Suc k)
  then have "in_range (le_write poke k a v vm) (a + k) (Suc 0)"
    by (intro in_range_sub [of _ a n]) auto
  then show ?case using Suc by (simp add: le_write_Suc vm_write_byte_eq)
qed

lemma vm_write_scalar_eq:
  "vm_write_scalar vm a v n =
     (if in_range vm a n then poke_scalar vm a n v else vm_set_state S_ERR_OUT_OF_MEMORY vm)"
  by (simp add: vm_write_scalar_def vm_validate_range_eq le_write_vm_write_byte poke_scalar_def)

lemma mem_byte_poke_scalar:
  assumes "wf_vm vm" "in_range vm a n" "in_range vm b 1"
  shows "mem_byte (poke_scalar vm a n v) b =
    (if a \<le> b \<and> b < a + n then le_byte v (b - a) else mem_byte vm b)"
proof -
  have ok: "vm_addr_ok vm (a + i)" if "i < n" for i
    using assms that by (simp add: vm_addr_ok_def in_range_sub)
  have "snd (vm_read_byte (le_write vm_write_byte n a v vm) b) =
      (if a \<le> b \<and> b < a + n then le_byte v (b - a) else snd (vm_read_byte vm b))"
    using assms ok by (intro vmem.rd_le_write) (simp_all add: vm_addr_ok_def)
  moreover have "le_write vm_write_byte n a v vm = poke_scalar vm a n v"
    using assms(2) by (simp add: le_write_vm_write_byte poke_scalar_def)
  ultimately show ?thesis
    using assms by (simp add: vm_read_byte_eq)
qed

lemma le_read_poke_scalar:
  assumes "wf_vm vm" "in_range vm a n"
  shows "(le_read (mem_byte (poke_scalar vm a n v)) n a :: 'w::len word) =
    ucast (take_bit (n * 8) v)"
proof (rule le_read_le_byte)
  fix i assume i: "i < n"
  then have "in_range vm (a + i) (Suc 0)" using assms(2) by (rule in_range_sub [rotated])
  then show "mem_byte (poke_scalar vm a n v) (a + i) = le_byte v i"
    using assms i by (simp add: mem_byte_poke_scalar)
qed

lemma le_read_poke_scalar_other:
  assumes "wf_vm vm" "in_range vm a n" "in_range vm b m" "b + m \<le> a \<or> a + n \<le> b"
  shows "le_read (mem_byte (poke_scalar vm a n v)) m b = le_read (mem_byte vm) m b"
proof (rule le_read_cong)
  fix i assume i: "i < m"
  then have "in_range vm (b + i) (Suc 0)" using assms(3) by (rule in_range_sub [rotated])
  then show "mem_byte (poke_scalar vm a n v) (b + i) = mem_byte vm (b + i)"
    using assms i by (auto simp: mem_byte_poke_scalar)
qed

text \<open>A scalar of up to eight bytes written inside the address space reads back as its low
  bytes, every scalar read at a disjoint range is unchanged, and the state stays as it was.\<close>

theorem vm_write_scalar_read:
  assumes "wf_vm vm" "in_range vm a n" "in_range vm b m" "b + m \<le> a \<or> a + n \<le> b"
  shows "vm_read_scalar (vm_write_scalar vm a v n) a n =
      (vm_write_scalar vm a v n, take_bit (n * 8) v) \<and>
    snd (vm_read_scalar (vm_write_scalar vm a v n) b m) = snd (vm_read_scalar vm b m) \<and>
    vm_get_state (vm_write_scalar vm a v n) = vm_get_state vm"
  using assms
  by (simp add: vm_write_scalar_eq vm_read_scalar_eq le_read_poke_scalar le_read_poke_scalar_other)

text \<open>An access that leaves the address space reads 0 and writes nothing: it sets the
  out-of-memory state, unless an error was already recorded, and changes nothing else.\<close>

theorem vm_access_out_of_range:
  assumes "\<not> in_range vm a n"
  shows "vm_read_scalar vm a n = (vm_set_state S_ERR_OUT_OF_MEMORY vm, 0) \<and>
    vm_write_scalar vm a v n = vm_set_state S_ERR_OUT_OF_MEMORY vm \<and>
    vm_get_state (vm_write_scalar vm a v n) =
      (if vm_has_no_error vm then S_ERR_OUT_OF_MEMORY else vm_get_state vm)"
  using assms
  by (simp add: vm_write_scalar_eq vm_read_scalar_eq vm_get_set_state vm_has_no_error_iff)

lemma vm_effective_address_eq:
  "vm_effective_address vm base offset n =
     (if in_range vm (unat base + unat offset) n then (vm, Some (unat base + unat offset))
      else (vm_set_state S_ERR_OUT_OF_MEMORY vm, None))"
proof -
  have "unat base + unat offset \<le> SIZE_T_MAX"
    using add_strict_mono [OF unat_u32_less [of base] unat_u32_less [of offset]]
    by (simp add: limits)
  then show ?thesis
    by (auto simp: vm_effective_address_def vm_validate_range_eq vm_get_set_state
        is_error_iff Let_def vm_set_state_def vm_has_no_error_def)
qed

section \<open>A fresh machine\<close>

definition fresh_vm :: "u8 list \<Rightarrow> u8 list \<Rightarrow> nat \<Rightarrow> vm" where
  "fresh_vm inp out n =
     \<lparr>vm_cpsr = cpsr_zero\<lparr>cpsr_ST := S_NORMAL\<rparr>,
      vm_alu = \<lparr>alu_left = 0, alu_right = 0, alu_res = 0, alu_op = OP_NOOP, alu_fl = no_flags\<rparr>,
      vm_registers = replicate ZLVM_REGISTER_COUNT 0, vm_rom = replicate ZLVM_ROM_SIZE 0,
      vm_memory = replicate (max 1 n) 0, vm_memorySize = n, vm_entryPoint = 0,
      vm_stdin = inp, vm_stdout = out\<rparr>"

lemma wf_fresh_vm: "wf_vm (fresh_vm inp out n)"
  by (simp add: wf_vm_def fresh_vm_def)

text \<open>Initialising any storage gives the machine with all registers, ROM, RAM and flags zero,
  entry point zero and state normal, whatever the storage held; it is well formed. The only other
  outcome is the failed allocation, which ends the process.\<close>

theorem vm_initialize_fresh:
  "vm_initialize can_alloc vm n =
     (if can_alloc (max 1 n) then Some (fresh_vm (vm_stdin vm) (vm_stdout vm) n) else None) \<and>
   wf_vm (fresh_vm (vm_stdin vm) (vm_stdout vm) n)"
  by (cases vm)
     (auto simp: vm_initialize_def vm_calloc_def Let_def fresh_vm_def alu_reset_def
      vm_set_state_def vm_has_no_error_def cpsr_zero_def is_error_iff wf_vm_def max_def)

end
