(* ===== verification/Assembler.thy ===== *)
theory Assembler
  imports Parser Image Machine
begin

unbundle bit_operations_syntax

text \<open>
  The assembler proper, \<^verbatim>\<open>asm/src/Assembler.c\<close> with \<^verbatim>\<open>LabelTable.c\<close>: checking directives and
  operands, recording the lines of each section, the label table and the translation to raw code. The
  context is the structure of \<^verbatim>\<open>include/asm/Assembler.h\<close>.
\<close>

section \<open>Names of conditions and registers\<close>

definition condition_names :: "(string \<times> condition) list" where
  "condition_names =
     [(''un'', C_UNCONDITIONAL),
      (''zs'', C_ZERO_SET), (''eq'', C_ZERO_SET), (''zc'', C_ZERO_CLEAR), (''ne'', C_ZERO_CLEAR),
      (''cs'', C_CARRY_SET), (''hs'', C_CARRY_SET), (''cc'', C_CARRY_CLEAR), (''lo'', C_CARRY_CLEAR),
      (''ns'', C_NEGATIVE_SET), (''mi'', C_NEGATIVE_SET), (''nc'', C_NEGATIVE_CLEAR),
      (''pl'', C_NEGATIVE_CLEAR),
      (''vs'', C_OVERFLOW_SET), (''vc'', C_OVERFLOW_CLEAR),
      (''ss'', C_SIGNED_SET), (''sc'', C_SIGNED_CLEAR),
      (''uh'', C_UNSIGNED_HIGHER), (''ul'', C_UNSIGNED_LOWER_OR_SAME),
      (''gt'', C_GREATER), (''ge'', C_GREATER_OR_EQUALS), (''lt'', C_LESS), (''le'', C_LESS_OR_EQUALS)]"

definition parse_condition :: "token \<Rightarrow> diagnostic + condition" where
  "parse_condition tok =
     (case map_of condition_names (tok_value tok) of
        None \<Rightarrow> asm_token_fail ZLASM_DIAGNOSTIC_UNKNOWN_CONDITION (Some tok)
      | Some c \<Rightarrow> Inr c)"

definition register_names :: "(string \<times> register) list" where
  "register_names =
     [(''zero'', R_ZERO), (''at'', R_AT), (''v0'', R_V0), (''v1'', R_V1), (''v2'', R_V2), (''v3'', R_V3),
      (''a0'', R_A0), (''a1'', R_A1), (''a2'', R_A2), (''a3'', R_A3),
      (''t0'', R_T0), (''t1'', R_T1), (''t2'', R_T2), (''t3'', R_T3), (''t4'', R_T4), (''t5'', R_T5),
      (''t6'', R_T6), (''t7'', R_T7),
      (''s0'', R_S0), (''s1'', R_S1), (''s2'', R_S2), (''s3'', R_S3), (''s4'', R_S4), (''s5'', R_S5),
      (''s6'', R_S6), (''s7'', R_S7),
      (''k0'', R_K0), (''sc'', R_SC), (''lp'', R_LP), (''sp'', R_SP), (''bp'', R_BP), (''pc'', R_PC)]"

text \<open>The digits after \<^verbatim>\<open>r\<close>.\<close>

fun register_number :: "token \<Rightarrow> nat \<Rightarrow> string \<Rightarrow> diagnostic + nat" where
  "register_number tok index [] = Inr index"
| "register_number tok index (c # cs) =
     (if of_char c < (of_char CHR ''0'' :: nat) \<or> of_char c > (of_char CHR ''9'' :: nat)
      then asm_token_fail ZLASM_DIAGNOSTIC_UNKNOWN_REGISTER (Some tok)
      else let digit = of_char c - of_char CHR ''0'' in
           if index > (R_TOTAL - 1) div 10 \<or> index * 10 + digit \<ge> R_TOTAL
           then asm_token_fail ZLASM_DIAGNOSTIC_UNKNOWN_REGISTER (Some tok)
           else register_number tok (index * 10 + digit) cs)"

definition parse_register :: "token \<Rightarrow> diagnostic + register" where
  "parse_register tok =
     (case tok_value tok of
        c # digits \<Rightarrow>
          if c = CHR ''r''
          then (if digits = [] then asm_token_fail ZLASM_DIAGNOSTIC_UNKNOWN_REGISTER (Some tok)
                else sbind (register_number tok 0 digits) (\<lambda>index. Inr (registers_list ! index)))
          else (case map_of register_names (tok_value tok) of
                  None \<Rightarrow> asm_token_fail ZLASM_DIAGNOSTIC_UNKNOWN_REGISTER (Some tok)
                | Some r \<Rightarrow> Inr r)
      | [] \<Rightarrow> asm_token_fail ZLASM_DIAGNOSTIC_UNKNOWN_REGISTER (Some tok))"

section \<open>Validation\<close>

definition is_integer_token :: "token \<Rightarrow> bool" where
  "is_integer_token t \<longleftrightarrow> tok_type t \<in> {TOK_INT_BIN, TOK_INT_OCT, TOK_INT_DEC, TOK_INT_HEX}"

definition is_data_value_token :: "token \<Rightarrow> bool \<Rightarrow> bool" where
  "is_data_value_token t allow_string \<longleftrightarrow>
     is_integer_token t \<or> tok_type t = TOK_CHAR_LITERAL \<or>
     (allow_string \<and> tok_type t = TOK_STRING_LITERAL)"

definition directive_fail :: "token \<Rightarrow> diagnostic + 'a" where
  "directive_fail t = asm_token_fail ZLASM_DIAGNOSTIC_INVALID_DIRECTIVE (Some t)"

definition require_arity :: "directive \<Rightarrow> nat \<Rightarrow> diagnostic + unit" where
  "require_arity d expected_count =
     (if length (dir_argv d) \<noteq> expected_count
      then directive_fail (if length (dir_argv d) > expected_count then dir_argv d ! expected_count
                           else dir_name d)
      else Inr ())"

text \<open>The first argument has to satisfy \<open>P\<close>.\<close>

definition require_first :: "(token \<Rightarrow> bool) \<Rightarrow> directive \<Rightarrow> diagnostic + unit" where
  "require_first P d =
     (case dir_argv d of
        [] \<Rightarrow> directive_fail (dir_name d)
      | t # _ \<Rightarrow> if P t then Inr () else directive_fail t)"

text \<open>At least one argument, all data values.\<close>

definition require_data :: "bool \<Rightarrow> directive \<Rightarrow> diagnostic + unit" where
  "require_data allow_string d =
     (if dir_argv d = [] then directive_fail (dir_name d)
      else case find (\<lambda>t. \<not> is_data_value_token t allow_string) (dir_argv d) of
             Some t \<Rightarrow> directive_fail t | None \<Rightarrow> Inr ())"

definition validate_directive :: "directive \<Rightarrow> diagnostic + unit" where
  "validate_directive d =
     (if dir_type d \<in> {DIR_SECTION, DIR_GLOBAL, DIR_ENTRY, DIR_PROC, DIR_MACRO}
      then sbind (require_arity d 1) (\<lambda>_. require_first (\<lambda>t. tok_type t = TOK_ID) d)
      else if dir_type d = DIR_EXTERN then require_first (\<lambda>t. tok_type t = TOK_ID) d
      else if dir_type d \<in> {DIR_ALIGN, DIR_LOCATE, DIR_SPACE}
      then sbind (require_arity d 1) (\<lambda>_. require_first is_integer_token d)
      else if dir_type d \<in> {DIR_ASCII, DIR_ASCIIZ} then require_data True d
      else if dir_type d \<in> {DIR_BYTE, DIR_HWORD, DIR_WORD, DIR_DWORD} then require_data False d
      else require_arity d 0)"

text \<open>The number of registers an opcode takes, and whether it takes an immediate: \<^term>\<open>None\<close> stands for
  the optional one of loads and stores.\<close>

definition operand_counts :: "opcode \<Rightarrow> nat \<times> bool option" where
  "operand_counts op =
     (if op \<in> {NOP, POP, DUP, SYSCALL, RET} then (0, Some False)
      else if op \<in> {POPR, PUSHR, NOT', INC, DEC} then (1, Some False)
      else if op \<in> {PUSHI, INT', JMP, JMPAL} then (0, Some True)
      else if op \<in> {MOVR, ADDR, SUBR, MULR, DIVR, MODR, ANDR, ORR, XORR, NANDR, NORR, CMPR, CMPSR,
                    ADDSR, SUBSR, MULSR, DIVSR, MODSR} then (2, Some False)
      else if op \<in> {LOADB, STOREB, LOADH, STOREH, LOADW, STOREW} then (2, None)
      else (1, Some True))"

definition validate_operands :: "opcode \<Rightarrow> statement \<Rightarrow> diagnostic + unit" where
  "validate_operands op s =
     (let registers = (if st_reg1 s \<noteq> None then (if st_reg2 s \<noteq> None then 2 else 1) else 0);
          (expected_registers, expected_immediate) = operand_counts op
      in if registers \<noteq> expected_registers \<or>
            (case expected_immediate of None \<Rightarrow> False | Some b \<Rightarrow> (st_imm s \<noteq> None) \<noteq> b)
         then asm_token_fail ZLASM_DIAGNOSTIC_INVALID_OPERANDS (Some (st_opcode s)) else Inr ())"

section \<open>The context\<close>

record asm_section =
  as_name :: string
  as_type :: u32
  as_flags :: u32
  as_address :: u32
  as_alignment :: u32
  as_size :: nat

record assembler =
  ac_labels :: "(string \<times> nat) list"
  ac_entry :: "string option"
  ac_globals :: "string list"
  ac_externals :: "string list"
  ac_lines :: "line list"
  ac_sections :: "asm_section list"
  ac_current :: nat

text \<open>\<^verbatim>\<open>ZL_IMAGE_SECTION_TEXT\<close>, \<^verbatim>\<open>DATA\<close> and \<^verbatim>\<open>BSS\<close>.\<close>

definition section_type_of :: "string \<Rightarrow> u32" where
  "section_type_of name =
     (if name = ''.bss'' \<or> name = ''bss'' then ZL_IMAGE_SECTION_BSS
      else if name = ''.data'' \<or> name = ''data'' then ZL_IMAGE_SECTION_DATA
      else ZL_IMAGE_SECTION_TEXT)"

text \<open>The sections with the named one, and its index.\<close>

definition select_section :: "asm_section list \<Rightarrow> string \<Rightarrow> asm_section list \<times> nat" where
  "select_section sections name =
     (let index = length (takeWhile (\<lambda>s. as_name s \<noteq> name) sections)
      in if index < length sections then (sections, index)
         else (sections @ [\<lparr>as_name = name, as_type = section_type_of name, as_flags = 0,
                             as_address = 0, as_alignment = 1, as_size = 0\<rparr>], index))"

definition asm_init :: assembler where
  "asm_init =
     \<lparr>ac_labels = [], ac_entry = None, ac_globals = [], ac_externals = [], ac_lines = [],
      ac_sections = fst (select_section [] ''text''), ac_current = 0\<rparr>"

definition is_supported_section :: "string \<Rightarrow> bool" where
  "is_supported_section name \<longleftrightarrow>
     name \<in> {''.text'', ''text'', ''.data'', ''data'', ''.bss'', ''bss''}"

definition validate_section_range :: "asm_section \<Rightarrow> token option \<Rightarrow> diagnostic + unit" where
  "validate_section_range s tok =
     (if unat (as_address s) > ZLVM_ROM_SIZE \<or> as_size s > ZLVM_ROM_SIZE - unat (as_address s)
      then asm_token_fail ZLASM_DIAGNOSTIC_SECTION_ERROR tok else Inr ())"

abbreviation current_section :: "assembler \<Rightarrow> asm_section" where
  "current_section c \<equiv> ac_sections c ! ac_current c"

definition set_current_section :: "assembler \<Rightarrow> asm_section \<Rightarrow> assembler" where
  "set_current_section c s = c\<lparr>ac_sections := (ac_sections c)[ac_current c := s]\<rparr>"

section \<open>Processing directives\<close>

definition set_label_context :: "string \<Rightarrow> string \<Rightarrow> string" where
  "set_label_context context label = (if label = [] then context else context @ ''.'' @ label)"

definition asm_addGlobal :: "assembler \<Rightarrow> string \<Rightarrow> assembler" where
  "asm_addGlobal c symbol = c\<lparr>ac_globals := ac_globals c @ [symbol]\<rparr>"

definition asm_addExternal :: "assembler \<Rightarrow> string \<Rightarrow> assembler" where
  "asm_addExternal c symbol = c\<lparr>ac_externals := ac_externals c @ [symbol]\<rparr>"

definition section_fail :: "token \<Rightarrow> diagnostic + 'a" where
  "section_fail t = asm_token_fail ZLASM_DIAGNOSTIC_SECTION_ERROR (Some t)"

definition align_section :: "asm_section \<Rightarrow> token \<Rightarrow> diagnostic + asm_section" where
  "align_section s arg =
     sbind (token_get_int_value arg) (\<lambda>alignment.
       if alignment = 0 \<or> unat alignment > WORD_MAX \<or> alignment AND (alignment - 1) \<noteq> 0
       then section_fail arg
       else let remainder = as_size s AND (unat alignment - 1);
                padding = unat alignment - remainder
            in if remainder \<noteq> 0 \<and> padding > SIZE_T_MAX - as_size s
               then asm_token_fail ZLASM_DIAGNOSTIC_OUTPUT_TOO_LARGE (Some arg)
               else let s = (if remainder \<noteq> 0 then s\<lparr>as_size := as_size s + padding\<rparr> else s);
                        s = (if unat (as_alignment s) < unat alignment
                             then s\<lparr>as_alignment := ucast alignment\<rparr> else s)
                    in sbind (validate_section_range s (Some arg)) (\<lambda>_. Inr s))"

definition locate_section :: "asm_section \<Rightarrow> token \<Rightarrow> diagnostic + asm_section" where
  "locate_section s arg =
     sbind (token_get_int_value arg) (\<lambda>address.
       if unat address > WORD_MAX \<or> unat address < unat (as_address s) then section_fail arg
       else sbind
         (if as_size s = 0
          then Inr (s\<lparr>as_address := ucast address, as_flags := as_flags s OR 1\<rparr>)
          else if unat address - unat (as_address s) < as_size s then section_fail arg
          else Inr (s\<lparr>as_size := unat address - unat (as_address s)\<rparr>)) (\<lambda>s.
       sbind (validate_section_range s (Some arg)) (\<lambda>_. Inr s)))"

text \<open>The directives that change the context; \<^verbatim>\<open>.proc\<close> and \<^verbatim>\<open>.endproc\<close> are handled by the loop below,
  and macro definitions were removed before parsing. The directive has been validated, so it has its
  first argument.\<close>

definition process_directive :: "assembler \<Rightarrow> directive \<Rightarrow> diagnostic + assembler" where
  "process_directive c d =
     (let arg = dir_argv d ! 0; name = tok_value arg in
      case dir_type d of
        DIR_SECTION \<Rightarrow>
          if \<not> is_supported_section name then section_fail arg
          else let (sections, index) = select_section (ac_sections c) name
               in Inr (c\<lparr>ac_sections := sections, ac_current := index\<rparr>)
      | DIR_GLOBAL \<Rightarrow> Inr (asm_addGlobal c name)
      | DIR_EXTERN \<Rightarrow> Inr (asm_addExternal c name)
      | DIR_ALIGN \<Rightarrow> sbind (align_section (current_section c) arg) (\<lambda>s. Inr (set_current_section c s))
      | DIR_ENTRY \<Rightarrow> Inr (c\<lparr>ac_entry := Some name\<rparr>)
      | DIR_LOCATE \<Rightarrow> sbind (locate_section (current_section c) arg) (\<lambda>s. Inr (set_current_section c s))
      | DIR_MACRO \<Rightarrow> Inr c
      | DIR_ENDMACRO \<Rightarrow> Inr c
      | _ \<Rightarrow> directive_fail (dir_name d))"

text \<open>The bytes a statement or a data line emits. A directive, which no recorded line holds, would emit none.\<close>

definition content_size :: "line_content \<Rightarrow> nat" where
  "content_size k =
     (case k of L_STMT s \<Rightarrow> ZLVM_INSTRUCTION_SIZE | L_RAW data \<Rightarrow> length data | L_DIR d \<Rightarrow> 0)"

definition record_line :: "assembler \<Rightarrow> line \<Rightarrow> diagnostic + assembler" where
  "record_line c l =
     (let s = current_section c; sz = content_size (ln_content l);
          l = l\<lparr>ln_section_index := ac_current c, ln_section_offset := as_size s, ln_size := sz\<rparr>
      in if sz > SIZE_T_MAX - as_size s then asm_fail ZLASM_DIAGNOSTIC_OUTPUT_TOO_LARGE
         else let s = s\<lparr>as_size := as_size s + sz\<rparr>
              in sbind (validate_section_range s None) (\<lambda>_.
                 Inr ((set_current_section c s)\<lparr>ac_lines := ac_lines c @ [l]\<rparr>)))"

text \<open>Inside a procedure its name prefixes a line's label.\<close>

definition relabel :: "string option \<Rightarrow> line \<Rightarrow> line" where
  "relabel proc l =
     (case (proc, ln_label l) of
        (Some p, Some label) \<Rightarrow> l\<lparr>ln_label := Some (set_label_context p label)\<rparr>
      | _ \<Rightarrow> l)"

lemma relabel_content [simp]: "ln_content (relabel proc l) = ln_content l"
  by (simp add: relabel_def split: option.split)

text \<open>The loop of \<^verbatim>\<open>asm_processDirectives\<close>: \<open>proc\<close> is the procedure that prefixes labels. \<^verbatim>\<open>.proc\<close> gives
  the line after it an empty label.\<close>

function process_lines ::
  "(nat \<Rightarrow> bool) \<Rightarrow> assembler \<Rightarrow> string option \<Rightarrow> line list \<Rightarrow> diagnostic + assembler" where
  "process_lines can_alloc c proc [] = Inr c"
| "process_lines can_alloc c proc (l # rest) =
     (let l = relabel proc l
      in case ln_content l of
           L_DIR d \<Rightarrow>
             sbind (validate_directive d) (\<lambda>_.
               if is_data_directive (dir_type d)
               then sbind (directive_get_raw_data can_alloc d) (\<lambda>data.
                    sbind (record_line c (l\<lparr>ln_content := L_RAW data\<rparr>)) (\<lambda>c.
                    process_lines can_alloc c proc rest))
               else if dir_type d = DIR_PROC
               then (case rest of
                       [] \<Rightarrow> directive_fail (dir_name d)
                     | next # after \<Rightarrow> process_lines can_alloc c (Some (tok_value (dir_argv d ! 0)))
                                      (next\<lparr>ln_label := Some []\<rparr> # after))
               else if dir_type d = DIR_ENDPROC then process_lines can_alloc c None rest
               else sbind (process_directive c d) (\<lambda>c. process_lines can_alloc c proc rest))
         | _ \<Rightarrow> sbind (record_line c l) (\<lambda>c. process_lines can_alloc c proc rest))"
  by pat_completeness auto

termination
  by (relation "measure (\<lambda>(can_alloc, c, proc, ls). length ls)") auto

declare process_lines.simps(2) [simp del]

definition asm_processDirectives :: "(nat \<Rightarrow> bool) \<Rightarrow> line list \<Rightarrow> diagnostic + assembler" where
  "asm_processDirectives can_alloc lines = process_lines can_alloc asm_init None lines"

section \<open>Labels\<close>

text \<open>The label table is an association list in the order of insertion.\<close>

definition labelInfo_getIfExist :: "(string \<times> nat) list \<Rightarrow> string \<Rightarrow> nat option" where
  "labelInfo_getIfExist table name = map_of table name"

fun labelTable_setOrCreate :: "(string \<times> nat) list \<Rightarrow> string \<Rightarrow> nat \<Rightarrow> (string \<times> nat) list" where
  "labelTable_setOrCreate [] name address = [(name, address)]"
| "labelTable_setOrCreate ((n, a) # table) name address =
     (if n = name then (n, address) # table else (n, a) # labelTable_setOrCreate table name address)"

text \<open>One line of \<^verbatim>\<open>asm_processLabels\<close>: the table and the address of the line.\<close>

definition process_label ::
  "(string \<times> nat) list \<times> nat \<Rightarrow> line \<Rightarrow> diagnostic + (string \<times> nat) list \<times> nat" where
  "process_label st l =
     (let (table, address) = st in
      sbind (case ln_label l of
               None \<Rightarrow> Inr table
             | Some name \<Rightarrow>
                 if labelInfo_getIfExist table name \<noteq> None
                 then asm_fail ZLASM_DIAGNOSTIC_SECTION_ERROR
                 else Inr (labelTable_setOrCreate table name address)) (\<lambda>table.
      Inr (table, address + content_size (ln_content l))))"

definition asm_processLabels :: "assembler \<Rightarrow> diagnostic + assembler" where
  "asm_processLabels c =
     sbind (try_fold process_label ([], 0) (ac_lines c)) (\<lambda>(table, address).
     Inr (c\<lparr>ac_labels := table\<rparr>))"

section \<open>Translation to raw code\<close>

definition toupper :: "char \<Rightarrow> char" where
  "toupper c = (if (of_char CHR ''a'' :: nat) \<le> of_char c \<and> (of_char c :: nat) \<le> of_char CHR ''z''
     then char_of (of_char c - 32 :: nat) else c)"

definition line_to_upper :: "string \<Rightarrow> string" where
  "line_to_upper s = map toupper s"

definition parse_optional :: "(token \<Rightarrow> diagnostic + 'a) \<Rightarrow> 'a \<Rightarrow> token option \<Rightarrow> diagnostic + 'a" where
  "parse_optional parse absent tok = (case tok of None \<Rightarrow> Inr absent | Some t \<Rightarrow> parse t)"

text \<open>An immediate that is not a label.\<close>

definition literal_immediate :: "token \<Rightarrow> diagnostic + u32" where
  "literal_immediate imm =
     (if tok_type imm = TOK_CHAR_LITERAL
      then sbind (token_get_char_value imm) (\<lambda>c. Inr (char_word c))
      else sbind (token_get_int_value imm) (\<lambda>value.
           if unat value > WORD_MAX
           then asm_token_fail ZLASM_DIAGNOSTIC_VALUE_OUT_OF_RANGE (Some imm)
           else Inr (ucast value)))"

definition raw_immediate :: "(string \<times> nat) list \<Rightarrow> token option \<Rightarrow> diagnostic + u32" where
  "raw_immediate labels imm =
     (case imm of
        None \<Rightarrow> Inr 0
      | Some imm \<Rightarrow>
          if tok_type imm = TOK_LABEL_USE
          then (case labelInfo_getIfExist labels (tok_value imm) of
                  None \<Rightarrow> asm_token_fail ZLASM_DIAGNOSTIC_UNKNOWN_LABEL (Some imm)
                | Some address \<Rightarrow>
                    if address > WORD_MAX
                    then asm_token_fail ZLASM_DIAGNOSTIC_VALUE_OUT_OF_RANGE (Some imm)
                    else Inr (of_nat address))
          else literal_immediate imm)"

definition make_instruction :: "opcode \<Rightarrow> condition \<Rightarrow> register \<Rightarrow> register \<Rightarrow> u32 \<Rightarrow> instruction" where
  "make_instruction op cond r1 r2 imm =
     \<lparr>ins_opcode = opcode_code op, ins_condition = condition_code cond,
      register1 = of_nat (register_index r1), register2 = of_nat (register_index r2), immediate = imm\<rparr>"

text \<open>\<^verbatim>\<open>instruction_encode\<close> into an eight-byte buffer, which it overwrites.\<close>

definition encode_or_fail :: "instruction \<Rightarrow> diagnostic + u8 list" where
  "encode_or_fail ins =
     (case instruction_encode (Some (replicate ZLVM_INSTRUCTION_SIZE 0)) ZLVM_INSTRUCTION_SIZE (Some ins) of
        None \<Rightarrow> asm_fail ZLASM_DIAGNOSTIC_INTERNAL_ERROR
      | Some bytes \<Rightarrow> Inr bytes)"

definition translate_statement :: "(string \<times> nat) list \<Rightarrow> statement \<Rightarrow> diagnostic + u8 list" where
  "translate_statement labels s =
     (case opcode_of (string_to_opcode (line_to_upper (tok_value (st_opcode s)))) of
        None \<Rightarrow> asm_token_fail ZLASM_DIAGNOSTIC_UNKNOWN_OPCODE (Some (st_opcode s))
      | Some op \<Rightarrow>
          sbind (validate_operands op s) (\<lambda>_.
          sbind (parse_optional parse_condition C_UNCONDITIONAL (st_cond s)) (\<lambda>cond.
          sbind (parse_optional parse_register R_ZERO (st_reg1 s)) (\<lambda>r1.
          sbind (parse_optional parse_register R_ZERO (st_reg2 s)) (\<lambda>r2.
          sbind (raw_immediate labels (st_imm s)) (\<lambda>imm.
          encode_or_fail (make_instruction op cond r1 r2 imm)))))))"

definition translate_content :: "(string \<times> nat) list \<Rightarrow> line_content \<Rightarrow> diagnostic + u8 list" where
  "translate_content labels k =
     (case k of
        L_STMT s \<Rightarrow> translate_statement labels s
      | L_RAW data \<Rightarrow> Inr data
      | L_DIR d \<Rightarrow> asm_fail ZLASM_DIAGNOSTIC_INTERNAL_ERROR)"

text \<open>The buffer grows in steps of 1024 bytes; \<^verbatim>\<open>SIZE_MAX\<close> is one below a multiple of it, so its two
  overflow checks together refuse the sizes above \<^verbatim>\<open>SIZE_MAX - 1023\<close>.\<close>

definition translate_line :: "(string \<times> nat) list \<Rightarrow> u8 list \<Rightarrow> line \<Rightarrow> diagnostic + u8 list" where
  "translate_line labels result l =
     sbind (translate_content labels (ln_content l)) (\<lambda>data.
       if length result + length data > SIZE_T_MAX - 1023
       then asm_fail ZLASM_DIAGNOSTIC_OUTPUT_TOO_LARGE else Inr (result @ data))"

definition asm_translate :: "assembler \<Rightarrow> diagnostic + u8 list" where
  "asm_translate c = try_fold (translate_line (ac_labels c)) [] (ac_lines c)"

end
