(* ===== verification/Stack.thy ===== *)
theory Stack
  imports Machine
begin

text \<open>
  The stack operations \<^verbatim>\<open>vm_pop_word\<close> and \<^verbatim>\<open>vm_push_word\<close> of
  \<^verbatim>\<open>emulator/src/VirtualMachineInternal.c\<close>. Their contract is a stack of words with a bounded
  capacity; the locale \<open>word_stack\<close> states it, the interpretation proves it for the machine, and
  the last-in-first-out facts follow from the contract.
\<close>

section \<open>The operations\<close>

text \<open>\<^term>\<open>None\<close> is \<^verbatim>\<open>false\<close>; \<open>Some w\<close> is \<^verbatim>\<open>true\<close> with the popped word.\<close>

definition vm_pop_word :: "vm \<Rightarrow> vm \<times> u32 option" where
  "vm_pop_word vm =
     (let stack_pointer = reg vm R_SP; base_pointer = reg vm R_BP;
          used_stack = stack_pointer - base_pointer
      in if stack_pointer < base_pointer \<or> used_stack < ZLVM_WORD_SIZE \<or>
            used_stack > ZLVM_STACK_SIZE \<or> used_stack mod ZLVM_WORD_SIZE \<noteq> 0
         then (vm_set_state S_ERR_STACK_UNDERFLOW vm, None)
         else let address = unat (stack_pointer - ZLVM_WORD_SIZE);
                  (vm, result) = vm_read_word vm address
              in if \<not> vm_has_no_error vm then (vm, None)
                 else (set_reg R_SP (of_nat address) vm, Some result))"

definition vm_push_word :: "vm \<Rightarrow> u32 \<Rightarrow> vm \<times> bool" where
  "vm_push_word vm value =
     (let stack_pointer = reg vm R_SP; base_pointer = reg vm R_BP;
          used_stack = stack_pointer - base_pointer
      in if stack_pointer < base_pointer \<or>
            used_stack > ZLVM_STACK_SIZE - ZLVM_WORD_SIZE \<or>
            used_stack mod ZLVM_WORD_SIZE \<noteq> 0
         then (vm_set_state S_ERR_STACK_OVERFLOW vm, False)
         else let address = unat stack_pointer;
                  (vm, ok) = vm_validate_range vm address 4
              in if \<not> ok then (vm, False)
                 else let vm = vm_write_word vm address value
                      in if \<not> vm_has_no_error vm then (vm, False)
                         else (set_reg R_SP (of_nat address + ZLVM_WORD_SIZE) vm, True))"

section \<open>A bounded stack of words\<close>

text \<open>\<open>push_all\<close> pushes a list from left to right, \<open>pop_many\<close> pops \<open>n\<close> values and lists them in
  the order they come off.\<close>

primrec push_all :: "('s \<Rightarrow> 'v \<Rightarrow> 's \<times> bool) \<Rightarrow> 'v list \<Rightarrow> 's \<Rightarrow> 's option" where
  "push_all push [] s = Some s"
| "push_all push (v # vs) s =
     (let (s', ok) = push s v in if ok then push_all push vs s' else None)"

primrec pop_many :: "('s \<Rightarrow> 's \<times> 'v option) \<Rightarrow> nat \<Rightarrow> 's \<Rightarrow> ('s \<times> 'v list) option" where
  "pop_many pop 0 s = Some (s, [])"
| "pop_many pop (Suc n) s =
     (case pop s of
        (s', Some v) \<Rightarrow> map_option (\<lambda>(t, vs). (t, v # vs)) (pop_many pop n s')
      | (s', None) \<Rightarrow> None)"

locale word_stack =
  fixes contents :: "'s \<Rightarrow> 'v list"
    and room :: "'s \<Rightarrow> nat"
    and inv :: "'s \<Rightarrow> bool"
    and push :: "'s \<Rightarrow> 'v \<Rightarrow> 's \<times> bool"
    and pop :: "'s \<Rightarrow> 's \<times> 'v option"
  assumes push_room: "inv s \<Longrightarrow> 0 < room s \<Longrightarrow>
      \<exists>s'. push s v = (s', True) \<and> inv s' \<and> contents s' = contents s @ [v] \<and>
        room s = Suc (room s')"
    and push_full: "inv s \<Longrightarrow> room s = 0 \<Longrightarrow> \<not> snd (push s v)"
    and pop_snoc: "inv s \<Longrightarrow> contents s = vs @ [v] \<Longrightarrow>
      \<exists>s'. pop s = (s', Some v) \<and> inv s' \<and> contents s' = vs \<and> room s' = Suc (room s)"
    and pop_empty: "inv s \<Longrightarrow> contents s = [] \<Longrightarrow> snd (pop s) = None"
begin

lemma push_all_room:
  "inv s \<Longrightarrow> length vs \<le> room s \<Longrightarrow>
     \<exists>s'. push_all push vs s = Some s' \<and> inv s' \<and> contents s' = contents s @ vs \<and>
       room s = room s' + length vs"
proof (induction vs arbitrary: s)
  case Nil
  then show ?case by simp
next
  case (Cons v vs)
  then obtain s1 where s1: "push s v = (s1, True)" "inv s1" "contents s1 = contents s @ [v]"
    "room s = Suc (room s1)"
    using push_room [of s v] by auto
  with Cons.IH [of s1] Cons.prems show ?case by auto
qed

lemma pop_many_snoc:
  "inv s \<Longrightarrow> contents s = us @ vs \<Longrightarrow>
     \<exists>s'. pop_many pop (length vs) s = Some (s', rev vs) \<and> inv s' \<and> contents s' = us \<and>
       room s' = room s + length vs"
proof (induction vs arbitrary: s rule: rev_induct)
  case Nil
  then show ?case by simp
next
  case (snoc v vs)
  then obtain s1 where s1: "pop s = (s1, Some v)" "inv s1" "contents s1 = us @ vs"
    "room s1 = Suc (room s)"
    using pop_snoc [of s "us @ vs" v] by auto
  with snoc.IH [of s1] show ?case by auto
qed

text \<open>Last in, first out: pushing a list that fits and popping as many gives it back reversed, with
  the old contents and the old room.\<close>

lemma push_all_pop_many:
  assumes "inv s" "length vs \<le> room s"
  shows "\<exists>t s'. push_all push vs s = Some t \<and> pop_many pop (length vs) t = Some (s', rev vs) \<and>
    inv s' \<and> contents s' = contents s \<and> room s' = room s"
proof -
  from push_all_room [OF assms] obtain t where
    t: "push_all push vs s = Some t" "inv t" "contents t = contents s @ vs"
       "room s = room t + length vs" by auto
  from pop_many_snoc [OF t(2,3)] t(1,4) show ?thesis by auto
qed

text \<open>Popping a word and pushing it twice duplicates the top.\<close>

lemma duplicate_top:
  assumes "inv s" "contents s = vs @ [v]" "0 < room s"
  shows "\<exists>s1 s2 s3. pop s = (s1, Some v) \<and> push s1 v = (s2, True) \<and> push s2 v = (s3, True) \<and>
    inv s3 \<and> contents s3 = vs @ [v, v] \<and> room s = Suc (room s3)"
proof -
  from pop_snoc [OF assms(1,2)] obtain s1 where
    s1: "pop s = (s1, Some v)" "inv s1" "contents s1 = vs" "room s1 = Suc (room s)" by auto
  from push_room [OF s1(2), of v] s1 obtain s2 where
    s2: "push s1 v = (s2, True)" "inv s2" "contents s2 = vs @ [v]" "room s2 = room s" by auto
  from push_room [OF s2(2), of v] s2 assms(3) obtain s3 where
    "push s2 v = (s3, True)" "inv s3" "contents s3 = vs @ [v, v]" "room s = Suc (room s3)" by auto
  with s1 s2 show ?thesis by auto
qed

end

section \<open>The machine's stack\<close>

definition stack_used :: "vm \<Rightarrow> nat" where
  "stack_used vm = unat (reg vm R_SP) - unat (reg vm R_BP)"

text \<open>The words from the base pointer up to the stack pointer, the top last.\<close>

definition stack_words :: "vm \<Rightarrow> u32 list" where
  "stack_words vm =
     map (\<lambda>i. le_read (mem_byte vm) 4 (unat (reg vm R_BP) + 4 * i)) [0..<stack_used vm div 4]"

text \<open>How many words still fit: the 256 bytes of stack and the end of the memory both bound it.\<close>

definition stack_room :: "vm \<Rightarrow> nat" where
  "stack_room vm =
     min ((256 - stack_used vm) div 4) ((memory_end vm - unat (reg vm R_SP)) div 4)"

text \<open>Where the stack is usable: the pointers delimit a whole number of words inside memory, no
  error is recorded, and the memory ends below \<open>2 ^ 32\<close>, so that the 32-bit stack pointer can
  address its end.\<close>

definition stack_inv :: "vm \<Rightarrow> bool" where
  "stack_inv vm \<longleftrightarrow>
     wf_vm vm \<and> vm_has_no_error vm \<and>
     unat (reg vm R_BP) \<le> unat (reg vm R_SP) \<and>
     stack_used vm \<le> 256 \<and> 4 dvd stack_used vm \<and>
     unat (reg vm R_SP) \<le> memory_end vm \<and> memory_end vm \<le> WORD_MAX"

lemma used_word:
  fixes sp bp :: u32
  assumes "unat bp \<le> unat sp"
  shows "\<not> sp < bp" "unat (sp - bp) = unat sp - unat bp"
    "sp - bp < 4 \<longleftrightarrow> unat sp - unat bp < 4" "sp - bp > 256 \<longleftrightarrow> unat sp - unat bp > 256"
    "sp - bp > 252 \<longleftrightarrow> unat sp - unat bp > 252"
    "(sp - bp) mod 4 = 0 \<longleftrightarrow> 4 dvd (unat sp - unat bp)"
proof -
  show "\<not> sp < bp" using assms by (simp add: word_less_nat_alt)
  show d: "unat (sp - bp) = unat sp - unat bp"
    using assms by (simp add: unat_sub word_le_nat_alt)
  show "sp - bp < 4 \<longleftrightarrow> unat sp - unat bp < 4" "sp - bp > 256 \<longleftrightarrow> unat sp - unat bp > 256"
    "sp - bp > 252 \<longleftrightarrow> unat sp - unat bp > 252"
    by (simp_all add: word_less_nat_alt d)
  show "(sp - bp) mod 4 = 0 \<longleftrightarrow> 4 dvd (unat sp - unat bp)"
    by (simp add: word_unat_eq_iff unat_mod d dvd_eq_mod_eq_0)
qed

lemma four_dvd_cases: "4 dvd n \<Longrightarrow> n < 4 \<longleftrightarrow> n = 0" for n :: nat
  by (auto dest: dvd_imp_le)

lemma in_range_u32:
  "memory_end vm \<le> WORD_MAX \<Longrightarrow> in_range vm a n \<longleftrightarrow> a + n \<le> memory_end vm"
  by (auto simp: in_range_def limits)

lemma vm_pop_word_used:
  assumes "stack_inv vm" "stack_used vm \<noteq> 0"
  shows "vm_pop_word vm =
    (set_reg R_SP (reg vm R_SP - 4) vm,
     Some (le_read (mem_byte vm) 4 (unat (reg vm R_SP) - 4)))"
proof -
  let ?sp = "reg vm R_SP" and ?bp = "reg vm R_BP"
  from assms have inv: "unat ?bp \<le> unat ?sp" "unat ?sp - unat ?bp \<le> 256"
    "4 dvd (unat ?sp - unat ?bp)" "unat ?sp \<le> memory_end vm" "memory_end vm \<le> WORD_MAX"
    "vm_has_no_error vm" "\<not> unat ?sp - unat ?bp < 4"
    using four_dvd_cases by (auto simp: stack_inv_def stack_used_def)
  have a: "unat (?sp - 4) = unat ?sp - 4"
    using inv(7) by (subst unat_sub) (auto simp: word_le_nat_alt)
  have "in_range vm (unat ?sp - 4) 4"
    using inv by (simp add: in_range_u32)
  then have "vm_read_word vm (unat ?sp - 4) = (vm, le_read (mem_byte vm) 4 (unat ?sp - 4))"
    by (simp add: vm_read_word_def vm_read_scalar_eq ucast_le_read)
  moreover have "(of_nat (unat ?sp - 4) :: u32) = ?sp - 4"
    by (simp flip: a)
  ultimately show ?thesis
    using inv by (simp add: vm_pop_word_def vm_sizes used_word a Let_def)
qed

lemma vm_pop_word_empty:
  assumes "stack_inv vm" "stack_used vm = 0"
  shows "vm_pop_word vm = (vm_set_state S_ERR_STACK_UNDERFLOW vm, None)"
  using assms
  by (simp add: vm_pop_word_def stack_inv_def stack_used_def vm_sizes used_word Let_def)

lemma vm_push_word_room:
  assumes "stack_inv vm" "0 < stack_room vm"
  shows "vm_push_word vm v =
    (set_reg R_SP (reg vm R_SP + 4) (poke_scalar vm (unat (reg vm R_SP)) 4 (ucast v)), True)"
proof -
  let ?sp = "reg vm R_SP" and ?bp = "reg vm R_BP"
  from assms have inv: "unat ?bp \<le> unat ?sp" "4 dvd (unat ?sp - unat ?bp)"
    "memory_end vm \<le> WORD_MAX" "vm_has_no_error vm" "unat ?sp - unat ?bp \<le> 252"
    "unat ?sp + 4 \<le> memory_end vm"
    by (auto simp: stack_inv_def stack_used_def stack_room_def div_greater_zero_iff)
  then have "in_range vm (unat ?sp) 4" by (simp add: in_range_u32)
  then show ?thesis
    using inv
    by (simp add: vm_push_word_def vm_sizes used_word Let_def vm_validate_range_eq
        vm_write_word_def vm_write_scalar_eq vm_has_no_error_iff)
qed

lemma vm_push_word_full:
  assumes "stack_inv vm" "stack_room vm = 0"
  shows "\<not> snd (vm_push_word vm v)"
proof -
  let ?sp = "reg vm R_SP" and ?bp = "reg vm R_BP"
  from assms have inv: "unat ?bp \<le> unat ?sp" "memory_end vm \<le> WORD_MAX"
    by (auto simp: stack_inv_def)
  from assms consider "unat ?sp - unat ?bp > 252" | "memory_end vm < unat ?sp + 4"
    by (auto simp: stack_inv_def stack_used_def stack_room_def min_def div_eq_0_iff split: if_splits)
  then show ?thesis
  proof cases
    case 1
    then show ?thesis using inv by (simp add: vm_push_word_def vm_sizes used_word Let_def)
  next
    case 2
    then have "\<not> in_range vm (unat ?sp) 4" using inv by (simp add: in_range_u32)
    then show ?thesis by (simp add: vm_push_word_def Let_def vm_validate_range_eq)
  qed
qed

lemma room_step: "n + 4 \<le> m \<Longrightarrow> (m - n) div 4 = Suc ((m - (n + 4)) div 4)" for n m :: nat
proof -
  assume "n + 4 \<le> m"
  then have "m - n = (m - (n + 4)) + 4" by simp
  then show ?thesis by presburger
qed

lemma stack_regs [simp]:
  "register_index R_SP \<noteq> register_index R_BP" "register_index R_BP \<noteq> register_index R_SP"
  by simp_all

lemma stack_push_law:
  assumes "stack_inv vm" "0 < stack_room vm"
  shows "\<exists>vm'. vm_push_word vm v = (vm', True) \<and> stack_inv vm' \<and>
    stack_words vm' = stack_words vm @ [v] \<and> stack_room vm = Suc (stack_room vm')"
proof -
  let ?sp = "reg vm R_SP" and ?bp = "reg vm R_BP"
  let ?p = "poke_scalar vm (unat ?sp) 4 (ucast v)"
  let ?vm' = "set_reg R_SP (?sp + 4) ?p"
  from assms have inv: "wf_vm vm" "vm_has_no_error vm" "unat ?bp \<le> unat ?sp"
    "4 dvd stack_used vm" "memory_end vm \<le> WORD_MAX" "stack_used vm \<le> 252"
    "unat ?sp + 4 \<le> memory_end vm"
    by (auto simp: stack_inv_def stack_room_def div_greater_zero_iff)
  have sp: "unat (?sp + 4) = unat ?sp + 4"
    using inv by (subst unat_word_ariths) (simp add: limits)
  have r: "in_range vm (unat ?sp) 4" using inv by (simp add: in_range_u32)
  have used: "stack_used ?vm' = stack_used vm + 4"
    using inv sp by (simp add: stack_used_def)
  have "le_read (mem_byte ?p) 4 (unat ?bp + 4 * i) = (le_read (mem_byte vm) 4 (unat ?bp + 4 * i) :: u32)"
    if "i < stack_used vm div 4" for i
    using inv r that by (intro le_read_poke_scalar_other) (auto simp: stack_used_def in_range_u32)
  moreover have "unat ?bp + 4 * (stack_used vm div 4) = unat ?sp"
    using inv by (simp add: stack_used_def)
  moreover have "(le_read (mem_byte ?p) 4 (unat ?sp) :: u32) = v"
    using inv r by (simp add: le_read_poke_scalar take_bit_u64_u32)
  moreover have "mem_byte ?vm' = mem_byte ?p"
    by (rule ext) (simp add: mem_byte_def)
  ultimately have w: "stack_words ?vm' = stack_words vm @ [v]"
    using inv used by (simp add: stack_words_def)
  have me: "memory_end ?vm' = memory_end vm"
    by (simp add: memory_end_def)
  have "stack_inv ?vm'"
    using inv used sp me by (simp add: stack_inv_def vm_has_no_error_iff)
  moreover have "stack_room vm = Suc (stack_room ?vm')"
    using inv used sp me room_step [of "stack_used vm" 256] room_step [of "unat ?sp" "memory_end vm"]
    by (simp add: stack_room_def)
  ultimately show ?thesis
    using vm_push_word_room [OF assms] w by blast
qed

lemma stack_words_Nil_iff: "stack_inv vm \<Longrightarrow> stack_words vm = [] \<longleftrightarrow> stack_used vm = 0"
  by (auto simp: stack_words_def stack_inv_def)

lemma stack_pop_law:
  assumes "stack_inv vm" "stack_words vm = ws @ [w]"
  shows "\<exists>vm'. vm_pop_word vm = (vm', Some w) \<and> stack_inv vm' \<and> stack_words vm' = ws \<and>
    stack_room vm' = Suc (stack_room vm)"
proof -
  let ?sp = "reg vm R_SP" and ?bp = "reg vm R_BP"
  let ?vm' = "set_reg R_SP (?sp - 4) vm"
  have nz: "stack_used vm \<noteq> 0" using stack_words_Nil_iff [OF assms(1)] assms(2) by auto
  from assms have inv: "wf_vm vm" "vm_has_no_error vm" "unat ?bp \<le> unat ?sp"
    "4 dvd stack_used vm" "memory_end vm \<le> WORD_MAX" "stack_used vm \<le> 256"
    "unat ?sp \<le> memory_end vm"
    by (auto simp: stack_inv_def)
  have used4: "4 \<le> stack_used vm" using nz inv(4) by (auto dest: dvd_imp_le)
  then have bp: "unat ?bp + 4 \<le> unat ?sp" by (simp add: stack_used_def)
  have sp: "unat (?sp - 4) = unat ?sp - 4"
    using bp by (subst unat_sub) (auto simp: word_le_nat_alt)
  have used: "stack_used ?vm' = stack_used vm - 4"
    using inv sp by (simp add: stack_used_def)
  obtain k where k: "stack_used vm div 4 = Suc k" "unat ?sp - 4 = unat ?bp + 4 * k"
    "stack_used ?vm' div 4 = k"
  proof -
    obtain m where m: "stack_used vm = 4 * m" using inv(4) by (auto elim: dvdE)
    then obtain k where "m = Suc k" using used4 by (cases m) auto
    then show thesis using that [of k] m used bp by (simp add: stack_used_def)
  qed
  have mb: "mem_byte ?vm' = mem_byte vm"
    by (rule ext) (simp add: mem_byte_def)
  have "stack_words vm = stack_words ?vm' @ [le_read (mem_byte vm) 4 (unat ?sp - 4)]"
    using inv k mb by (simp add: stack_words_def)
  with assms(2) have w: "stack_words ?vm' = ws" "le_read (mem_byte vm) 4 (unat ?sp - 4) = w"
    by auto
  have me: "memory_end ?vm' = memory_end vm"
    by (simp add: memory_end_def)
  have "unat ?bp \<le> unat ?sp - 4" "stack_used vm - 4 \<le> 256" "unat ?sp - 4 \<le> memory_end vm"
    using bp inv by linarith+
  then have "stack_inv ?vm'"
    using inv used sp me by (simp add: stack_inv_def vm_has_no_error_iff)
  moreover have "stack_room ?vm' = Suc (stack_room vm)"
    using inv used used4 sp me bp room_step [of "stack_used vm - 4" 256]
      room_step [of "unat ?sp - 4" "memory_end vm"]
    by (simp add: stack_room_def)
  ultimately show ?thesis
    using vm_pop_word_used [OF assms(1) nz] w by auto
qed

interpretation vms: word_stack stack_words stack_room stack_inv vm_push_word vm_pop_word
proof unfold_locales
  show "\<not> snd (vm_push_word vm v)" if "stack_inv vm" "stack_room vm = 0" for vm v
    using that by (rule vm_push_word_full)
  show "snd (vm_pop_word vm) = None" if "stack_inv vm" "stack_words vm = []" for vm
    using that by (simp add: vm_pop_word_empty stack_words_Nil_iff)
qed (rule stack_push_law stack_pop_law; assumption)+

text \<open>C37: the machine's stack is last in, first out: from a usable stack, pushing a list of words that
  fits and popping as many returns them reversed and restores the stack's words and room.\<close>

theorem vm_stack_lifo:
  assumes "stack_inv vm" "length ws \<le> stack_room vm"
  shows "\<exists>t vm'. push_all vm_push_word ws vm = Some t \<and>
    pop_many vm_pop_word (length ws) t = Some (vm', rev ws) \<and> stack_inv vm' \<and>
    stack_words vm' = stack_words vm \<and> stack_room vm' = stack_room vm"
  using vms.push_all_pop_many [OF assms] by auto

text \<open>A failing push or pop reports it in the execution state and changes nothing else: stack
  underflow for a pop and overflow for a push whose pointers do not delimit a legal stack, out of
  memory where they do but the word lies outside the memory.\<close>

theorem vm_stack_failure:
  assumes "vm_has_no_error vm"
  shows "(snd (vm_pop_word vm) = None \<longrightarrow>
      fst (vm_pop_word vm) = vm_set_state S_ERR_STACK_UNDERFLOW vm \<or>
      fst (vm_pop_word vm) = vm_set_state S_ERR_OUT_OF_MEMORY vm) \<and>
    (\<not> snd (vm_push_word vm v) \<longrightarrow>
      fst (vm_push_word vm v) = vm_set_state S_ERR_STACK_OVERFLOW vm \<or>
      fst (vm_push_word vm v) = vm_set_state S_ERR_OUT_OF_MEMORY vm)"
  using assms
  by (auto simp: vm_pop_word_def vm_push_word_def Let_def vm_validate_range_eq vm_read_word_def
      vm_write_word_def vm_read_scalar_eq vm_write_scalar_eq vm_has_no_error_iff)

end
