(* ===== verification/Execute.thy ===== *)
theory Execute
  imports Stack
begin

text \<open>
  The processor of \<^verbatim>\<open>emulator/src/VirtualMachineInternal.c\<close>: conditions, arithmetic with flags,
  host interrupts, the execution of one instruction, fetching and the run loop. One definition per
  C function; the switch of \<^verbatim>\<open>vm_run_instruction\<close> is \<open>vm_execute\<close>, with one case per opcode.
\<close>

section \<open>Conditions\<close>

text \<open>\<^verbatim>\<open>vm_check_condition\<close>; a condition number without an enumerator sets the error state.\<close>

definition condition_holds :: "cpsr \<Rightarrow> condition \<Rightarrow> bool" where
  "condition_holds c k =
     (case k of
        C_UNCONDITIONAL \<Rightarrow> True
      | C_ZERO_SET \<Rightarrow> cpsr_Z c
      | C_ZERO_CLEAR \<Rightarrow> \<not> cpsr_Z c
      | C_NEGATIVE_SET \<Rightarrow> cpsr_N c
      | C_NEGATIVE_CLEAR \<Rightarrow> \<not> cpsr_N c
      | C_OVERFLOW_SET \<Rightarrow> cpsr_V c
      | C_OVERFLOW_CLEAR \<Rightarrow> \<not> cpsr_V c
      | C_CARRY_SET \<Rightarrow> cpsr_C c
      | C_CARRY_CLEAR \<Rightarrow> \<not> cpsr_C c
      | C_SIGNED_SET \<Rightarrow> cpsr_S c
      | C_SIGNED_CLEAR \<Rightarrow> \<not> cpsr_S c
      | C_UNSIGNED_HIGHER \<Rightarrow> cpsr_C c \<and> \<not> cpsr_Z c
      | C_UNSIGNED_LOWER_OR_SAME \<Rightarrow> \<not> cpsr_C c \<or> cpsr_Z c
      | C_LESS \<Rightarrow> cpsr_N c \<noteq> cpsr_V c
      | C_LESS_OR_EQUALS \<Rightarrow> cpsr_Z c \<or> cpsr_N c \<noteq> cpsr_V c
      | C_GREATER \<Rightarrow> \<not> (cpsr_Z c \<or> cpsr_N c \<noteq> cpsr_V c)
      | C_GREATER_OR_EQUALS \<Rightarrow> \<not> (cpsr_N c \<noteq> cpsr_V c))"

definition vm_check_condition :: "vm \<Rightarrow> u32 \<Rightarrow> vm \<times> bool" where
  "vm_check_condition vm cond =
     (case condition_of cond of
        None \<Rightarrow> (vm_set_state S_ERR_INVALID_CONDITION vm, False)
      | Some k \<Rightarrow> (vm, condition_holds (vm_cpsr vm) k))"

section \<open>Arithmetic\<close>

definition vm_do_operation :: "vm \<Rightarrow> operation \<Rightarrow> u32 \<Rightarrow> u32 \<Rightarrow> vm" where
  "vm_do_operation vm op left right =
     (if is_division op \<and> right = 0 then vm_set_state S_ERR_DIVISION_BY_ZERO vm
      else let a = alu_compute ((vm_alu vm)\<lparr>alu_op := op, alu_left := left, alu_right := right\<rparr>)
           in vm\<lparr>vm_alu := a,
                 vm_cpsr := (vm_cpsr vm)\<lparr>cpsr_N := flag_N (alu_fl a), cpsr_Z := flag_Z (alu_fl a),
                    cpsr_V := flag_V (alu_fl a), cpsr_C := flag_C (alu_fl a),
                    cpsr_S := flag_S (alu_fl a)\<rparr>\<rparr>)"

section \<open>Interrupts and system calls\<close>

text \<open>\<^verbatim>\<open>fputc\<close> writes its argument as an unsigned char.\<close>

definition fputc :: "u8 \<Rightarrow> vm \<Rightarrow> vm" where
  "fputc b vm = vm\<lparr>vm_stdout := vm_stdout vm @ [b]\<rparr>"

text \<open>\<^verbatim>\<open>(word)fgetc(stdin)\<close>: the next byte, or \<^verbatim>\<open>EOF\<close>, which is \<open>-1\<close>.\<close>

definition fgetc_word :: "vm \<Rightarrow> vm \<times> u32" where
  "fgetc_word vm =
     (case vm_stdin vm of
        [] \<Rightarrow> (vm, - 1)
      | b # bs \<Rightarrow> (vm\<lparr>vm_stdin := bs\<rparr>, ucast b))"

definition vm_interrupt :: "vm \<Rightarrow> u32 \<Rightarrow> vm" where
  "vm_interrupt vm code =
     (if code = 0x01 then fputc (ucast (reg vm R_A0) + 0x60) vm
      else if code = 0x02 then fputc (ucast (reg vm R_A0)) vm
      else if code = 0x10 then (let (vm, w) = fgetc_word vm in set_reg R_V0 w vm)
      else if code = 0xFF then vm_set_state S_HALTED vm
      else vm)"

text \<open>No service exists: the switch on \<^verbatim>\<open>$sc\<close> has only its empty default.\<close>

definition vm_syscall :: "vm \<Rightarrow> vm" where
  "vm_syscall vm = vm"

section \<open>Loads and stores\<close>

text \<open>The shared shape of the six memory instructions: nothing happens when the effective address
  is refused.\<close>

definition vm_load ::
  "(vm \<Rightarrow> nat \<Rightarrow> vm \<times> 'w::len word) \<Rightarrow> nat \<Rightarrow> (u32 \<Rightarrow> u32) \<Rightarrow> vm \<Rightarrow> instruction \<Rightarrow> vm" where
  "vm_load rd sz keep vm ins =
     (let r1 = unat (register1 ins); r2 = unat (register2 ins) in
      case vm_effective_address vm (vm_registers vm ! r2) (immediate ins) sz of
        (vm, None) \<Rightarrow> vm
      | (vm, Some address) \<Rightarrow>
          let old = keep (vm_registers vm ! r1); (vm, v) = rd vm address
          in set_register r1 (old OR ucast v) vm)"

definition vm_store ::
  "(vm \<Rightarrow> nat \<Rightarrow> 'w::len word \<Rightarrow> vm) \<Rightarrow> nat \<Rightarrow> vm \<Rightarrow> instruction \<Rightarrow> vm" where
  "vm_store wr sz vm ins =
     (let r1 = unat (register1 ins); r2 = unat (register2 ins) in
      case vm_effective_address vm (vm_registers vm ! r2) (immediate ins) sz of
        (vm, None) \<Rightarrow> vm
      | (vm, Some address) \<Rightarrow> wr vm address (ucast (vm_registers vm ! r1)))"

section \<open>One instruction\<close>

text \<open>
  The switch of \<^verbatim>\<open>vm_run_instruction\<close>: the machine after the case and its \<^verbatim>\<open>write_alu_result\<close>.
  \<open>v1\<close> and \<open>v2\<close> are the registers' words before the case; \<^verbatim>\<open>vm_run_instruction\<close> has checked both
  indices. The default case is \<^verbatim>\<open>None\<close> in \<open>vm_switch\<close> below.
\<close>

definition vm_execute :: "vm \<Rightarrow> instruction \<Rightarrow> opcode \<Rightarrow> vm \<times> bool" where
  "vm_execute vm ins op =
   (let r1 = unat (register1 ins); r2 = unat (register2 ins);
        v1 = vm_registers vm ! r1; v2 = vm_registers vm ! r2; imm = immediate ins
    in case op of
       NOP \<Rightarrow> (vm, False)
     | POPR \<Rightarrow> (case vm_pop_word vm of (vm, Some value) \<Rightarrow> (set_register r1 value vm, False)
                   | (vm, None) \<Rightarrow> (vm, False))
     | POP \<Rightarrow> (fst (vm_pop_word vm), False)
     | PUSHR \<Rightarrow> (fst (vm_push_word vm v1), False)
     | PUSHI \<Rightarrow> (fst (vm_push_word vm imm), False)
     | DUP \<Rightarrow> (case vm_pop_word vm of
                    (vm, Some value) \<Rightarrow>
                      (fst (vm_push_word (fst (vm_push_word vm value)) value), False)
                  | (vm, None) \<Rightarrow> (vm, False))
     | MOVR \<Rightarrow> (set_register r1 v2 vm, False)
     | MOVI \<Rightarrow> (set_register r1 imm vm, False)
     | ADDR \<Rightarrow> (vm_do_operation vm OP_ADD v1 v2, True)
     | SUBR \<Rightarrow> (vm_do_operation vm OP_SUB v1 v2, True)
     | MULR \<Rightarrow> (vm_do_operation vm OP_MUL v1 v2, True)
     | DIVR \<Rightarrow> (vm_do_operation vm OP_DIV v1 v2, True)
     | MODR \<Rightarrow> (vm_do_operation vm OP_MOD v1 v2, True)
     | ADDI \<Rightarrow> (vm_do_operation vm OP_ADD v1 imm, True)
     | SUBI \<Rightarrow> (vm_do_operation vm OP_SUB v1 imm, True)
     | MULI \<Rightarrow> (vm_do_operation vm OP_MUL v1 imm, True)
     | DIVI \<Rightarrow> (vm_do_operation vm OP_DIV v1 imm, True)
     | MODI \<Rightarrow> (vm_do_operation vm OP_MOD v1 imm, True)
     | ADDSR \<Rightarrow> (vm_do_operation vm OP_SADD v1 v2, True)
     | SUBSR \<Rightarrow> (vm_do_operation vm OP_SSUB v1 v2, True)
     | MULSR \<Rightarrow> (vm_do_operation vm OP_SMUL v1 v2, True)
     | DIVSR \<Rightarrow> (vm_do_operation vm OP_SDIV v1 v2, True)
     | MODSR \<Rightarrow> (vm_do_operation vm OP_SMOD v1 v2, True)
     | ADDSI \<Rightarrow> (vm_do_operation vm OP_SADD v1 imm, True)
     | SUBSI \<Rightarrow> (vm_do_operation vm OP_SSUB v1 imm, True)
     | MULSI \<Rightarrow> (vm_do_operation vm OP_SMUL v1 imm, True)
     | DIVSI \<Rightarrow> (vm_do_operation vm OP_SDIV v1 imm, True)
     | MODSI \<Rightarrow> (vm_do_operation vm OP_SMOD v1 imm, True)
     | NOT' \<Rightarrow> (vm_do_operation vm OP_NOT v1 0, True)
     | ANDR \<Rightarrow> (vm_do_operation vm OP_AND v1 v2, True)
     | ORR \<Rightarrow> (vm_do_operation vm OP_OR v1 v2, True)
     | XORR \<Rightarrow> (vm_do_operation vm OP_XOR v1 v2, True)
     | NANDR \<Rightarrow> (vm_do_operation vm OP_NAND v1 v2, True)
     | NORR \<Rightarrow> (vm_do_operation vm OP_NOR v1 v2, True)
     | ANDI \<Rightarrow> (vm_do_operation vm OP_AND v1 imm, True)
     | ORI \<Rightarrow> (vm_do_operation vm OP_OR v1 imm, True)
     | XORI \<Rightarrow> (vm_do_operation vm OP_XOR v1 imm, True)
     | NANDI \<Rightarrow> (vm_do_operation vm OP_NAND v1 imm, True)
     | NORI \<Rightarrow> (vm_do_operation vm OP_NOR v1 imm, True)
     | INC \<Rightarrow> (vm_do_operation vm OP_INC v1 0, True)
     | DEC \<Rightarrow> (vm_do_operation vm OP_DEC v1 0, True)
     | LOADB \<Rightarrow> (vm_load vm_read_byte 1 (\<lambda>w. w AND NOT 0xFF) vm ins, False)
     | LOADH \<Rightarrow> (vm_load vm_read_hword 2 (\<lambda>w. w AND NOT 0xFFFF) vm ins, False)
     | LOADW \<Rightarrow> (vm_load vm_read_word 4 (\<lambda>_. 0) vm ins, False)
     | STOREB \<Rightarrow> (vm_store vm_write_byte 1 vm ins, False)
     | STOREH \<Rightarrow> (vm_store vm_write_hword 2 vm ins, False)
     | STOREW \<Rightarrow> (vm_store vm_write_word 4 vm ins, False)
     | INT' \<Rightarrow> (vm_interrupt vm imm, False)
     | SYSCALL \<Rightarrow> (vm_syscall vm, False)
     | JMPAL \<Rightarrow> (set_reg R_PC imm (set_reg R_LP (reg vm R_PC) vm), False)
     | JMP \<Rightarrow> (set_reg R_PC imm vm, False)
     | RET \<Rightarrow> (set_reg R_PC (reg vm R_LP) vm, False)
     | CMPI \<Rightarrow> (vm_do_operation vm OP_SUB v1 imm, False)
     | CMPR \<Rightarrow> (vm_do_operation vm OP_SUB v1 v2, False)
     | CMPSI \<Rightarrow> (vm_do_operation vm OP_SSUB v1 imm, False)
     | CMPSR \<Rightarrow> (vm_do_operation vm OP_SSUB v1 v2, False))"

definition vm_switch :: "vm \<Rightarrow> instruction \<Rightarrow> vm \<times> bool" where
  "vm_switch vm ins =
     (case opcode_of (ins_opcode ins) of
        Some op \<Rightarrow> vm_execute vm ins op
      | None \<Rightarrow> (vm_set_state S_ERR_INVALID_OPCODE vm, False))"

text \<open>What follows the switch: the ALU result goes to the first register unless an error is
  recorded, \<^verbatim>\<open>$zero\<close> is cleared, and a used ALU is reset.\<close>

definition vm_finish :: "vm \<Rightarrow> instruction \<Rightarrow> bool \<Rightarrow> vm" where
  "vm_finish vm ins write_alu_result =
     (let vm = (if write_alu_result \<and> vm_has_no_error vm
                then set_register (unat (register1 ins)) (ucast (alu_res (vm_alu vm))) vm else vm);
          vm = set_reg R_ZERO 0 vm
      in if alu_op (vm_alu vm) \<noteq> OP_NOOP then vm\<lparr>vm_alu := alu_reset (vm_alu vm)\<rparr> else vm)"

definition vm_run_instruction :: "vm \<Rightarrow> instruction \<Rightarrow> vm" where
  "vm_run_instruction vm ins =
     (let vm = set_reg R_ZERO 0 vm;
          (vm, taken) = vm_check_condition vm (ins_condition ins)
      in if \<not> taken then vm
         else if unat (register1 ins) \<ge> ZLVM_REGISTER_COUNT \<or>
                 unat (register2 ins) \<ge> ZLVM_REGISTER_COUNT
         then vm_set_state S_ERR_INVALID_OPCODE vm
         else let (vm, write_alu_result) = vm_switch vm ins
              in vm_finish vm ins write_alu_result)"

section \<open>What every operation keeps\<close>

text \<open>The relation between a machine and the machine after any operation: sizes, entry point and
  well-formedness stay, and a recorded error stays the same error.\<close>

definition keeps :: "vm \<Rightarrow> vm \<Rightarrow> bool" where
  "keeps vm vm' \<longleftrightarrow>
     vm_memorySize vm' = vm_memorySize vm \<and> vm_entryPoint vm' = vm_entryPoint vm \<and>
     (wf_vm vm \<longrightarrow> wf_vm vm') \<and>
     (is_error (vm_get_state vm) \<longrightarrow> vm_get_state vm' = vm_get_state vm)"

lemma keeps_refl [wf_intros]: "keeps vm vm"
  by (simp add: keeps_def)

lemma keeps_trans: "keeps a b \<Longrightarrow> keeps b c \<Longrightarrow> keeps a c"
  by (simp add: keeps_def)

lemma keeps_same:
  assumes "keeps a b" "vm_memorySize c = vm_memorySize b" "vm_entryPoint c = vm_entryPoint b"
    "wf_vm b \<Longrightarrow> wf_vm c" "is_error (vm_get_state b) \<Longrightarrow> vm_get_state c = vm_get_state b"
  shows "keeps a c"
  using assms by (auto simp: keeps_def)

lemma wf_vm_updates [simp]:
  "wf_vm (vm\<lparr>vm_alu := x\<rparr>) = wf_vm vm"
  "wf_vm (vm\<lparr>vm_cpsr := c\<rparr>) = wf_vm vm"
  "wf_vm (vm\<lparr>vm_stdin := i\<rparr>) = wf_vm vm"
  "wf_vm (vm\<lparr>vm_stdout := i\<rparr>) = wf_vm vm"
  by (simp_all add: wf_vm_def)

lemma vm_get_state_updates [simp]:
  "vm_get_state (vm\<lparr>vm_alu := x\<rparr>) = vm_get_state vm"
  "vm_get_state (vm\<lparr>vm_stdin := i\<rparr>) = vm_get_state vm"
  "vm_get_state (vm\<lparr>vm_stdout := i\<rparr>) = vm_get_state vm"
  "vm_get_state (vm\<lparr>vm_cpsr := c\<rparr>) = cpsr_ST c"
  "vm_get_state (poke vm a v) = vm_get_state vm"
  by (simp_all add: vm_get_state_def)

lemma keeps_then [wf_intros]:
  "keeps a b \<Longrightarrow> keeps a (set_register n v b)"
  "keeps a b \<Longrightarrow> keeps a (vm_set_state s b)"
  "keeps a b \<Longrightarrow> keeps a (poke_scalar b x n d)"
  "keeps a b \<Longrightarrow> keeps a (poke b x e)"
  "keeps a b \<Longrightarrow> keeps a (fputc e b)"
  "keeps a b \<Longrightarrow> keeps a (fst (fgetc_word b))"
  "keeps a b \<Longrightarrow> keeps a (b\<lparr>vm_alu := x'\<rparr>)"
  by (erule keeps_same; simp add: vm_get_set_state fputc_def fgetc_word_def split: list.split)+

lemma keeps_do_operation [wf_intros]: "keeps a b \<Longrightarrow> keeps a (vm_do_operation b op l r)"
  by (erule keeps_same; simp add: vm_do_operation_def Let_def vm_get_set_state)
     (simp_all add: vm_get_state_def)

lemma keeps_if [wf_intros]:
  "(P \<Longrightarrow> keeps a b) \<Longrightarrow> (\<not> P \<Longrightarrow> keeps a c) \<Longrightarrow> keeps a (if P then b else c)"
  by simp

lemma keeps_pop [wf_intros]: "keeps a b \<Longrightarrow> keeps a (fst (vm_pop_word b))"
  by (simp add: vm_pop_word_def Let_def vm_read_word_def vm_read_scalar_eq wf_intros)

lemma keeps_push [wf_intros]: "keeps a b \<Longrightarrow> keeps a (fst (vm_push_word b v))"
  by (simp add: vm_push_word_def Let_def vm_write_word_def vm_write_scalar_eq vm_validate_range_eq
      wf_intros)

lemma keeps_interrupt [wf_intros]: "keeps a b \<Longrightarrow> keeps a (vm_interrupt b c)"
  by (simp add: vm_interrupt_def Let_def case_prod_beta wf_intros)

lemma vm_read_eqs:
  "vm_read_byte vm a = (if in_range vm a 1 then (vm, le_read (mem_byte vm) 1 a)
     else (vm_set_state S_ERR_OUT_OF_MEMORY vm, 0))"
  "vm_read_hword vm a = (if in_range vm a 2 then (vm, le_read (mem_byte vm) 2 a)
     else (vm_set_state S_ERR_OUT_OF_MEMORY vm, 0))"
  "vm_read_word vm a = (if in_range vm a 4 then (vm, le_read (mem_byte vm) 4 a)
     else (vm_set_state S_ERR_OUT_OF_MEMORY vm, 0))"
  by (simp_all add: vm_read_byte_eq vm_read_hword_def vm_read_word_def vm_read_scalar_eq ucast_le_read
      le_read_Suc [of _ 0, simplified])

lemma ucast_u8_u64 [simp]: "ucast (ucast (v :: u8) :: u64) = v"
  by (rule bit_word_eqI) (auto simp: bit_simps)

lemma poke_scalar_1: "poke_scalar vm a 1 (ucast (v :: u8)) = poke vm a v"
  by (simp add: poke_scalar_def le_write_Suc [of _ 0, simplified] le_byte_def)

lemma vm_write_eqs:
  "vm_write_byte vm a b = (if in_range vm a 1 then poke_scalar vm a 1 (ucast b)
     else vm_set_state S_ERR_OUT_OF_MEMORY vm)"
  "vm_write_hword vm a h = (if in_range vm a 2 then poke_scalar vm a 2 (ucast h)
     else vm_set_state S_ERR_OUT_OF_MEMORY vm)"
  "vm_write_word vm a w = (if in_range vm a 4 then poke_scalar vm a 4 (ucast w)
     else vm_set_state S_ERR_OUT_OF_MEMORY vm)"
  by (simp_all add: vm_write_byte_eq vm_write_hword_def vm_write_word_def vm_write_scalar_eq
      poke_scalar_1 [simplified])

text \<open>The address an instruction computes: the second register plus the immediate, unbounded.\<close>

definition effective :: "vm \<Rightarrow> instruction \<Rightarrow> nat" where
  "effective vm ins = unat (vm_registers vm ! unat (register2 ins)) + unat (immediate ins)"

lemma vm_load_eq:
  fixes rd :: "vm \<Rightarrow> nat \<Rightarrow> vm \<times> 'w::len word"
  assumes "\<And>vm a. rd vm a = (if in_range vm a n then (vm, le_read (mem_byte vm) n a)
     else (vm_set_state S_ERR_OUT_OF_MEMORY vm, 0))" and "n * 8 \<le> LENGTH('w)"
  shows "vm_load rd n kp vm ins =
    (if in_range vm (effective vm ins) n
     then set_register (unat (register1 ins))
       (kp (vm_registers vm ! unat (register1 ins)) OR le_read (mem_byte vm) n (effective vm ins)) vm
     else vm_set_state S_ERR_OUT_OF_MEMORY vm)"
  using assms(2)
  by (simp add: vm_load_def vm_effective_address_eq assms(1) effective_def Let_def ucast_le_read)

lemma vm_store_eq:
  fixes wr :: "vm \<Rightarrow> nat \<Rightarrow> 'w::len word \<Rightarrow> vm"
  assumes "\<And>vm a v. wr vm a v = (if in_range vm a n then poke_scalar vm a n (ucast v)
     else vm_set_state S_ERR_OUT_OF_MEMORY vm)"
  shows "vm_store wr n vm ins =
    (if in_range vm (effective vm ins) n
     then poke_scalar vm (effective vm ins) n
       (ucast (ucast (vm_registers vm ! unat (register1 ins)) :: 'w word))
     else vm_set_state S_ERR_OUT_OF_MEMORY vm)"
  by (simp add: vm_store_def vm_effective_address_eq assms(1) effective_def Let_def)

lemmas vm_load_eqs = vm_load_eq [OF vm_read_eqs(1), simplified] vm_load_eq [OF vm_read_eqs(2), simplified]
  vm_load_eq [OF vm_read_eqs(3), simplified]

lemmas vm_store_eqs = vm_store_eq [OF vm_write_eqs(1)] vm_store_eq [OF vm_write_eqs(2)]
  vm_store_eq [OF vm_write_eqs(3)]

lemma keeps_load [wf_intros]:
  "keeps a b \<Longrightarrow> keeps a (vm_load vm_read_byte 1 kp b ins)"
  "keeps a b \<Longrightarrow> keeps a (vm_load vm_read_hword 2 kp b ins)"
  "keeps a b \<Longrightarrow> keeps a (vm_load vm_read_word 4 kp b ins)"
  by (simp_all add: vm_load_eqs [simplified] wf_intros)

lemma keeps_store [wf_intros]:
  "keeps a b \<Longrightarrow> keeps a (vm_store vm_write_byte 1 b ins)"
  "keeps a b \<Longrightarrow> keeps a (vm_store vm_write_hword 2 b ins)"
  "keeps a b \<Longrightarrow> keeps a (vm_store vm_write_word 4 b ins)"
  by (simp_all only: vm_store_eqs wf_intros keeps_if)

lemma keeps_execute [wf_intros]: "keeps a b \<Longrightarrow> keeps a (fst (vm_execute b ins op))"
proof -
  assume k: "keeps a b"
  then have "keeps a x1" if "vm_pop_word b = (x1, v)" for x1 v
    using keeps_pop [of a b] that by simp
  with k show ?thesis
    by (cases op)
       (simp_all add: vm_execute_def Let_def vm_syscall_def wf_intros [simplified]
        split: prod.split option.split)
qed

lemma keeps_switch [wf_intros]: "keeps a b \<Longrightarrow> keeps a (fst (vm_switch b ins))"
  by (simp add: vm_switch_def wf_intros split: option.split)

lemma keeps_finish [wf_intros]: "keeps a b \<Longrightarrow> keeps a (vm_finish b ins w)"
  by (simp add: vm_finish_def Let_def wf_intros)

lemma keeps_check_condition [wf_intros]: "keeps a b \<Longrightarrow> keeps a (fst (vm_check_condition b c))"
  by (simp add: vm_check_condition_def wf_intros split: option.split)

lemma keeps_run_instruction [wf_intros]: "keeps a b \<Longrightarrow> keeps a (vm_run_instruction b ins)"
  by (simp add: vm_run_instruction_def Let_def case_prod_beta wf_intros)

section \<open>One instruction, unfolded\<close>

text \<open>The instruction reaches case \<open>op\<close> of the switch.\<close>

definition executes :: "vm \<Rightarrow> instruction \<Rightarrow> opcode \<Rightarrow> bool" where
  "executes vm ins op \<longleftrightarrow>
     snd (vm_check_condition vm (ins_condition ins)) \<and>
     unat (register1 ins) < ZLVM_REGISTER_COUNT \<and> unat (register2 ins) < ZLVM_REGISTER_COUNT \<and>
     opcode_of (ins_opcode ins) = Some op"

lemma vm_check_condition_fst:
  "snd (vm_check_condition vm c) \<Longrightarrow> fst (vm_check_condition vm c) = vm"
  by (simp add: vm_check_condition_def split: option.splits)

lemma vm_check_condition_set_register [simp]:
  "snd (vm_check_condition (set_register n v vm) c) = snd (vm_check_condition vm c)"
  by (simp add: vm_check_condition_def split: option.splits)

lemma vm_run_instruction_executes:
  assumes "executes vm ins op"
  shows "vm_run_instruction vm ins =
    (let (vm', w) = vm_execute (set_reg R_ZERO 0 vm) ins op in vm_finish vm' ins w)"
proof -
  let ?z = "set_reg R_ZERO 0 vm"
  have "vm_check_condition ?z (ins_condition ins) = (?z, True)"
    using assms vm_check_condition_fst [of ?z "ins_condition ins"]
    by (simp add: executes_def prod_eq_iff)
  then show ?thesis
    using assms by (simp add: vm_run_instruction_def executes_def vm_switch_def case_prod_beta Let_def)
qed

lemma reg_set_reg:
  "wf_vm vm \<Longrightarrow> reg (set_reg r v vm) q = (if q = r then v else reg vm q)"
  by (simp add: nth_list_update)

lemma finish_regs:
  "vm_registers (vm_finish vm ins w) =
     (if w \<and> vm_has_no_error vm
      then (vm_registers vm)[unat (register1 ins) := ucast (alu_res (vm_alu vm))]
      else vm_registers vm)[register_index R_ZERO := 0]"
  by (auto simp: vm_finish_def Let_def)

lemma finish_fields [simp]:
  "vm_rom (vm_finish vm ins w) = vm_rom vm"
  "vm_memory (vm_finish vm ins w) = vm_memory vm"
  "vm_cpsr (vm_finish vm ins w) = vm_cpsr vm"
  "vm_memorySize (vm_finish vm ins w) = vm_memorySize vm"
  "vm_entryPoint (vm_finish vm ins w) = vm_entryPoint vm"
  "vm_stdin (vm_finish vm ins w) = vm_stdin vm"
  "vm_stdout (vm_finish vm ins w) = vm_stdout vm"
  "vm_get_state (vm_finish vm ins w) = vm_get_state vm"
  "alu_op (vm_alu (vm_finish vm ins w)) = OP_NOOP"
  by (simp_all add: vm_finish_def Let_def alu_reset_def vm_get_state_def)

lemma vm_run_instruction_zero:
  assumes "wf_vm vm"
  shows "reg (vm_run_instruction vm ins) R_ZERO = 0"
proof -
  let ?z = "set_reg R_ZERO 0 vm"
  have z: "reg (fst (vm_check_condition ?z c)) R_ZERO = 0" for c
    using assms by (simp add: vm_check_condition_def reg_set_reg split: option.split)
  have "reg (vm_finish b ins w) R_ZERO = 0" if "keeps vm b" for b w
    using that assms by (simp add: finish_regs keeps_def)
  moreover have "keeps vm (fst (vm_switch (fst (vm_check_condition ?z (ins_condition ins))) ins))"
    by (intro keeps_switch keeps_check_condition keeps_then keeps_refl)
  ultimately show ?thesis
    using z by (simp add: vm_run_instruction_def Let_def case_prod_beta)
qed

text \<open>C34: executing any instruction word in any machine keeps the machine well formed, its memory
  size and its entry point, and leaves the register \<open>$zero\<close> at zero; an error already recorded
  stays the same error.\<close>

theorem vm_run_instruction_keeps:
  assumes "wf_vm vm"
  shows "wf_vm (vm_run_instruction vm ins) \<and>
    reg (vm_run_instruction vm ins) R_ZERO = 0 \<and>
    vm_memorySize (vm_run_instruction vm ins) = vm_memorySize vm \<and>
    vm_entryPoint (vm_run_instruction vm ins) = vm_entryPoint vm \<and>
    (is_error (vm_get_state vm) \<longrightarrow>
      vm_get_state (vm_run_instruction vm ins) = vm_get_state vm)"
  using assms keeps_run_instruction [OF keeps_refl, of vm ins] vm_run_instruction_zero [OF assms]
  by (simp add: keeps_def)

text \<open>An instruction whose condition names an enumerator but does not hold changes nothing
  except that \<open>$zero\<close> is cleared.\<close>

theorem vm_condition_skips:
  assumes "condition_of (ins_condition ins) = Some k"
    "\<not> snd (vm_check_condition vm (ins_condition ins))"
  shows "vm_run_instruction vm ins = set_reg R_ZERO 0 vm"
proof -
  let ?z = "set_reg R_ZERO 0 vm"
  have "vm_check_condition ?z (ins_condition ins) = (?z, False)"
    using assms by (simp add: vm_check_condition_def prod_eq_iff)
  then show ?thesis by (simp add: vm_run_instruction_def)
qed

section \<open>Arithmetic instructions\<close>

text \<open>The reference table of the instruction set: the operation, the right operand and whether the
  result is written back, for every instruction that uses the arithmetic unit.\<close>

datatype (plugins only: code size) operand = Reg2 | Imm | Unary

fun operand_value :: "vm \<Rightarrow> instruction \<Rightarrow> operand \<Rightarrow> u32" where
  "operand_value vm ins Reg2 = vm_registers vm ! unat (register2 ins)"
| "operand_value vm ins Imm = immediate ins"
| "operand_value vm ins Unary = 0"

definition arithmetic_table :: "(opcode \<times> operation \<times> operand \<times> bool) list" where
  "arithmetic_table =
    [(ADDR, OP_ADD, Reg2, True), (SUBR, OP_SUB, Reg2, True), (MULR, OP_MUL, Reg2, True),
     (DIVR, OP_DIV, Reg2, True), (MODR, OP_MOD, Reg2, True),
     (ADDI, OP_ADD, Imm, True), (SUBI, OP_SUB, Imm, True), (MULI, OP_MUL, Imm, True),
     (DIVI, OP_DIV, Imm, True), (MODI, OP_MOD, Imm, True),
     (ADDSR, OP_SADD, Reg2, True), (SUBSR, OP_SSUB, Reg2, True), (MULSR, OP_SMUL, Reg2, True),
     (DIVSR, OP_SDIV, Reg2, True), (MODSR, OP_SMOD, Reg2, True),
     (ADDSI, OP_SADD, Imm, True), (SUBSI, OP_SSUB, Imm, True), (MULSI, OP_SMUL, Imm, True),
     (DIVSI, OP_SDIV, Imm, True), (MODSI, OP_SMOD, Imm, True),
     (NOT', OP_NOT, Unary, True), (ANDR, OP_AND, Reg2, True), (ORR, OP_OR, Reg2, True),
     (XORR, OP_XOR, Reg2, True), (NANDR, OP_NAND, Reg2, True), (NORR, OP_NOR, Reg2, True),
     (ANDI, OP_AND, Imm, True), (ORI, OP_OR, Imm, True), (XORI, OP_XOR, Imm, True),
     (NANDI, OP_NAND, Imm, True), (NORI, OP_NOR, Imm, True),
     (INC, OP_INC, Unary, True), (DEC, OP_DEC, Unary, True),
     (CMPI, OP_SUB, Imm, False), (CMPR, OP_SUB, Reg2, False),
     (CMPSI, OP_SSUB, Imm, False), (CMPSR, OP_SSUB, Reg2, False)]"

lemma arithmetic_execute:
  "(op, aop, src, w) \<in> set arithmetic_table \<Longrightarrow>
     vm_execute vm ins op =
       (vm_do_operation vm aop (vm_registers vm ! unat (register1 ins)) (operand_value vm ins src), w)"
  unfolding arithmetic_table_def
  by (simp only: list.set insert_iff prod.inject empty_iff) (elim disjE conjE; simp add: vm_execute_def Let_def)

lemma arithmetic_result:
  "(op, aop, src, w) \<in> set arithmetic_table \<Longrightarrow> alu_result aop l r \<noteq> None"
  unfolding arithmetic_table_def
  by (simp only: list.set insert_iff prod.inject empty_iff) (elim disjE conjE; simp)

text \<open>The flags of a computation, copied to the program status register.\<close>

definition with_flags :: "alu \<Rightarrow> cpsr \<Rightarrow> cpsr" where
  "with_flags a c = c\<lparr>cpsr_N := flag_N (alu_fl a), cpsr_Z := flag_Z (alu_fl a),
     cpsr_V := flag_V (alu_fl a), cpsr_C := flag_C (alu_fl a), cpsr_S := flag_S (alu_fl a)\<rparr>"

definition alu_on :: "operation \<Rightarrow> u32 \<Rightarrow> u32 \<Rightarrow> alu" where
  "alu_on op l r = alu_compute \<lparr>alu_left = l, alu_right = r, alu_res = 0, alu_op = op,
     alu_fl = no_flags\<rparr>"

lemma alu_setFlags_op [simp]: "alu_op (alu_setFlags a) = alu_op a"
  by (simp add: alu_setFlags_def alu_set_signed_flags_def alu_set_unsigned_flags_def Let_def)

lemma alu_compute_on:
  assumes "alu_result op l r \<noteq> None" "\<not> (is_division op \<and> r = 0)"
  shows "alu_compute (a\<lparr>alu_op := op, alu_left := l, alu_right := r\<rparr>) = alu_on op l r"
    and "alu_word (alu_on op l r) = the (alu_result op l r)"
    and "alu_op (alu_on op l r) = op"
proof -
  from assms obtain x where x: "alu_result op l r = Some x" by auto
  have [simp]: "alu_res (alu_setFlags b) = alu_res b" for b
    by (simp add: alu_setFlags_def alu_set_signed_flags_def alu_set_unsigned_flags_def Let_def)
  show "alu_compute (a\<lparr>alu_op := op, alu_left := l, alu_right := r\<rparr>) = alu_on op l r"
    using assms x by (cases a) (auto simp: alu_compute_def alu_on_def Let_def)
  show "alu_word (alu_on op l r) = the (alu_result op l r)" "alu_op (alu_on op l r) = op"
    using assms x by (auto simp: alu_compute_def alu_on_def Let_def alu_word_def)
qed

lemma vm_arithmetic_instruction_eq:
  assumes "(op, aop, src, w) \<in> set arithmetic_table" "executes vm ins op" "vm_has_no_error vm"
    and l: "l = vm_registers (set_reg R_ZERO 0 vm) ! unat (register1 ins)"
    and r: "r = operand_value (set_reg R_ZERO 0 vm) ins src"
    and nz: "\<not> (is_division aop \<and> r = 0)"
  shows "vm_run_instruction vm ins =
    vm\<lparr>vm_registers :=
         (let z = (vm_registers vm)[register_index R_ZERO := 0]
          in (if w then z[unat (register1 ins) := the (alu_result aop l r)] else z)
               [register_index R_ZERO := 0]),
       vm_cpsr := with_flags (alu_on aop l r) (vm_cpsr vm),
       vm_alu := alu_reset (vm_alu vm)\<rparr>"
proof -
  let ?z = "set_reg R_ZERO 0 vm"
  have res: "alu_result aop l r \<noteq> None" using assms(1) by (rule arithmetic_result)
  have noop: "aop \<noteq> OP_NOOP" using res by auto
  have op: "vm_do_operation ?z aop l r =
      ?z\<lparr>vm_alu := alu_on aop l r, vm_cpsr := with_flags (alu_on aop l r) (vm_cpsr vm)\<rparr>"
    using nz by (auto simp: vm_do_operation_def alu_compute_on(1) [OF res nz] with_flags_def Let_def)
  have "vm_run_instruction vm ins = vm_finish (vm_do_operation ?z aop l r) ins w"
    using vm_run_instruction_executes [OF assms(2)] arithmetic_execute [OF assms(1), of ?z ins]
    by (simp only: l r) simp
  also have "\<dots> = vm\<lparr>vm_registers :=
         (let z = (vm_registers vm)[register_index R_ZERO := 0]
          in (if w then z[unat (register1 ins) := the (alu_result aop l r)] else z)
               [register_index R_ZERO := 0]),
       vm_cpsr := with_flags (alu_on aop l r) (vm_cpsr vm),
       vm_alu := alu_reset (vm_alu vm)\<rparr>"
    using assms(3) alu_compute_on(2,3) [OF res nz] noop unfolding op
    by (simp add: vm_finish_def set_register_def Let_def vm_has_no_error_def with_flags_def
        alu_word_def alu_reset_def)
  finally show ?thesis .
qed

lemma division_by_zero_eq:
  assumes "(op, aop, src, w) \<in> set arithmetic_table" "executes vm ins op" "vm_has_no_error vm"
    and "is_division aop" "operand_value (set_reg R_ZERO 0 vm) ins src = 0"
  shows "vm_run_instruction vm ins =
    vm\<lparr>vm_registers := (vm_registers vm)[register_index R_ZERO := 0],
       vm_cpsr := (vm_cpsr vm)\<lparr>cpsr_ST := S_ERR_DIVISION_BY_ZERO\<rparr>,
       vm_alu := if alu_op (vm_alu vm) = OP_NOOP then vm_alu vm else alu_reset (vm_alu vm)\<rparr>"
proof -
  let ?z = "set_reg R_ZERO 0 vm"
  have "vm_run_instruction vm ins = vm_finish (vm_set_state S_ERR_DIVISION_BY_ZERO ?z) ins w"
    using vm_run_instruction_executes [OF assms(2)] arithmetic_execute [OF assms(1), of ?z ins]
      assms(4,5) by (simp only: vm_do_operation_def) simp
  then show ?thesis
    using assms(3) by (simp add: vm_finish_def Let_def vm_set_state_def vm_has_no_error_def set_register_def is_error_iff)
qed

text \<open>C35: in a machine without an error (the loop executes in no other), every arithmetic, logic and compare
  instruction whose condition holds and whose register fields name registers does what the table says: its operation on the first register and its
  right operand, the result in the first register only where the table says so, the flags of that operation
  in the status register, \<open>$zero\<close> at zero, the unit at rest, and nothing else. Dividing or reducing by zero
  records that error instead: no result, no flags, the other registers as they were.\<close>

theorem vm_arithmetic_instruction:
  assumes "(op, aop, src, w) \<in> set arithmetic_table" "executes vm ins op" "vm_has_no_error vm"
    and l: "l = vm_registers (set_reg R_ZERO 0 vm) ! unat (register1 ins)"
    and r: "r = operand_value (set_reg R_ZERO 0 vm) ins src"
  shows "vm_run_instruction vm ins =
    (if is_division aop \<and> r = 0
     then vm\<lparr>vm_registers := (vm_registers vm)[register_index R_ZERO := 0],
             vm_cpsr := (vm_cpsr vm)\<lparr>cpsr_ST := S_ERR_DIVISION_BY_ZERO\<rparr>,
             vm_alu := if alu_op (vm_alu vm) = OP_NOOP then vm_alu vm else alu_reset (vm_alu vm)\<rparr>
     else vm\<lparr>vm_registers :=
               (let z = (vm_registers vm)[register_index R_ZERO := 0]
                in (if w then z[unat (register1 ins) := the (alu_result aop l r)] else z)
                     [register_index R_ZERO := 0]),
             vm_cpsr := with_flags (alu_on aop l r) (vm_cpsr vm),
             vm_alu := alu_reset (vm_alu vm)\<rparr>)"
proof (cases "is_division aop \<and> r = 0")
  case True
  then show ?thesis using division_by_zero_eq [OF assms(1-3)] r by simp
next
  case False
  then show ?thesis using vm_arithmetic_instruction_eq [OF assms False] by (simp only: if_False)
qed

section \<open>Comparisons\<close>

lemma with_flags_holds:
  "condition_holds (with_flags a c) C_ZERO_SET = flag_Z (alu_fl a)"
  "condition_holds (with_flags a c) C_ZERO_CLEAR = (\<not> flag_Z (alu_fl a))"
  "condition_holds (with_flags a c) C_CARRY_SET = flag_C (alu_fl a)"
  "condition_holds (with_flags a c) C_CARRY_CLEAR = (\<not> flag_C (alu_fl a))"
  "condition_holds (with_flags a c) C_UNSIGNED_HIGHER = (flag_C (alu_fl a) \<and> \<not> flag_Z (alu_fl a))"
  "condition_holds (with_flags a c) C_UNSIGNED_LOWER_OR_SAME =
     (\<not> flag_C (alu_fl a) \<or> flag_Z (alu_fl a))"
  "condition_holds (with_flags a c) C_LESS = (flag_N (alu_fl a) \<noteq> flag_V (alu_fl a))"
  "condition_holds (with_flags a c) C_LESS_OR_EQUALS =
     (flag_Z (alu_fl a) \<or> flag_N (alu_fl a) \<noteq> flag_V (alu_fl a))"
  "condition_holds (with_flags a c) C_GREATER =
     (\<not> (flag_Z (alu_fl a) \<or> flag_N (alu_fl a) \<noteq> flag_V (alu_fl a)))"
  "condition_holds (with_flags a c) C_GREATER_OR_EQUALS =
     (\<not> (flag_N (alu_fl a) \<noteq> flag_V (alu_fl a)))"
  by (simp_all add: with_flags_def condition_holds_def)

lemma compare_instruction:
  assumes "(op, aop, src, False) \<in> set arithmetic_table" "executes vm ins op" "vm_has_no_error vm"
    and "l = vm_registers (set_reg R_ZERO 0 vm) ! unat (register1 ins)"
    and "r = operand_value (set_reg R_ZERO 0 vm) ins src" and "\<not> is_division aop"
  shows "vm_cpsr (vm_run_instruction vm ins) = with_flags (alu_on aop l r) (vm_cpsr vm)"
    and "vm_registers (vm_run_instruction vm ins) = (vm_registers vm)[register_index R_ZERO := 0]"
proof -
  note * = vm_arithmetic_instruction_eq [OF assms(1-5)]
  show "vm_cpsr (vm_run_instruction vm ins) = with_flags (alu_on aop l r) (vm_cpsr vm)"
    "vm_registers (vm_run_instruction vm ins) = (vm_registers vm)[register_index R_ZERO := 0]"
    using * assms(6) by simp_all
qed

text \<open>After an unsigned comparison (\<open>CMPR\<close>, \<open>CMPI\<close>) the conditions that follow decide the
  unsigned order of the operands, whatever their difference, and no register but \<open>$zero\<close> changed.\<close>

theorem vm_compare_unsigned:
  assumes "(op, OP_SUB, src, False) \<in> set arithmetic_table" "executes vm ins op"
    "vm_has_no_error vm"
    and l: "l = vm_registers (set_reg R_ZERO 0 vm) ! unat (register1 ins)"
    and r: "r = operand_value (set_reg R_ZERO 0 vm) ins src"
    and h: "holds = condition_holds (vm_cpsr (vm_run_instruction vm ins))"
  shows "holds C_ZERO_SET = (l = r) \<and> holds C_ZERO_CLEAR = (l \<noteq> r) \<and>
    holds C_CARRY_SET = (r \<le> l) \<and> holds C_CARRY_CLEAR = (l < r) \<and>
    holds C_UNSIGNED_HIGHER = (r < l) \<and> holds C_UNSIGNED_LOWER_OR_SAME = (l \<le> r) \<and>
    vm_registers (vm_run_instruction vm ins) = (vm_registers vm)[register_index R_ZERO := 0]"
  using compare_instruction [OF assms(1-5)] unfolding h
  by (auto simp: with_flags_holds alu_on_def sub_flags_unsigned is_division_def)

text \<open>C36: after a signed comparison (\<open>CMPSR\<close>, \<open>CMPSI\<close>) the conditions decide the signed order of
  the operands, also where their difference overflows.\<close>

theorem vm_compare_signed:
  assumes "(op, OP_SSUB, src, False) \<in> set arithmetic_table" "executes vm ins op"
    "vm_has_no_error vm"
    and l: "l = vm_registers (set_reg R_ZERO 0 vm) ! unat (register1 ins)"
    and r: "r = operand_value (set_reg R_ZERO 0 vm) ins src"
    and h: "holds = condition_holds (vm_cpsr (vm_run_instruction vm ins))"
  shows "holds C_ZERO_SET = (l = r) \<and> holds C_ZERO_CLEAR = (l \<noteq> r) \<and>
    holds C_LESS = (sint l < sint r) \<and> holds C_LESS_OR_EQUALS = (sint l \<le> sint r) \<and>
    holds C_GREATER = (sint r < sint l) \<and> holds C_GREATER_OR_EQUALS = (sint r \<le> sint l) \<and>
    vm_registers (vm_run_instruction vm ins) = (vm_registers vm)[register_index R_ZERO := 0]"
proof -
  let ?a = "alu_on OP_SSUB l r"
  have eq: "l = r \<longleftrightarrow> sint l = sint r" by (auto intro: signed_word_eqI)
  have z: "flag_Z (alu_fl ?a) \<longleftrightarrow> sint l = sint r"
    using eq by (simp add: alu_on_def sub_flags_signed(1))
  have nv: "flag_N (alu_fl ?a) \<noteq> flag_V (alu_fl ?a) \<longleftrightarrow> sint l < sint r"
    unfolding alu_on_def by (subst sub_flags_signed(2)) simp_all
  have nd: "\<not> is_division OP_SSUB" by (simp add: is_division_def)
  note c = compare_instruction [OF assms(1-5) nd]
  show ?thesis
    by (simp only: h c with_flags_holds z nv eq) auto
qed

section \<open>Memory instructions\<close>

lemma run_with_result:
  assumes "executes vm ins op" "vm_execute (set_reg R_ZERO 0 vm) ins op = (vm', w)"
  shows "vm_run_instruction vm ins = vm_finish vm' ins w"
  using vm_run_instruction_executes [OF assms(1)] assms(2) by simp

lemma vm_finish_idle:
  "vm_finish vm ins False = set_reg R_ZERO 0 (if alu_op (vm_alu vm) \<noteq> OP_NOOP
     then vm\<lparr>vm_alu := alu_reset (vm_alu vm)\<rparr> else vm)"
  by (simp add: vm_finish_def Let_def set_register_def)

text \<open>Opcode, width in bytes and the mask of the register bits a load keeps.\<close>

definition load_table :: "(opcode \<times> nat \<times> u32) list" where
  "load_table = [(LOADB, 1, NOT 0xFF), (LOADH, 2, NOT 0xFFFF), (LOADW, 4, 0)]"

definition store_table :: "(opcode \<times> nat) list" where
  "store_table = [(STOREB, 1), (STOREH, 2), (STOREW, 4)]"

lemma load_execute:
  assumes "(op, n, m) \<in> set load_table"
  shows "vm_execute vm ins op =
    (if in_range vm (effective vm ins) n
     then set_register (unat (register1 ins))
       ((vm_registers vm ! unat (register1 ins) AND m) OR le_read (mem_byte vm) n (effective vm ins)) vm
     else vm_set_state S_ERR_OUT_OF_MEMORY vm, False)"
  using assms by (auto simp: load_table_def vm_execute_def Let_def vm_load_eqs [simplified])

lemma le_byte_ucast:
  "i * 8 + 8 \<le> LENGTH('a) \<Longrightarrow> le_byte (ucast w :: 'a::len word) i = le_byte w i"
  by (rule bit_word_eqI) (auto simp: bit_le_byte bit_simps dest: bit_imp_le_length)

lemma address_space_set [simp]:
  "memory_end (set_register k v vm) = memory_end vm"
  "in_range (set_register k v vm) a n = in_range vm a n"
  "mem_byte (set_register k v vm) = mem_byte vm"
  "memory_end (vm_set_state s vm) = memory_end vm"
  "in_range (vm_set_state s vm) a n = in_range vm a n"
  "mem_byte (vm_set_state s vm) = mem_byte vm"
  "memory_end (vm_finish vm ins w) = memory_end vm"
  "in_range (vm_finish vm ins w) a n = in_range vm a n"
  "mem_byte (vm_finish vm ins w) = mem_byte vm"
  by (auto simp: in_range_def memory_end_def mem_byte_def fun_eq_iff)

lemma poke_scalar_cong:
  "(\<And>i. i < n \<Longrightarrow> le_byte v i = le_byte w i) \<Longrightarrow> poke_scalar vm a n v = poke_scalar vm a n w"
  unfolding poke_scalar_def by (induction n) (simp_all add: le_write_Suc)

lemma store_execute:
  assumes "(op, n) \<in> set store_table"
  shows "vm_execute vm ins op =
    (if in_range vm (effective vm ins) n
     then poke_scalar vm (effective vm ins) n (ucast (vm_registers vm ! unat (register1 ins)))
     else vm_set_state S_ERR_OUT_OF_MEMORY vm, False)"
proof -
  have "poke_scalar vm a 1 (ucast (ucast w :: u8)) = poke_scalar vm a 1 (ucast w)"
    "poke_scalar vm a 2 (ucast (ucast w :: u16)) = poke_scalar vm a 2 (ucast w)"
    "poke_scalar vm a 4 (ucast (ucast w :: u32)) = poke_scalar vm a 4 (ucast w)" for a and w :: u32
    by (rule poke_scalar_cong; simp add: le_byte_ucast)+
  then show ?thesis
    using assms by (auto simp: store_table_def vm_execute_def Let_def vm_store_eqs [simplified])
qed

text \<open>A load at an effective address inside the memory replaces the low bytes of its register
  by the little-endian bytes there and keeps the register's other bits; outside, it records the
  out-of-memory error. Memory and the other registers (\<open>$zero\<close> apart) stay.\<close>

theorem vm_load_instruction:
  assumes "(op, n, m) \<in> set load_table" "executes vm ins op" "vm_has_no_error vm"
    and z: "z = set_reg R_ZERO 0 vm"
  shows "vm_registers (vm_run_instruction vm ins) =
      (if in_range vm (effective z ins) n
       then (vm_registers z)[unat (register1 ins) :=
         (vm_registers z ! unat (register1 ins) AND m) OR le_read (mem_byte vm) n (effective z ins),
         register_index R_ZERO := 0]
       else vm_registers z) \<and>
    vm_get_state (vm_run_instruction vm ins) =
      (if in_range vm (effective z ins) n then vm_get_state vm else S_ERR_OUT_OF_MEMORY) \<and>
    mem_byte (vm_run_instruction vm ins) = mem_byte vm"
  using assms(3) run_with_result [OF assms(2) load_execute [OF assms(1)]]
  by (simp add: z finish_regs vm_get_set_state vm_has_no_error_iff)

text \<open>A store at an effective address inside the memory writes the low bytes of its register
  there and changes no other byte; outside, it records the out-of-memory error and writes nothing.\<close>

theorem vm_store_instruction:
  assumes "(op, n) \<in> set store_table" "executes vm ins op" "vm_has_no_error vm" "wf_vm vm"
    and z: "z = set_reg R_ZERO 0 vm" and "in_range vm b 1"
  shows "mem_byte (vm_run_instruction vm ins) b =
      (if in_range vm (effective z ins) n \<and> effective z ins \<le> b \<and> b < effective z ins + n
       then le_byte (vm_registers z ! unat (register1 ins)) (b - effective z ins)
       else mem_byte vm b) \<and>
    vm_get_state (vm_run_instruction vm ins) =
      (if in_range vm (effective z ins) n then vm_get_state vm else S_ERR_OUT_OF_MEMORY) \<and>
    vm_registers (vm_run_instruction vm ins) = vm_registers z"
proof -
  have "n \<le> 4" using assms(1) by (auto simp: store_table_def)
  then show ?thesis
    using assms(3,4,6) run_with_result [OF assms(2) store_execute [OF assms(1)]]
    by (auto simp: z finish_regs vm_get_set_state vm_has_no_error_iff mem_byte_poke_scalar le_byte_ucast)
qed

section \<open>Stack instructions\<close>

lemma stack_same:
  assumes "reg vm' R_SP = reg vm R_SP" "reg vm' R_BP = reg vm R_BP" "mem_byte vm' = mem_byte vm"
    "memory_end vm' = memory_end vm"
  shows "stack_words vm' = stack_words vm" "stack_room vm' = stack_room vm"
    "wf_vm vm \<longrightarrow> wf_vm vm' \<Longrightarrow> vm_get_state vm' = vm_get_state vm \<Longrightarrow> stack_inv vm \<Longrightarrow>
       stack_inv vm'"
  using assms
  by (simp_all add: stack_words_def stack_room_def stack_used_def stack_inv_def vm_has_no_error_iff)

lemma stack_same_set_register:
  assumes "stack_inv vm" "r \<noteq> R_SP" "r \<noteq> R_BP"
  shows "stack_inv (set_reg r v vm)" "stack_words (set_reg r v vm) = stack_words vm"
    "stack_room (set_reg r v vm) = stack_room vm"
  using assms stack_same [of "set_reg r v vm" vm] by (auto simp: stack_inv_def)

lemma stack_same_finish:
  assumes "stack_inv vm"
  shows "stack_inv (vm_finish vm ins False)" "stack_words (vm_finish vm ins False) = stack_words vm"
    "stack_room (vm_finish vm ins False) = stack_room vm"
proof -
  have "reg (vm_finish vm ins False) R_SP = reg vm R_SP" "reg (vm_finish vm ins False) R_BP = reg vm R_BP"
    by (simp_all add: finish_regs)
  moreover have "wf_vm vm \<longrightarrow> wf_vm (vm_finish vm ins False)"
    using keeps_finish [OF keeps_refl] by (auto simp: keeps_def)
  ultimately show "stack_inv (vm_finish vm ins False)"
    "stack_words (vm_finish vm ins False) = stack_words vm"
    "stack_room (vm_finish vm ins False) = stack_room vm"
    using assms stack_same [of "vm_finish vm ins False" vm] by simp_all
qed

text \<open>\<open>DUP\<close> on a usable stack with a top word and room for one more duplicates the top word,
  and records no error.\<close>

theorem vm_dup_instruction:
  assumes "executes vm ins DUP" "stack_inv vm" "stack_words vm = ws @ [w]" "0 < stack_room vm"
  shows "stack_words (vm_run_instruction vm ins) = ws @ [w, w] \<and>
    stack_inv (vm_run_instruction vm ins) \<and>
    stack_room vm = Suc (stack_room (vm_run_instruction vm ins))"
proof -
  let ?z = "set_reg R_ZERO 0 vm"
  have z: "stack_inv ?z" "stack_words ?z = ws @ [w]" "stack_room ?z = stack_room vm"
    using assms stack_same_set_register [of vm R_ZERO 0] by simp_all
  then obtain s1 s2 s3 where s: "vm_pop_word ?z = (s1, Some w)" "vm_push_word s1 w = (s2, True)"
    "vm_push_word s2 w = (s3, True)" "stack_inv s3" "stack_words s3 = ws @ [w, w]"
    "stack_room ?z = Suc (stack_room s3)"
    using vms.duplicate_top [of ?z ws w] assms(4) by auto
  then have "vm_execute ?z ins DUP = (s3, False)"
    by (simp add: vm_execute_def Let_def)
  then have "vm_run_instruction vm ins = vm_finish s3 ins False"
    by (rule run_with_result [OF assms(1)])
  with s z show ?thesis
    by (simp add: stack_same_finish)
qed

text \<open>\<open>PUSHR\<close> of one register and \<open>POPR\<close> into another (neither the stack's pointers nor
  \<open>$zero\<close>) moves the word and leaves the stack as it was.\<close>

theorem vm_push_pop_instructions:
  assumes "executes vm push PUSHR" "stack_inv vm" "0 < stack_room vm"
    and vm1: "vm1 = vm_run_instruction vm push" and "executes vm1 pop POPR"
    and d: "unat (register1 pop) = register_index d" "d \<notin> {R_SP, R_BP, R_ZERO}"
    and v: "v = vm_registers (set_reg R_ZERO 0 vm) ! unat (register1 push)"
  shows "reg (vm_run_instruction vm1 pop) d = v \<and>
    stack_words (vm_run_instruction vm1 pop) = stack_words vm \<and>
    stack_inv (vm_run_instruction vm1 pop)"
proof -
  let ?z = "set_reg R_ZERO 0 vm"
  have z: "stack_inv ?z" "stack_words ?z = stack_words vm" "0 < stack_room ?z"
    using assms stack_same_set_register [of vm R_ZERO 0] by simp_all
  from vms.push_room [OF z(1,3), of v] z obtain s1 where
    s1: "vm_push_word ?z v = (s1, True)" "stack_inv s1" "stack_words s1 = stack_words vm @ [v]"
    by auto
  then have "vm_execute ?z push PUSHR = (s1, False)"
    by (simp add: vm_execute_def Let_def v)
  then have "vm1 = vm_finish s1 push False"
    by (simp add: vm1 run_with_result [OF assms(1)])
  then have w1: "stack_inv vm1" "stack_words vm1 = stack_words vm @ [v]"
    using s1 by (simp_all add: stack_same_finish)
  then have "stack_inv (set_reg R_ZERO 0 vm1)" "stack_words (set_reg R_ZERO 0 vm1) = stack_words vm @ [v]"
    using stack_same_set_register [of vm1 R_ZERO 0] by simp_all
  from vms.pop_snoc [OF this] obtain s2 where
    s2: "vm_pop_word (set_reg R_ZERO 0 vm1) = (s2, Some v)" "stack_inv s2"
      "stack_words s2 = stack_words vm"
    by auto
  then have "vm_execute (set_reg R_ZERO 0 vm1) pop POPR = (set_reg d v s2, False)"
    by (simp add: vm_execute_def Let_def d)
  then have run: "vm_run_instruction vm1 pop = vm_finish (set_reg d v s2) pop False"
    by (rule run_with_result [OF assms(5)])
  have "wf_vm s2" using s2(2) by (simp add: stack_inv_def)
  then have "reg (vm_finish (set_reg d v s2) pop False) d = v"
    using d by (auto simp: finish_regs)
  with s2 d show ?thesis
    using stack_same_set_register [of s2 d v]
    by (simp add: run stack_same_finish)
qed

section \<open>Control flow, interrupts and refused instructions\<close>

text \<open>\<open>JMPAL\<close> goes to its immediate and saves the address of the next instruction in \<open>$lp\<close>; any
  later \<open>RET\<close> that finds \<open>$lp\<close> unchanged continues there.\<close>

theorem vm_call_return:
  assumes "executes vm call JMPAL" "wf_vm vm" and vm1: "vm1 = vm_run_instruction vm call"
    and "executes vm2 ret RET" "wf_vm vm2" "reg vm2 R_LP = reg vm1 R_LP"
  shows "reg vm1 R_PC = immediate call \<and>
    reg (vm_run_instruction vm2 ret) R_PC = reg vm R_PC \<and>
    mem_byte (vm_run_instruction vm2 ret) = mem_byte vm2 \<and>
    vm_get_state vm1 = vm_get_state vm"
proof -
  let ?z = "set_reg R_ZERO 0 vm" and ?z2 = "set_reg R_ZERO 0 vm2"
  have "vm1 = vm_finish (set_reg R_PC (immediate call) (set_reg R_LP (reg vm R_PC) ?z)) call False"
    unfolding vm1 by (rule run_with_result [OF assms(1)]) (simp add: vm_execute_def Let_def)
  moreover have "vm_run_instruction vm2 ret = vm_finish (set_reg R_PC (reg vm2 R_LP) ?z2) ret False"
    by (rule run_with_result [OF assms(4)]) (simp add: vm_execute_def Let_def)
  ultimately show ?thesis
    using assms(2,5,6) by (simp add: finish_regs)
qed

text \<open>The host services: \<open>INT 1\<close> writes the low byte of \<open>$a0\<close> plus 0x60 and \<open>INT 2\<close> the low
  byte itself, \<open>INT 0x10\<close> reads one byte into \<open>$v0\<close> or -1 at the end of the input, \<open>INT 0xFF\<close> halts a
  machine without error, and every other code and \<open>SYSCALL\<close> do nothing.\<close>

theorem vm_interrupt_services:
  assumes "executes vm ins op" "op = INT' \<or> op = SYSCALL" "wf_vm vm"
    and vm1: "vm1 = vm_run_instruction vm ins" and "vm_has_no_error vm"
    and c: "c = (if op = INT' then immediate ins else 0)"
  shows "vm_stdout vm1 = vm_stdout vm @
      (if c = 1 then [ucast (reg vm R_A0) + 0x60] else if c = 2 then [ucast (reg vm R_A0)] else []) \<and>
    reg vm1 R_V0 =
      (if c = 0x10 then case vm_stdin vm of [] \<Rightarrow> - 1 | b # _ \<Rightarrow> ucast b else reg vm R_V0) \<and>
    vm_stdin vm1 = (if c = 0x10 then tl (vm_stdin vm) else vm_stdin vm) \<and>
    vm_get_state vm1 = (if c = 0xFF then S_HALTED else vm_get_state vm) \<and>
    mem_byte vm1 = mem_byte vm"
proof -
  let ?z = "set_reg R_ZERO 0 vm"
  have run: "vm1 = vm_finish (vm_interrupt ?z c) ins False"
    unfolding vm1
    by (rule run_with_result [OF assms(1)])
      (use assms(2) in \<open>auto simp: vm_execute_def Let_def c vm_syscall_def vm_interrupt_def\<close>)
  consider "c = 1" | "c = 2" | "c = 0x10" | "c = 0xFF" | "c \<noteq> 1 \<and> c \<noteq> 2 \<and> c \<noteq> 0x10 \<and> c \<noteq> 0xFF" by auto
  then show ?thesis
    using assms(3,5)
    by cases
      (auto simp: run vm_interrupt_def fputc_def fgetc_word_def finish_regs Let_def mem_byte_def
        vm_get_set_state vm_has_no_error_iff split: list.split)
qed

text \<open>An instruction word with an unknown condition, or one that is due and has a register
  number beyond the register file or an unknown opcode, records the error and changes nothing else
  but \<open>$zero\<close> and the arithmetic unit's rest state.\<close>

theorem vm_refuses_instruction:
  assumes "vm_has_no_error vm"
    and bad: "condition_of (ins_condition ins) = None \<or>
      snd (vm_check_condition vm (ins_condition ins)) \<and>
      (unat (register1 ins) \<ge> ZLVM_REGISTER_COUNT \<or> unat (register2 ins) \<ge> ZLVM_REGISTER_COUNT \<or>
       opcode_of (ins_opcode ins) = None)"
  shows "vm_get_state (vm_run_instruction vm ins) =
      (if condition_of (ins_condition ins) = None then S_ERR_INVALID_CONDITION
       else S_ERR_INVALID_OPCODE) \<and>
    vm_registers (vm_run_instruction vm ins) = (vm_registers vm)[register_index R_ZERO := 0] \<and>
    mem_byte (vm_run_instruction vm ins) = mem_byte vm \<and>
    vm_stdout (vm_run_instruction vm ins) = vm_stdout vm \<and>
    vm_stdin (vm_run_instruction vm ins) = vm_stdin vm"
proof (cases "condition_of (ins_condition ins)")
  case None
  then show ?thesis
    using assms(1)
    by (simp add: vm_run_instruction_def vm_check_condition_def vm_get_set_state vm_has_no_error_iff)
next
  case (Some k)
  then have "vm_check_condition (set_reg R_ZERO 0 vm) (ins_condition ins) = (set_reg R_ZERO 0 vm, True)"
    using bad by (simp add: vm_check_condition_def)
  with Some bad show ?thesis
    using assms(1)
    by (auto simp: vm_run_instruction_def vm_switch_def finish_regs vm_get_set_state vm_has_no_error_iff)
qed

end
