(* ===== verification/Run.thy ===== *)
theory Run
  imports Execute
begin

text \<open>
  Fetching and the run loop of \<^verbatim>\<open>emulator/src/VirtualMachineInternal.c\<close>.
\<close>

section \<open>Fetching\<close>

definition vm_fetch_byte :: "vm \<Rightarrow> vm \<times> u8" where
  "vm_fetch_byte vm =
     (let pc = reg vm R_PC in vm_read_byte (set_reg R_PC (pc + 1) vm) (unat pc))"

definition zero_instruction :: instruction where
  "zero_instruction = \<lparr>ins_opcode = 0, ins_condition = 0, register1 = 0, register2 = 0,
     immediate = 0\<rparr>"

text \<open>The loop that fills \<^verbatim>\<open>byte bytes[ZLVM_INSTRUCTION_SIZE]\<close>.\<close>

primrec vm_fetch_bytes :: "nat \<Rightarrow> vm \<Rightarrow> vm \<times> u8 list" where
  "vm_fetch_bytes 0 vm = (vm, [])"
| "vm_fetch_bytes (Suc n) vm =
     (let (vm, b) = vm_fetch_byte vm; (vm, bs) = vm_fetch_bytes n vm in (vm, b # bs))"

definition vm_fetch_instruction :: "vm \<Rightarrow> vm \<times> instruction" where
  "vm_fetch_instruction vm =
     (let (vm, ok) = vm_validate_range vm (unat (reg vm R_PC)) ZLVM_INSTRUCTION_SIZE
      in if \<not> ok then (vm, zero_instruction)
         else let (vm, bytes) = vm_fetch_bytes ZLVM_INSTRUCTION_SIZE vm
              in case instruction_decode (Some zero_instruction) (Some bytes) (length bytes) of
                   None \<Rightarrow> (vm_set_state S_ERR_INVALID_OPCODE vm, zero_instruction)
                 | Some ins \<Rightarrow> (vm, ins))"

section \<open>Running\<close>

text \<open>The body of the loop in \<^verbatim>\<open>vm_run\<close>.\<close>

definition vm_step :: "vm \<Rightarrow> vm" where
  "vm_step vm =
     (let (vm, ins) = vm_fetch_instruction vm
      in if vm_has_no_error vm then vm_run_instruction vm ins else vm)"

definition vm_continues :: "vm \<Rightarrow> bool" where
  "vm_continues vm \<longleftrightarrow> vm_has_no_error vm \<and> \<not> vm_has_state vm S_HALTED"

text \<open>The loop itself; a program that never stops gives \<^term>\<open>None\<close>.\<close>

partial_function (option) vm_loop :: "vm \<Rightarrow> vm option" where
  "vm_loop vm = (if vm_continues vm then vm_loop (vm_step vm) else Some vm)"

definition vm_start :: "vm \<Rightarrow> vm" where
  "vm_start vm =
     (let vm = set_reg R_PC (vm_entryPoint vm) vm;
          vm = set_reg R_BP (of_nat ZLVM_ROM_SIZE) vm
      in set_reg R_SP (reg vm R_BP) vm)"

text \<open>\<^verbatim>\<open>vm_run\<close> returns the final state; the machine is the second component.\<close>

definition vm_run :: "vm \<Rightarrow> (state \<times> vm) option" where
  "vm_run vm = map_option (\<lambda>vm. (vm_get_state vm, vm)) (vm_loop (vm_start vm))"

section \<open>What a fetch reads\<close>

text \<open>The eight bytes at an address, as an instruction; the address wraps at \<open>2 ^ 32\<close> like \<open>$pc\<close>.\<close>

definition bytes_at :: "vm \<Rightarrow> u32 \<Rightarrow> nat \<Rightarrow> u8 list" where
  "bytes_at vm a n = map (\<lambda>i. mem_byte vm (unat (a + of_nat i))) [0..<n]"

definition instruction_at :: "vm \<Rightarrow> u32 \<Rightarrow> instruction" where
  "instruction_at vm a =
     \<lparr>ins_opcode = ucast (bytes_at vm a 8 ! 0), ins_condition = ucast (bytes_at vm a 8 ! 1),
      register1 = bytes_at vm a 8 ! 2, register2 = bytes_at vm a 8 ! 3,
      immediate = le_read ((!) (bytes_at vm a 8)) 4 4\<rparr>"

lemma set_register_again [simp]:
  "set_register n v (set_register n w vm) = set_register n v vm"
  "set_register n (vm_registers vm ! n) vm = vm"
  by (simp_all add: set_register_def)

lemma bytes_at_Suc: "bytes_at vm a (Suc n) = mem_byte vm (unat a) # bytes_at vm (a + 1) n"
  by (simp add: bytes_at_def upt_conv_Cons map_Suc_upt [symmetric] add.assoc del: upt_Suc)

lemma bytes_at_set_register [simp]: "bytes_at (set_register k v vm) a n = bytes_at vm a n"
  by (simp add: bytes_at_def)

lemma vm_fetch_bytes_eq:
  "wf_vm vm \<Longrightarrow> (\<And>i. i < n \<Longrightarrow> in_range vm (unat (reg vm R_PC + of_nat i)) 1) \<Longrightarrow>
     vm_fetch_bytes n vm = (set_reg R_PC (reg vm R_PC + of_nat n) vm, bytes_at vm (reg vm R_PC) n)"
proof (induction n arbitrary: vm)
  case 0
  then show ?case by (simp add: bytes_at_def)
next
  case (Suc n)
  let ?pc = "reg vm R_PC"
  let ?v = "set_reg R_PC (?pc + 1) vm"
  have r: "in_range vm (unat ?pc) 1" using Suc.prems(2) [of 0] by simp
  have pc: "reg ?v R_PC = ?pc + 1" using Suc.prems(1) by simp
  have "in_range ?v (unat (reg ?v R_PC + of_nat i)) 1" if "i < n" for i
    using Suc.prems(2) [of "Suc i"] that pc by (simp add: add.assoc)
  then have "vm_fetch_bytes n ?v = (set_reg R_PC (?pc + 1 + of_nat n) ?v, bytes_at ?v (?pc + 1) n)"
    using Suc.IH [of ?v] Suc.prems(1) pc by simp
  then show ?case
    using r by (simp add: vm_fetch_byte_def vm_read_byte_eq bytes_at_Suc add.assoc Let_def)
qed

lemma in_range_wrapped:
  assumes "in_range vm (unat pc) 8" "i < 8"
  shows "in_range vm (unat (pc + of_nat i :: u32)) 1"
proof -
  have "unat (pc + of_nat i) \<le> unat pc + i"
  proof -
    have "unat (pc + of_nat i) \<le> unat pc + unat (of_nat i :: u32)"
      by (subst unat_word_ariths) (rule mod_less_eq_dividend)
    also have "unat (of_nat i :: u32) \<le> i"
      by (simp add: unsigned_of_nat take_bit_nat_less_eq_self)
    finally show ?thesis by simp
  qed
  with assms show ?thesis by (auto simp: in_range_def)
qed

lemma vm_fetch_instruction_eq:
  assumes "wf_vm vm"
  shows "vm_fetch_instruction vm =
    (if in_range vm (unat (reg vm R_PC)) 8
     then (set_reg R_PC (reg vm R_PC + 8) vm, instruction_at vm (reg vm R_PC))
     else (vm_set_state S_ERR_OUT_OF_MEMORY vm, zero_instruction))"
proof (cases "in_range vm (unat (reg vm R_PC)) 8")
  case True
  then have "vm_fetch_bytes 8 vm = (set_reg R_PC (reg vm R_PC + 8) vm, bytes_at vm (reg vm R_PC) 8)"
    using vm_fetch_bytes_eq [OF assms, of 8] in_range_wrapped by simp
  then show ?thesis
    using True
    by (simp add: vm_fetch_instruction_def ZLVM_INSTRUCTION_SIZE_def vm_validate_range_eq
        instruction_decode_def instruction_at_def bytes_at_def)
qed (simp add: vm_fetch_instruction_def ZLVM_INSTRUCTION_SIZE_def vm_validate_range_eq)

lemma vm_step_eq:
  assumes "wf_vm vm" "vm_has_no_error vm"
  shows "vm_step vm =
    (if in_range vm (unat (reg vm R_PC)) 8
     then vm_run_instruction (set_reg R_PC (reg vm R_PC + 8) vm) (instruction_at vm (reg vm R_PC))
     else vm_set_state S_ERR_OUT_OF_MEMORY vm)"
  using assms
  by (simp add: vm_step_def vm_fetch_instruction_eq vm_has_no_error_iff vm_get_set_state is_error_iff)

lemma keeps_step: "wf_vm vm \<Longrightarrow> keeps vm (vm_step vm)"
  by (simp add: vm_step_def vm_fetch_instruction_eq wf_intros)

section \<open>The machine as a transition system\<close>

text \<open>One turn of the loop: the fetch faults and records the error, or the fetched instruction is
  executed.\<close>

inductive vm_turn :: "vm \<Rightarrow> vm \<Rightarrow> bool" where
  fetch_fault: "vm_continues vm \<Longrightarrow> vm_fetch_instruction vm = (vm', ins) \<Longrightarrow>
     \<not> vm_has_no_error vm' \<Longrightarrow> vm_turn vm vm'"
| execute: "vm_continues vm \<Longrightarrow> vm_fetch_instruction vm = (vm', ins) \<Longrightarrow>
     vm_has_no_error vm' \<Longrightarrow> vm_turn vm (vm_run_instruction vm' ins)"

inductive_cases vm_turnE [elim]: "vm_turn vm vm'"

inductive_simps vm_turn_iff: "vm_turn vm vm'"

lemma vm_turn_step: "vm_turn vm vm' \<longleftrightarrow> vm_continues vm \<and> vm' = vm_step vm"
  by (auto simp: vm_turn_iff vm_step_def split: prod.split)

inductive vm_reaches :: "vm \<Rightarrow> vm \<Rightarrow> bool" where
  reach_refl: "vm_reaches vm vm"
| reach_turn: "vm_reaches vm vm' \<Longrightarrow> vm_turn vm' vm'' \<Longrightarrow> vm_reaches vm vm''"

lemma vm_reaches_first: "vm_turn a b \<Longrightarrow> vm_reaches b c \<Longrightarrow> vm_reaches a c"
  by (rotate_tac, induction rule: vm_reaches.induct) (auto intro: vm_reaches.intros)

lemma vm_loop_stop: "\<not> vm_continues vm \<Longrightarrow> vm_loop vm = Some vm"
  by (subst vm_loop.simps) simp

lemma vm_loop_turn: "vm_turn vm vm' \<Longrightarrow> vm_loop vm = vm_loop vm'"
  by (subst vm_loop.simps) (simp add: vm_turn_step)

lemma vm_loop_reaches: "vm_reaches vm vm' \<Longrightarrow> vm_loop vm = vm_loop vm'"
  by (induction rule: vm_reaches.induct) (auto simp: vm_loop_turn)

lemma vm_loop_result: "vm_loop vm = Some vm' \<Longrightarrow> vm_reaches vm vm' \<and> \<not> vm_continues vm'"
proof (rule vm_loop.raw_induct [where P = "\<lambda>a b. vm_reaches a b \<and> \<not> vm_continues b"])
  fix f a b
  assume IH: "\<And>a b. f a = Some b \<Longrightarrow> vm_reaches a b \<and> \<not> vm_continues b"
    and f: "(if vm_continues a then f (vm_step a) else Some a) = Some b"
  show "vm_reaches a b \<and> \<not> vm_continues b"
  proof (cases "vm_continues a")
    case True
    then have "vm_turn a (vm_step a)" by (simp add: vm_turn_step)
    then show ?thesis using True IH f vm_reaches_first by auto
  next
    case False
    then show ?thesis using f reach_refl by auto
  qed
qed

section \<open>Runs\<close>

text \<open>What a run is, told without the code's loop. A machine runs unless it is halted or has an error;
  \<open>S_TOTAL\<close> only counts the states. A running machine whose next instruction does not lie in its memory
  records that it is out of memory; any other one executes the eight bytes at \<open>$pc\<close>, with \<open>$pc\<close> behind them.\<close>

definition running :: "vm \<Rightarrow> bool" where
  "running vm \<longleftrightarrow> vm_get_state vm \<in> {S_NORMAL, S_TOTAL}"

inductive cycle :: "vm \<Rightarrow> vm \<Rightarrow> bool" where
  no_instruction: "running vm \<Longrightarrow> \<not> in_range vm (unat (reg vm R_PC)) 8 \<Longrightarrow>
     cycle vm (vm\<lparr>vm_cpsr := (vm_cpsr vm)\<lparr>cpsr_ST := S_ERR_OUT_OF_MEMORY\<rparr>\<rparr>)"
| instruction: "running vm \<Longrightarrow> in_range vm (unat (reg vm R_PC)) 8 \<Longrightarrow>
     cycle vm (vm_run_instruction (set_reg R_PC (reg vm R_PC + 8) vm) (instruction_at vm (reg vm R_PC)))"

inductive_simps cycle_iff: "cycle vm vm'"

text \<open>Where a run begins.\<close>

definition run_start :: "vm \<Rightarrow> vm" where
  "run_start vm = vm\<lparr>vm_registers := (vm_registers vm)
     [register_index R_PC := vm_entryPoint vm, register_index R_BP := of_nat ZLVM_ROM_SIZE,
      register_index R_SP := of_nat ZLVM_ROM_SIZE]\<rparr>"

lemma running_iff: "running vm \<longleftrightarrow> vm_continues vm"
  by (cases "vm_get_state vm")
    (simp_all add: running_def vm_continues_def vm_has_no_error_iff vm_has_state_def is_error_iff flip: vm_get_state_def)

lemma run_start_eq:
  assumes "wf_vm vm"
  shows "run_start vm = vm_start vm"
proof -
  have "vm_start vm = set_reg R_SP (of_nat ZLVM_ROM_SIZE)
      (set_reg R_BP (of_nat ZLVM_ROM_SIZE) (set_reg R_PC (vm_entryPoint vm) vm))"
    using assms by (simp add: vm_start_def Let_def)
  then show ?thesis by (simp add: run_start_def set_register_def)
qed

lemma cycle_turn:
  assumes "wf_vm vm"
  shows "cycle vm vm' \<longleftrightarrow> vm_turn vm vm'"
proof -
  have "vm_set_state st vm = vm\<lparr>vm_cpsr := (vm_cpsr vm)\<lparr>cpsr_ST := st\<rparr>\<rparr>" if "vm_continues vm" for st
    using that by (simp add: vm_set_state_def vm_continues_def)
  then show ?thesis
    using assms
    by (cases "in_range vm (unat (reg vm R_PC)) 8")
      (auto simp: cycle_iff running_iff vm_turn_step vm_step_eq vm_continues_def)
qed

lemma cycle_step: "wf_vm vm \<Longrightarrow> cycle vm vm' \<longleftrightarrow> vm_continues vm \<and> vm' = vm_step vm"
  by (simp add: cycle_turn vm_turn_step)

lemma step_wf: "wf_vm vm \<Longrightarrow> wf_vm (vm_step vm)"
  using keeps_step by (simp add: keeps_def)

lemma cycles_reach:
  assumes "wf_vm vm"
  shows "cycle\<^sup>*\<^sup>* vm vm' \<longleftrightarrow> vm_reaches vm vm'"
proof
  assume "cycle\<^sup>*\<^sup>* vm vm'"
  then have "vm_reaches vm vm' \<and> wf_vm vm'"
  proof (induction rule: rtranclp_induct)
    case (step v w)
    then show ?case using reach_turn cycle_turn step_wf by (auto simp: vm_turn_step)
  qed (simp add: assms reach_refl)
  then show "vm_reaches vm vm'" ..
next
  assume "vm_reaches vm vm'"
  then have "cycle\<^sup>*\<^sup>* vm vm' \<and> wf_vm vm'"
    using assms
  proof (induction rule: vm_reaches.induct)
    case (reach_turn a b c)
    then show ?case
      using cycle_turn [of b c] step_wf [of b] by (auto simp: vm_turn_step intro: rtranclp.rtrancl_into_rtrancl)
  qed simp
  then show "cycle\<^sup>*\<^sup>* vm vm'" ..
qed

text \<open>An infinite run goes through every machine it reaches.\<close>

lemma infinite_run:
  assumes "wf_vm vm"
  shows "vm_loop vm = None \<longleftrightarrow> (\<exists>f. f 0 = vm \<and> (\<forall>n. cycle (f n) (f (Suc n))))"
proof
  assume none: "vm_loop vm = None"
  have "wf_vm ((vm_step ^^ n) vm) \<and> vm_reaches vm ((vm_step ^^ n) vm) \<and> vm_continues ((vm_step ^^ n) vm)" for n
  proof (induction n)
    case 0
    then show ?case using assms reach_refl none vm_loop_stop by (metis funpow_0 option.distinct(1))
  next
    case (Suc n)
    let ?v = "(vm_step ^^ n) vm"
    have r: "vm_reaches vm (vm_step ?v)" using Suc reach_turn by (simp add: vm_turn_step)
    then have "vm_continues (vm_step ?v)" using none vm_loop_reaches vm_loop_stop by (metis option.distinct(1))
    then show ?case using r step_wf Suc by simp
  qed
  then show "\<exists>f. f 0 = vm \<and> (\<forall>n. cycle (f n) (f (Suc n)))"
    by (intro exI [of _ "\<lambda>n. (vm_step ^^ n) vm"]) (simp add: cycle_step)
next
  assume "\<exists>f. f 0 = vm \<and> (\<forall>n. cycle (f n) (f (Suc n)))"
  then obtain f where f: "f 0 = vm" "\<And>n. cycle (f n) (f (Suc n))" by blast
  have wf: "wf_vm (f n)" for n
  proof (induction n)
    case (Suc n)
    then show ?case using f(2) [of n] step_wf by (simp add: cycle_step)
  qed (simp add: f(1) assms)
  have along: "a = f 0 \<Longrightarrow> \<exists>n. f n = b" if "vm_reaches a b" for a b
    using that
  proof (induction rule: vm_reaches.induct)
    case (reach_turn a b c)
    then obtain n where "f n = b" by blast
    then have "f (Suc n) = c"
      using reach_turn(2) f(2) [of n] wf [of n] by (simp add: cycle_step vm_turn_step)
    then show ?case by blast
  qed blast
  have "vm_loop vm \<noteq> Some v" for v
  proof
    assume "vm_loop vm = Some v"
    then have v: "vm_reaches vm v" "\<not> vm_continues v" using vm_loop_result by blast+
    then obtain n where "f n = v" using along f(1) by blast
    then show False using v(2) f(2) [of n] wf [of n] by (simp add: cycle_step)
  qed
  then show "vm_loop vm = None" using option.exhaust by blast
qed

text \<open>C30: the run of a well-formed machine is its sequence of cycles from the entry point: \<open>vm_run\<close> returns
  a machine exactly when the cycles reach it and it is halted or has an error, it returns that machine's
  state, and it returns nothing exactly when the cycles never end.\<close>

theorem vm_run_iff_reaches:
  assumes "wf_vm vm"
  shows "(vm_run vm = Some (s, vm') \<longleftrightarrow>
      cycle\<^sup>*\<^sup>* (run_start vm) vm' \<and> s = vm_get_state vm' \<and> (s = S_HALTED \<or> is_error s)) \<and>
    (vm_run vm = None \<longleftrightarrow> (\<exists>f. f 0 = run_start vm \<and> (\<forall>n. cycle (f n) (f (Suc n)))))"
proof -
  have w: "wf_vm (vm_start vm)" using assms by (simp add: vm_start_def Let_def)
  have "vm_loop (vm_start vm) = Some vm' \<longleftrightarrow> vm_reaches (vm_start vm) vm' \<and> \<not> vm_continues vm'"
    using vm_loop_result vm_loop_reaches vm_loop_stop by metis
  moreover have "\<not> vm_continues vm' \<longleftrightarrow> vm_get_state vm' = S_HALTED \<or> is_error (vm_get_state vm')"
    by (auto simp: vm_continues_def vm_has_no_error_iff vm_has_state_def vm_get_state_def)
  ultimately show ?thesis
    unfolding run_start_eq [OF assms] cycles_reach [OF w] infinite_run [OF w, symmetric]
    by (auto simp: vm_run_def)
qed

text \<open>C31: the invariant of every run: from a well-formed machine, each machine the turns reach is
  well formed with the same memory size and entry point, \<open>$zero\<close> is zero if it was at the start,
  and once an error is recorded no further turn is possible.\<close>

theorem vm_run_invariant:
  assumes "wf_vm vm" "reg vm R_ZERO = 0" "vm_reaches (vm_start vm) vm'"
  shows "wf_vm vm' \<and> memory_end vm' = memory_end vm \<and> vm_entryPoint vm' = vm_entryPoint vm \<and>
    reg vm' R_ZERO = 0 \<and> (is_error (vm_get_state vm') \<longrightarrow> \<not> vm_turn vm' vm'')"
proof -
  have inv: "wf_vm vm' \<and> vm_memorySize vm' = vm_memorySize vm \<and>
      vm_entryPoint vm' = vm_entryPoint vm \<and> reg vm' R_ZERO = 0"
    using assms(3)
  proof (induction "vm_start vm" vm' rule: vm_reaches.induct)
    case reach_refl
    then show ?case
      using assms(1,2) by (simp add: vm_start_def Let_def)
  next
    case (reach_turn a b)
    then have "b = vm_step a" "wf_vm a" "vm_has_no_error a"
      by (simp_all add: vm_turn_step vm_continues_def)
    moreover have "reg (vm_step a) R_ZERO = 0"
      using calculation reach_turn vm_run_instruction_zero
      by (simp add: vm_step_eq)
    ultimately show ?case
      using reach_turn keeps_step [of a] by (simp add: keeps_def)
  qed
  then show ?thesis
    by (auto simp: memory_end_def vm_turn_step vm_continues_def vm_has_no_error_iff)
qed

section \<open>Fetching what the encoder wrote\<close>

lemma instruction_at_decode:
  "instruction_decode (Some old) (Some (bytes_at vm a 8)) 8 = Some (instruction_at vm a)"
  by (simp add: instruction_decode_def instruction_at_def ZLVM_INSTRUCTION_SIZE_def)

lemma vm_step_of_encoded:
  assumes "instruction_encode (Some out) n (Some ins) = Some (bytes_at vm (reg vm R_PC) 8)"
    and "8 \<le> length out" "wf_vm vm" "vm_has_no_error vm" "in_range vm (unat (reg vm R_PC)) 8"
  shows "vm_step vm = vm_run_instruction (set_reg R_PC (reg vm R_PC + 8) vm) ins"
proof -
  have "instruction_at vm (reg vm R_PC) = ins"
    using instruction_decode_of_encode [OF assms(1,2), of 8] instruction_at_decode by simp
  then show ?thesis using assms(3-5) by (simp add: vm_step_eq)
qed

text \<open>Where the bytes at \<open>$pc\<close> are what \<open>instruction_encode\<close> made of an instruction, the next
  turn advances \<open>$pc\<close> by eight and executes exactly that instruction.\<close>

theorem vm_step_encoded:
  assumes "instruction_encode (Some out) n (Some ins) = Some (bytes_at vm (reg vm R_PC) 8)"
    and "8 \<le> length out" "wf_vm vm" "vm_has_no_error vm" "in_range vm (unat (reg vm R_PC)) 8"
  shows "vm_step vm = vm_run_instruction (set_reg R_PC (reg vm R_PC + 8) vm) ins"
  using assms by (rule vm_step_of_encoded)

section \<open>Running off the end\<close>

lemma zero_bytes_instruction:
  assumes "bytes_at vm a 8 = replicate 8 0"
  shows "instruction_at vm a = zero_instruction"
proof -
  have "le_read ((!) (replicate 8 (0 :: u8))) 4 4 = (0 :: u32)"
    by (rule bit_word_eqI) (auto simp: bit_le_read)
  then show ?thesis
    unfolding instruction_at_def assms zero_instruction_def by simp
qed

lemma run_zero_instruction: "vm_run_instruction vm zero_instruction = vm_finish (set_reg R_ZERO 0 vm) zero_instruction False"
proof (rule run_with_result)
  show "executes vm zero_instruction NOP"
    by (simp add: executes_def zero_instruction_def vm_check_condition_def condition_of_def conditions_def
        condition_holds_def opcode_of_def opcodes_def OPCODE_TOTAL_def C_TOTAL_def vm_sizes)
qed (simp add: vm_execute_def Let_def)

lemma run_off_end:
  assumes "memory_end vm \<le> WORD_MAX"
  shows "wf_vm vm \<Longrightarrow> vm_continues vm \<Longrightarrow> (\<And>a. in_range vm a 1 \<Longrightarrow> mem_byte vm a = 0) \<Longrightarrow>
    unat (reg vm R_PC) = k \<Longrightarrow> d = 0 \<or> k + 8 * d \<le> memory_end vm \<Longrightarrow>
    memory_end vm < k + 8 * d + 8 \<Longrightarrow>
    \<exists>vm'. vm_loop vm = Some vm' \<and> vm_get_state vm' = S_ERR_OUT_OF_MEMORY \<and>
      unat (reg vm' R_PC) = k + 8 * d \<and> vm_stdout vm' = vm_stdout vm"
  using assms
proof (induction d arbitrary: vm k)
  case 0
  then have "\<not> in_range vm (unat (reg vm R_PC)) 8" by (simp add: in_range_def)
  then have "vm_turn vm (vm_set_state S_ERR_OUT_OF_MEMORY vm)"
    using 0 by (simp add: vm_turn_step vm_step_eq vm_continues_def)
  moreover have "\<not> is_error (vm_get_state vm)"
    using 0 by (simp add: vm_continues_def vm_has_no_error_iff)
  then have s: "vm_get_state (vm_set_state S_ERR_OUT_OF_MEMORY vm) = S_ERR_OUT_OF_MEMORY"
    by (simp add: vm_get_set_state)
  then have "\<not> vm_continues (vm_set_state S_ERR_OUT_OF_MEMORY vm)"
    by (simp add: vm_continues_def vm_has_no_error_iff is_error_iff)
  ultimately show ?case
    using 0 s vm_loop_turn vm_loop_stop by auto
next
  case (Suc d)
  let ?pc = "reg vm R_PC"
  let ?f = "set_reg R_PC (?pc + 8) vm"
  let ?n = "vm_finish (set_reg R_ZERO 0 ?f) zero_instruction False"
  have r: "in_range vm (unat ?pc) 8" using Suc.prems by (simp add: in_range_u32)
  have "bytes_at vm ?pc 8 = replicate 8 0"
    using in_range_wrapped [OF r] Suc.prems(3) by (simp add: bytes_at_def list_eq_iff_nth_eq)
  then have "vm_step vm = ?n"
    using r Suc.prems
    by (simp add: vm_step_eq vm_continues_def zero_bytes_instruction run_zero_instruction)
  then have t: "vm_turn vm ?n" using Suc.prems by (simp add: vm_turn_step)
  have k: "keeps vm ?n" by (intro wf_intros)
  then have wf: "wf_vm ?n" using Suc.prems by (simp add: keeps_def)
  have "unat (?pc + 8) = unat ?pc + 8"
    using Suc.prems by (subst unat_word_ariths) (simp add: limits)
  then have "unat (reg ?n R_PC) = k + 8"
    using Suc.prems by (simp add: finish_regs)
  moreover have "vm_continues ?n"
    using Suc.prems(2) by (simp add: vm_continues_def vm_has_state_def vm_has_no_error_def)
  ultimately have "\<exists>vm'. vm_loop ?n = Some vm' \<and> vm_get_state vm' = S_ERR_OUT_OF_MEMORY \<and>
      unat (reg vm' R_PC) = (k + 8) + 8 * d \<and> vm_stdout vm' = vm_stdout ?n"
    using Suc.prems wf by (intro Suc.IH) auto
  then show ?case using vm_loop_turn [OF t] by (simp add: ac_simps)
qed

lemma vm_start_fields [simp]:
  "mem_byte (vm_start vm) = mem_byte vm" "memory_end (vm_start vm) = memory_end vm"
  "in_range (vm_start vm) a n = in_range vm a n" "vm_stdout (vm_start vm) = vm_stdout vm"
  "wf_vm (vm_start vm) = wf_vm vm" "vm_cpsr (vm_start vm) = vm_cpsr vm"
  "vm_memorySize (vm_start vm) = vm_memorySize vm"
  by (simp_all add: vm_start_def Let_def)

lemma vm_start_regs:
  "wf_vm vm \<Longrightarrow> reg (vm_start vm) r =
     (if r = R_PC then vm_entryPoint vm else if r = R_BP \<or> r = R_SP then of_nat ZLVM_ROM_SIZE
      else reg vm r)"
  by (auto simp: vm_start_def Let_def)

text \<open>C32: a machine whose memory ends below 4 GiB and holds only zero bytes, which are \<open>NOP\<close> instructions,
  always stops, whatever its entry point: from a normal state it runs to the last whole instruction slot
  that its entry point leaves below the end of its memory and reports out of memory there; a machine that
  is halted or has an error stops at once in that state. Nothing is written to the host. (In a memory of
  4 GiB or more the 32-bit \<open>$pc\<close> can wrap and the machine run on.)\<close>

theorem vm_zero_memory_stops:
  assumes "wf_vm vm" "memory_end vm \<le> WORD_MAX" "\<And>a. in_range vm a 1 \<Longrightarrow> mem_byte vm a = 0"
  shows "\<exists>s vm'. vm_run vm = Some (s, vm') \<and> vm_stdout vm' = vm_stdout vm \<and>
    (if vm_get_state vm = S_HALTED \<or> is_error (vm_get_state vm)
     then s = vm_get_state vm \<and> reg vm' R_PC = vm_entryPoint vm
     else s = S_ERR_OUT_OF_MEMORY \<and>
       unat (reg vm' R_PC) = unat (vm_entryPoint vm) + 8 * ((memory_end vm - unat (vm_entryPoint vm)) div 8))"
proof (cases "vm_continues (vm_start vm)")
  case False
  moreover have "vm_get_state (vm_start vm) = vm_get_state vm" by (simp add: vm_get_state_def)
  ultimately show ?thesis
    using assms(1)
    by (auto simp: vm_run_def vm_loop_stop vm_continues_def vm_has_no_error_iff vm_has_state_def vm_start_regs
        simp flip: vm_get_state_def)
next
  case True
  let ?e = "unat (vm_entryPoint vm)"
  let ?d = "(memory_end vm - ?e) div 8"
  have d: "?d = 0 \<or> ?e + 8 * ?d \<le> memory_end vm" "memory_end vm < ?e + 8 * ?d + 8" by linarith+
  have "\<exists>vm'. vm_loop (vm_start vm) = Some vm' \<and> vm_get_state vm' = S_ERR_OUT_OF_MEMORY \<and>
      unat (reg vm' R_PC) = ?e + 8 * ?d \<and> vm_stdout vm' = vm_stdout (vm_start vm)"
    using assms True d by (intro run_off_end) (simp_all add: vm_start_regs)
  moreover have "\<not> (vm_get_state vm = S_HALTED \<or> is_error (vm_get_state vm))"
    using True by (auto simp: vm_continues_def vm_has_no_error_def vm_has_state_def vm_get_state_def)
  ultimately show ?thesis by (auto simp: vm_run_def)
qed

text \<open>From the start of a run the stack is usable and empty, with room for as many words as
  fit in both 256 bytes and the RAM.\<close>

theorem vm_start_stack:
  assumes "wf_vm vm" "vm_has_no_error vm" "memory_end vm \<le> WORD_MAX"
  shows "stack_inv (vm_start vm) \<and> stack_words (vm_start vm) = [] \<and>
    stack_room (vm_start vm) = min 64 (vm_memorySize vm div 4)"
  using assms
  by (simp add: stack_inv_def stack_words_def stack_room_def stack_used_def vm_start_regs
      vm_has_no_error_def vm_sizes memory_end_def)

end
