(* ===== verification/Image_Format.thy ===== *)
theory Image_Format
  imports Image
begin

text \<open>
  The image format as one concatenation of tables, and the proof that the encoder, which writes
  records, names and data in place at moving cursors, produces exactly that concatenation.
\<close>

section \<open>Writing at a known place\<close>

definition le32 :: "u32 \<Rightarrow> u8 list" where
  "le32 v = map (le_byte v) [0..<4]"

lemma length_le32 [simp]: "length (le32 v) = 4"
  by (simp add: le32_def)

lemma bytes_write_append:
  "bytes_write wr a (bs @ cs) s = bytes_write wr (a + length bs) cs (bytes_write wr a bs s)"
  by (induction bs arbitrary: a s) simp_all

lemma bytes_write_one: "out[a := b] = bytes_write list_update a [b] out"
  by simp

lemma put32_bytes: "put32 out a v = bytes_write list_update a (le32 v) out"
  by (simp add: put32_def le32_def le_write_def upt_rec)

text \<open>Consecutive writes are one write.\<close>

lemma bytes_write_merge:
  "b = a + length bs \<Longrightarrow>
     bytes_write list_update b cs (bytes_write list_update a bs out) =
     bytes_write list_update a (bs @ cs) out"
  by (simp add: bytes_write_append)

lemma bytes_write_at:
  "a = length A \<Longrightarrow> length bs = length B \<Longrightarrow>
     bytes_write list_update a bs (A @ B @ C) = A @ bs @ C"
  by (subst bytes_write_eq) simp_all

abbreviation zeros :: "nat \<Rightarrow> u8 list" where
  "zeros n \<equiv> replicate n 0"

lemma zeros_split: "n + k = m \<Longrightarrow> zeros m = zeros n @ zeros k"
  by (auto simp: replicate_add)

section \<open>The format\<close>

definition name_bytes :: "cstring option \<Rightarrow> u8 list" where
  "name_bytes n = c_name n @ [0]"

definition section_payload :: "zl_section \<Rightarrow> u8 list" where
  "section_payload s =
     (if sec_type s = ZL_IMAGE_SECTION_BSS then [] else c_array (sec_data s) (sec_data_size s))"

definition section_record :: "u32 \<Rightarrow> zl_section \<Rightarrow> nat \<Rightarrow> u8 list" where
  "section_record name_offset s payload_offset =
     le32 name_offset @ le32 (sec_type s) @ le32 (sec_flags s) @ le32 (sec_alignment s) @
     le32 (sec_address s) @ le32 (of_nat payload_offset) @ le32 (of_nat (sec_data_size s))"

fun section_table :: "zl_section list \<Rightarrow> nat \<Rightarrow> nat \<Rightarrow> u8 list" where
  "section_table [] sc pc = []"
| "section_table (s # ss) sc pc =
     section_record (of_nat sc) s pc @
     section_table ss (sc + length (name_bytes (sec_name s))) (pc + length (section_payload s))"

definition symbol_record :: "u32 \<Rightarrow> zl_symbol \<Rightarrow> u8 list" where
  "symbol_record name_offset s =
     le32 name_offset @ le32 (sym_section_index s) @ le32 (sym_value s) @ le32 (sym_size s) @
     [sym_binding s, sym_type s, 0, 0]"

fun symbol_table :: "zl_symbol list \<Rightarrow> nat \<Rightarrow> u8 list" where
  "symbol_table [] sc = []"
| "symbol_table (s # ss) sc =
     symbol_record (of_nat sc) s @ symbol_table ss (sc + length (name_bytes (sym_name s)))"

definition relocation_record :: "zl_relocation \<Rightarrow> u8 list" where
  "relocation_record r =
     le32 (rel_section_index r) @ le32 (rel_offset r) @ le32 (rel_type r) @
     le32 (rel_symbol_index r) @ le32 (rel_addend r)"

definition section_names :: "zl_section list \<Rightarrow> u8 list" where
  "section_names ss = concat (map (name_bytes \<circ> sec_name) ss)"

definition symbol_names :: "zl_symbol list \<Rightarrow> u8 list" where
  "symbol_names ss = concat (map (name_bytes \<circ> sym_name) ss)"

definition payloads :: "zl_section list \<Rightarrow> u8 list" where
  "payloads ss = concat (map section_payload ss)"

lemma length_records [simp]:
  "length (section_record n s p) = 28" "length (symbol_record n y) = 20"
  "length (relocation_record r) = 20"
  by (simp_all add: section_record_def symbol_record_def relocation_record_def)

lemma length_section_table [simp]: "length (section_table ss sc pc) = 28 * length ss"
  by (induction ss sc pc rule: section_table.induct) simp_all

lemma length_symbol_table [simp]: "length (symbol_table ss sc) = 20 * length ss"
  by (induction ss sc rule: symbol_table.induct) simp_all

lemma list_cons_simps [simp]:
  "section_names [] = []" "section_names (s # ss) = name_bytes (sec_name s) @ section_names ss"
  "symbol_names [] = []" "symbol_names (y # ys) = name_bytes (sym_name y) @ symbol_names ys"
  "payloads [] = []" "payloads (s # ss) = section_payload s @ payloads ss"
  by (simp_all add: section_names_def symbol_names_def payloads_def)

section \<open>The writing loops fill the tables\<close>

lemma append_string_fits:
  assumes "sc + length (name_bytes n) \<le> string_size" "string_size \<le> WORD_MAX"
  shows "append_string out base string_size sc n =
    Some (bytes_write list_update (base + sc) (name_bytes n) out, sc + length (name_bytes n), of_nat sc)"
proof -
  have "size_sub string_size sc = string_size - sc"
  proof -
    have "string_size + (SIZE_T_MAX + 1) - sc = (string_size - sc) + (SIZE_T_MAX + 1)"
      using assms by (simp add: name_bytes_def)
    moreover have "string_size - sc < SIZE_T_MAX + 1"
      using assms by (simp add: limits)
    ultimately show ?thesis unfolding size_sub_def by (metis mod_add_self2 mod_less)
  qed
  then show ?thesis
    using assms by (simp add: append_string_def name_bytes_def Let_def)
qed

lemma append_name_fits:
  assumes "sc + length (name_bytes n) \<le> string_size" "string_size \<le> WORD_MAX"
  shows "append_name out base string_size sc n =
    (bytes_write list_update (base + sc) (name_bytes n) out, sc + length (name_bytes n), of_nat sc)"
  using append_string_fits [OF assms] by (simp add: append_name_def)

lemma write_sections:
  assumes "\<forall>s \<in> set xs. length (section_payload s) =
      (if sec_type s = ZL_IMAGE_SECTION_BSS then 0 else sec_data_size s)"
    and "string_size \<le> WORD_MAX"
  shows "off_section off + i * 28 = length H \<Longrightarrow>
    off_string off + sc = length H + 28 * length xs + length M \<Longrightarrow>
    pc = length H + 28 * length xs + length M + length (section_names xs) + length Q \<Longrightarrow>
    sc + length (section_names xs) \<le> string_size \<Longrightarrow>
    foldl (write_section off string_size)
      (H @ zeros (28 * length xs) @ M @ zeros (length (section_names xs)) @ Q @
         zeros (length (payloads xs)) @ R, sc, pc) (enumerate i xs) =
    (H @ section_table xs sc pc @ M @ section_names xs @ Q @ payloads xs @ R,
     sc + length (section_names xs), pc + length (payloads xs))"
  using assms
proof (induction xs arbitrary: i H M Q sc pc)
  case Nil
  then show ?case by simp
next
  case (Cons x xs)
  let ?n = "name_bytes (sec_name x)" and ?p = "section_payload x"
  let ?rec = "section_record (of_nat sc) x pc"
  let ?buf = "\<lambda>T N P. H @ T @ zeros (28 * length xs) @ M @ N @ zeros (length (section_names xs)) @ Q @
    P @ zeros (length (payloads xs)) @ R"
  have start: "H @ zeros (28 * length (x # xs)) @ M @ zeros (length (section_names (x # xs))) @ Q @
      zeros (length (payloads (x # xs))) @ R = ?buf (zeros 28) (zeros (length ?n)) (zeros (length ?p))"
    by (simp add: replicate_add)
  have name: "append_name (?buf (zeros 28) N (zeros (length ?p))) (off_string off) string_size sc (sec_name x) =
      (?buf (zeros 28) ?n (zeros (length ?p)), sc + length ?n, of_nat sc)" if "length N = length ?n" for N
  proof -
    have "bytes_write list_update (off_string off + sc) ?n (?buf (zeros 28) N (zeros (length ?p))) =
        ?buf (zeros 28) ?n (zeros (length ?p))"
      using bytes_write_at [of "off_string off + sc" "H @ zeros 28 @ zeros (28 * length xs) @ M" ?n N
          "zeros (length (section_names xs)) @ Q @ zeros (length ?p) @ zeros (length (payloads xs)) @ R"]
        Cons.prems that by simp
    then show ?thesis using append_name_fits [of sc "sec_name x" string_size] Cons.prems by simp
  qed
  have rec: "put32 (put32 (put32 (put32 (put32 (put32 (put32 (?buf (zeros 28) ?n P)
      (length H) (of_nat sc)) (length H + 4) (sec_type x)) (length H + 8) (sec_flags x))
      (length H + 12) (sec_alignment x)) (length H + 16) (sec_address x))
      (length H + 20) (of_nat pc)) (length H + 24) (of_nat (sec_data_size x)) = ?buf ?rec ?n P" for P
    by (simp add: put32_bytes bytes_write_merge bytes_write_at section_record_def)
  have pay: "bytes_write list_update pc ?p (?buf ?rec ?n (zeros (length ?p))) = ?buf ?rec ?n ?p"
    using bytes_write_at [of pc "H @ ?rec @ zeros (28 * length xs) @ M @ ?n @ zeros (length (section_names xs)) @ Q"
        ?p "zeros (length ?p)" "zeros (length (payloads xs)) @ R"] Cons.prems by simp
  have len: "length ?p = (if sec_type x = ZL_IMAGE_SECTION_BSS then 0 else sec_data_size x)"
    using Cons.prems by simp
  have step: "write_section off string_size
      (?buf (zeros 28) (zeros (length ?n)) (zeros (length ?p)), sc, pc) (i, x) =
      (?buf ?rec ?n ?p, sc + length ?n, pc + length ?p)"
  proof -
    have cases: "sec_type x \<noteq> ZL_IMAGE_SECTION_BSS \<and> sec_data_size x \<noteq> 0 \<Longrightarrow>
        c_array (sec_data x) (sec_data_size x) = ?p \<and> length ?p = sec_data_size x"
      "\<not> (sec_type x \<noteq> ZL_IMAGE_SECTION_BSS \<and> sec_data_size x \<noteq> 0) \<Longrightarrow> ?p = []"
      using len by (auto simp: section_payload_def)
    note unfolds = write_section_def Let_def prod.case IMAGE_SECTION_RECORD_SIZE_def Cons.prems(1)
        name [OF length_replicate] rec
    show ?thesis
    proof (cases "sec_type x \<noteq> ZL_IMAGE_SECTION_BSS \<and> sec_data_size x \<noteq> 0")
      case True
      then show ?thesis using cases(1) pay unfolding unfolds by simp
    next
      case False
      then show ?thesis using cases(2) unfolding unfolds by simp
    qed
  qed
  have "foldl (write_section off string_size) (?buf ?rec ?n ?p, sc + length ?n, pc + length ?p)
      (enumerate (Suc i) xs) =
    ((H @ ?rec) @ section_table xs (sc + length ?n) (pc + length ?p) @ (M @ ?n) @ section_names xs @
       (Q @ ?p) @ payloads xs @ R,
     sc + length ?n + length (section_names xs), pc + length ?p + length (payloads xs))"
    using Cons.IH [of "Suc i" "H @ ?rec" "sc + length ?n" "M @ ?n" "pc + length ?p" "Q @ ?p"] Cons.prems
    by simp
  then show ?case
    unfolding start by (simp add: step)
qed

lemma write_symbols:
  assumes "string_size \<le> WORD_MAX"
  shows "off_symbol off + i * 20 = length H \<Longrightarrow>
    off_string off + sc = length H + 20 * length ys + length M \<Longrightarrow>
    sc + length (symbol_names ys) \<le> string_size \<Longrightarrow>
    foldl (write_symbol off string_size)
      (H @ zeros (20 * length ys) @ M @ zeros (length (symbol_names ys)) @ R, sc) (enumerate i ys) =
    (H @ symbol_table ys sc @ M @ symbol_names ys @ R, sc + length (symbol_names ys))"
  using assms
proof (induction ys arbitrary: i H M sc)
  case Nil
  then show ?case by simp
next
  case (Cons y ys)
  let ?n = "name_bytes (sym_name y)" and ?rec = "symbol_record (of_nat sc) y"
  let ?buf = "\<lambda>T N. H @ T @ zeros (20 * length ys) @ M @ N @ zeros (length (symbol_names ys)) @ R"
  have start: "H @ zeros (20 * length (y # ys)) @ M @ zeros (length (symbol_names (y # ys))) @ R =
      ?buf (zeros 20) (zeros (length ?n))"
    by (simp add: replicate_add)
  have name: "append_name (?buf (zeros 20) (zeros (length ?n))) (off_string off) string_size sc (sym_name y) =
      (?buf (zeros 20) ?n, sc + length ?n, of_nat sc)"
    using bytes_write_at [of "off_string off + sc" "H @ zeros 20 @ zeros (20 * length ys) @ M" ?n
        "zeros (length ?n)" "zeros (length (symbol_names ys)) @ R"]
      append_name_fits [of sc "sym_name y" string_size] Cons.prems by simp
  have z: "zeros 20 = zeros 18 @ [0, 0]" by (simp add: numeral_eq_Suc)
  have rec: "(put32 (put32 (put32 (put32 (?buf (zeros 20) ?n) (length H) (of_nat sc))
      (length H + 4) (sym_section_index y)) (length H + 8) (sym_value y)) (length H + 12) (sym_size y))
      [length H + 16 := sym_binding y, length H + 17 := sym_type y] = ?buf ?rec ?n"
    unfolding z
    by (simp add: put32_bytes bytes_write_one [of _ "length H + _"] bytes_write_merge bytes_write_at
        symbol_record_def del: bytes_write.simps)
  have step: "write_symbol off string_size (?buf (zeros 20) (zeros (length ?n)), sc) (i, y) =
      (?buf ?rec ?n, sc + length ?n)"
    unfolding write_symbol_def Let_def prod.case IMAGE_SYMBOL_RECORD_SIZE_def Cons.prems(1) name rec ..
  have "foldl (write_symbol off string_size) (?buf ?rec ?n, sc + length ?n) (enumerate (Suc i) ys) =
    ((H @ ?rec) @ symbol_table ys (sc + length ?n) @ (M @ ?n) @ symbol_names ys @ R,
     sc + length ?n + length (symbol_names ys))"
    using Cons.IH [of "Suc i" "H @ ?rec" "sc + length ?n" "M @ ?n"] Cons.prems by simp
  then show ?case unfolding start by (simp add: step)
qed

lemma write_relocations:
  "off_relocation off + i * 20 = length H \<Longrightarrow>
    foldl (write_relocation off) (H @ zeros (20 * length rs) @ R) (enumerate i rs) =
    H @ concat (map relocation_record rs) @ R"
proof (induction rs arbitrary: i H)
  case Nil
  then show ?case by simp
next
  case (Cons r rs)
  let ?rec = "relocation_record r"
  have start: "H @ zeros (20 * length (r # rs)) @ R = H @ zeros 20 @ zeros (20 * length rs) @ R"
    by (simp add: replicate_add)
  have "write_relocation off (H @ zeros 20 @ zeros (20 * length rs) @ R) (i, r) =
      H @ ?rec @ zeros (20 * length rs) @ R"
    unfolding write_relocation_def Let_def prod.case IMAGE_RELOCATION_RECORD_SIZE_def Cons.prems
    by (simp add: put32_bytes bytes_write_merge bytes_write_at relocation_record_def)
  then show ?case
    unfolding start using Cons.IH [of "Suc i" "H @ ?rec"] Cons.prems by simp
qed

text \<open>The header, with the entry field and the offsets it records.\<close>

definition header_record :: "zl_image \<Rightarrow> u32 \<Rightarrow> image_offsets \<Rightarrow> nat \<Rightarrow> u8 list" where
  "header_record img entry off string_size =
     (image_magic @ [1, 0, img_kind img]) @ [0] @
     (le32 52 @ le32 (of_nat (img_section_count img)) @ le32 (of_nat (img_symbol_count img)) @
      le32 (of_nat (img_relocation_count img))) @ le32 entry @
     (le32 (of_nat (off_section off)) @ le32 (of_nat (off_symbol off)) @
      le32 (of_nat (off_relocation off)) @ le32 (of_nat (off_string off)) @
      le32 (of_nat string_size) @ le32 (of_nat (off_payload off)))"

lemma length_header_record [simp]: "length (header_record img e off n) = 52"
  by (simp add: header_record_def image_magic_def)

lemma write_header_eq:
  "write_header img off n (zeros 52 @ R) = header_record img (img_entry_point img) off n @ R"
proof -
  have m: "length image_magic = 4" by (simp add: image_magic_def)
  have z: "zeros 52 @ R = [] @ zeros 7 @ [0] @ zeros 44 @ R"
    by (simp add: numeral_eq_Suc)
  have p16: "put16 out 4 1 = bytes_write list_update 4 [1, 0] out" for out
    by (simp add: put16_def drop_bit_Suc numeral_eq_Suc)
  have k: "out[6 := x] = bytes_write list_update 6 [x] out" for out and x :: u8
    by simp
  have first: "bytes_write list_update 0 ((image_magic @ [1, 0]) @ [img_kind img]) ([] @ zeros 7 @ [0] @ zeros 44 @ R) =
      (image_magic @ [1, 0, img_kind img]) @ [0] @ zeros 44 @ R"
    by (subst bytes_write_at) (simp_all add: m)
  have l: "length (image_magic @ [1, 0, img_kind img] @ [0]) = 8" by (simp add: m)
  have second: "bytes_write list_update 8 bs ((image_magic @ [1, 0, img_kind img]) @ [0] @ zeros 44 @ R) =
      (image_magic @ [1, 0, img_kind img]) @ [0] @ bs @ R" if "length bs = 44" for bs
    using bytes_write_at [of 8 "image_magic @ [1, 0, img_kind img] @ [0]" bs "zeros 44" R] that l by simp
  show ?thesis
    unfolding write_header_def Let_def put32_bytes IMAGE_VERSION_def p16 k z IMAGE_HEADER_SIZE_def
    by (simp add: bytes_write_merge m first [simplified] second [simplified] header_record_def del: bytes_write.simps)
qed

section \<open>The encoded image\<close>

text \<open>C pointers are good: arrays are as long as their counts, section data as its size, and names
  hold no terminator.\<close>

definition c_string_ok :: "cstring option \<Rightarrow> bool" where
  "c_string_ok n \<longleftrightarrow> 0 \<notin> set (c_name n)"

definition section_mem_ok :: "zl_section \<Rightarrow> bool" where
  "section_mem_ok s \<longleftrightarrow> c_string_ok (sec_name s) \<and>
     (case sec_data s of None \<Rightarrow> True | Some d \<Rightarrow> sec_data_size s \<le> length d)"

definition image_mem_ok :: "zl_image \<Rightarrow> bool" where
  "image_mem_ok img \<longleftrightarrow>
     (case img_sections img of None \<Rightarrow> True | Some xs \<Rightarrow> img_section_count img \<le> length xs) \<and>
     (case img_symbols img of None \<Rightarrow> True | Some xs \<Rightarrow> img_symbol_count img \<le> length xs) \<and>
     (case img_relocations img of None \<Rightarrow> True | Some xs \<Rightarrow> img_relocation_count img \<le> length xs) \<and>
     (\<forall>s \<in> set (image_sections img). section_mem_ok s) \<and>
     (\<forall>y \<in> set (image_symbols img). c_string_ok (sym_name y)) \<and> c_string_ok (img_entry_symbol img)"

text \<open>The entry symbol's name, which only objects store, and the entry field of the header.\<close>

definition entry_name :: "zl_image \<Rightarrow> u8 list" where
  "entry_name img =
     (if img_kind img = ZL_IMAGE_OBJECT \<and> img_entry_symbol img \<noteq> None
      then name_bytes (img_entry_symbol img) else [])"

definition string_table :: "zl_image \<Rightarrow> u8 list" where
  "string_table img =
     [0] @ section_names (image_sections img) @ symbol_names (image_symbols img) @ entry_name img"

definition entry_field :: "zl_image \<Rightarrow> u32" where
  "entry_field img =
     (if img_kind img = ZL_IMAGE_OBJECT \<and> img_entry_symbol img \<noteq> None
      then of_nat (1 + length (section_names (image_sections img)) +
             length (symbol_names (image_symbols img)))
      else img_entry_point img)"

definition layout_offsets :: "zl_image \<Rightarrow> image_offsets" where
  "layout_offsets img =
     \<lparr>off_section = 52, off_symbol = 52 + 28 * img_section_count img,
      off_relocation = 52 + 28 * img_section_count img + 20 * img_symbol_count img,
      off_string = 52 + 28 * img_section_count img + 20 * img_symbol_count img +
        20 * img_relocation_count img,
      off_payload = 52 + 28 * img_section_count img + 20 * img_symbol_count img +
        20 * img_relocation_count img + length (string_table img)\<rparr>"

definition image_layout :: "zl_image \<Rightarrow> u8 list" where
  "image_layout img =
     header_record img (entry_field img) (layout_offsets img) (length (string_table img)) @
     section_table (image_sections img) 1 (off_payload (layout_offsets img)) @
     symbol_table (image_symbols img) (1 + length (section_names (image_sections img))) @
     concat (map relocation_record (image_relocations img)) @
     string_table img @ payloads (image_sections img)"

lemma layout_offsets_sel [simp]:
  "off_section (layout_offsets img) = 52"
  "off_symbol (layout_offsets img) = 52 + 28 * img_section_count img"
  "off_relocation (layout_offsets img) = 52 + 28 * img_section_count img + 20 * img_symbol_count img"
  "off_string (layout_offsets img) = 52 + 28 * img_section_count img + 20 * img_symbol_count img +
     20 * img_relocation_count img"
  "off_payload (layout_offsets img) = 52 + 28 * img_section_count img + 20 * img_symbol_count img +
     20 * img_relocation_count img + length (string_table img)"
  by (simp_all add: layout_offsets_def)

definition arrays_ok :: "zl_image \<Rightarrow> bool" where
  "arrays_ok img \<longleftrightarrow>
     length (image_sections img) = img_section_count img \<and>
     length (image_symbols img) = img_symbol_count img \<and>
     length (image_relocations img) = img_relocation_count img"

lemma arrays_okI: "image_mem_ok img \<Longrightarrow> \<not> null_arrays img \<Longrightarrow> arrays_ok img"
  by (auto simp: arrays_ok_def image_mem_ok_def null_arrays_def c_array_def split: option.splits)

lemma zeros_join:
  "zeros a @ zeros b = zeros (a + b)" "zeros a @ zeros b @ R = zeros (a + b) @ R"
  by (simp_all add: replicate_add)

lemma put32_entry:
  "put32 (header_record img e off n @ R) 24 v = header_record img v off n @ R"
proof -
  let ?A = "(image_magic @ [1, 0, img_kind img]) @ [0] @ le32 52 @ le32 (of_nat (img_section_count img)) @
    le32 (of_nat (img_symbol_count img)) @ le32 (of_nat (img_relocation_count img))"
  have "length ?A = 24" by (simp add: image_magic_def)
  then show ?thesis
    using bytes_write_at [of 24 ?A "le32 v" "le32 e"] by (simp add: put32_bytes header_record_def)
qed

lemma encode_into_layout:
  assumes "arrays_ok img" "length (string_table img) \<le> WORD_MAX"
    and pay: "\<forall>s \<in> set (image_sections img). length (section_payload s) =
      (if sec_type s = ZL_IMAGE_SECTION_BSS then 0 else sec_data_size s)"
  shows "encode_into img (layout_offsets img) (length (string_table img))
      (off_payload (layout_offsets img) + length (payloads (image_sections img))) =
    Inr (image_layout img)"
proof -
  let ?off = "layout_offsets img" and ?ss = "length (string_table img)"
  let ?xs = "image_sections img" and ?ys = "image_symbols img" and ?rs = "image_relocations img"
  let ?n = "length (section_names ?xs)" and ?m = "length (symbol_names ?ys)" and ?e = "length (entry_name img)"
  let ?zp = "zeros (length (payloads ?xs))"
  let ?H = "header_record img (img_entry_point img) ?off ?ss"
  let ?T = "section_table ?xs 1 (off_payload ?off)" and ?Y = "symbol_table ?ys (1 + ?n)"
  let ?P = "payloads ?xs"
  have len: "length ?xs = img_section_count img" "length ?ys = img_symbol_count img"
    "length ?rs = img_relocation_count img"
    using assms(1) by (simp_all add: arrays_ok_def)
  have ss: "?ss = 1 + ?n + ?m + ?e" by (simp add: string_table_def)
  have blank: "zeros (off_payload ?off + length ?P) =
      zeros 52 @ zeros (28 * length ?xs) @ (zeros (20 * length ?ys) @ zeros (20 * length ?rs) @ [0]) @
      zeros ?n @ (zeros ?m @ zeros ?e) @ ?zp @ []"
  proof -
    have one: "[0] = zeros 1" by simp
    show ?thesis
      unfolding one append_assoc append_Nil2 zeros_join
      by (rule arg_cong [where f = zeros]) (simp add: ss len)
  qed
  have header: "write_header img ?off ?ss (zeros (off_payload ?off + length ?P)) =
      ?H @ zeros (28 * length ?xs) @ (zeros (20 * length ?ys) @ zeros (20 * length ?rs) @ [0]) @
      zeros ?n @ (zeros ?m @ zeros ?e) @ ?zp @ []"
    unfolding blank by (rule write_header_eq)
  have sections: "foldl (write_section ?off ?ss)
      (?H @ zeros (28 * length ?xs) @ (zeros (20 * length ?ys) @ zeros (20 * length ?rs) @ [0]) @
        zeros ?n @ (zeros ?m @ zeros ?e) @ ?zp @ [], 1, off_payload ?off) (enumerate 0 ?xs) =
      (?H @ ?T @ (zeros (20 * length ?ys) @ zeros (20 * length ?rs) @ [0]) @ section_names ?xs @
        (zeros ?m @ zeros ?e) @ ?P @ [], 1 + ?n, off_payload ?off + length ?P)"
    by (rule write_sections) (use assms(2) pay in \<open>simp_all add: ss len\<close>)
  have symbols: "foldl (write_symbol ?off ?ss)
      ((?H @ ?T) @ zeros (20 * length ?ys) @ (zeros (20 * length ?rs) @ [0] @ section_names ?xs) @
        zeros ?m @ (zeros ?e @ ?P), 1 + ?n) (enumerate 0 ?ys) =
      ((?H @ ?T) @ ?Y @ (zeros (20 * length ?rs) @ [0] @ section_names ?xs) @ symbol_names ?ys @
        (zeros ?e @ ?P), 1 + ?n + ?m)"
    by (rule write_symbols) (use assms(2) in \<open>simp_all add: ss len\<close>)
  have relocations: "foldl (write_relocation ?off)
      ((H @ ?T @ ?Y) @ zeros (20 * length ?rs) @ R) (enumerate 0 ?rs) =
      (H @ ?T @ ?Y) @ concat (map relocation_record ?rs) @ R" if "length H = 52" for H R
    by (rule write_relocations) (use that in \<open>simp add: len\<close>)
  define finish where "finish = (\<lambda>result. Inr (foldl (write_relocation ?off) result (enumerate 0 ?rs)) ::
    image_error + u8 list)"
  let ?S = "?H @ ?T @ ?Y @ zeros (20 * length ?rs) @ [0] @ section_names ?xs @ symbol_names ?ys"
  have run: "encode_into img ?off ?ss (off_payload ?off + length ?P) =
    (case img_entry_symbol img of
       Some entry \<Rightarrow>
         if img_kind img = ZL_IMAGE_OBJECT
         then (case append_string (?S @ zeros ?e @ ?P) (off_string ?off) ?ss (1 + ?n + ?m) (Some entry) of
                 None \<Rightarrow> Inl ZL_IMAGE_ERROR_OVERFLOW
               | Some (result, _, entry_offset) \<Rightarrow> finish (put32 result 24 entry_offset))
         else finish (?S @ zeros ?e @ ?P)
     | None \<Rightarrow> finish (?S @ zeros ?e @ ?P))"
    unfolding encode_into_def Let_def finish_def header sections prod.case
    unfolding symbols [simplified append_assoc append_Nil2] append_assoc append_Nil2 prod.case ..
  have fin: "finish (H @ ?T @ ?Y @ zeros (20 * length ?rs) @ R) =
      Inr (H @ ?T @ ?Y @ concat (map relocation_record ?rs) @ R)" if "length H = 52" for H R
    using relocations [OF that, of R] unfolding finish_def append_assoc by simp
  show ?thesis
  proof (cases "img_kind img = ZL_IMAGE_OBJECT \<and> img_entry_symbol img \<noteq> None")
    case True
    then obtain entry where e: "img_entry_symbol img = Some entry" and k: "img_kind img = ZL_IMAGE_OBJECT"
      by auto
    have en: "entry_name img = name_bytes (Some entry)" and ef: "entry_field img = of_nat (1 + ?n + ?m)"
      using e k by (simp_all add: entry_name_def entry_field_def)
    have w: "bytes_write list_update (off_string ?off + (1 + ?n + ?m)) (name_bytes (Some entry)) (?S @ zeros ?e @ ?P) =
        ?S @ name_bytes (Some entry) @ ?P"
      by (rule bytes_write_at) (simp_all add: len en)
    have "1 + ?n + ?m + length (name_bytes (Some entry)) \<le> ?ss"
      by (simp only: ss en order.refl)
    then have "append_string (?S @ zeros ?e @ ?P) (off_string ?off) ?ss (1 + ?n + ?m) (Some entry) =
        Some (?S @ name_bytes (Some entry) @ ?P, 1 + ?n + ?m + length (name_bytes (Some entry)), of_nat (1 + ?n + ?m))"
      using append_string_fits [OF _ assms(2), of "1 + ?n + ?m" "Some entry" "?S @ zeros ?e @ ?P" "off_string ?off"]
      unfolding w by blast
    then have "encode_into img ?off ?ss (off_payload ?off + length ?P) =
        finish (put32 (?S @ name_bytes (Some entry) @ ?P) 24 (of_nat (1 + ?n + ?m)))"
      unfolding run e k by (simp only: option.case prod.case simp_thms if_True)
    also have "\<dots> = finish (header_record img (entry_field img) ?off ?ss @ ?T @ ?Y @ zeros (20 * length ?rs) @
        [0] @ section_names ?xs @ symbol_names ?ys @ name_bytes (Some entry) @ ?P)"
      unfolding append_assoc put32_entry ef ..
    finally show ?thesis
      unfolding fin [OF length_header_record] by (simp add: image_layout_def string_table_def en)
  next
    case False
    then have en: "entry_name img = []" "entry_field img = img_entry_point img"
      by (auto simp: entry_name_def entry_field_def)
    have "encode_into img ?off ?ss (off_payload ?off + length ?P) = finish (?S @ zeros ?e @ ?P)"
      unfolding run using False by (auto split: option.split)
    then show ?thesis
      unfolding append_assoc fin [OF length_header_record]
      by (simp add: image_layout_def string_table_def en)
  qed
qed

section \<open>When the encoder succeeds\<close>

lemma add_size_eq:
  "l \<le> SIZE_T_MAX \<Longrightarrow> add_size l r = (if l + r \<le> SIZE_T_MAX then Some (l + r) else None)"
  by (auto simp: add_size_def)

lemma multiply_size_eq: "multiply_size l r = (if l * r \<le> SIZE_T_MAX then Some (l * r) else None)"
  using div_less_iff_less_mult [of l SIZE_T_MAX r]
  by (cases "l = 0") (auto simp: multiply_size_def mult.commute [of r])

definition names_length :: "cstring option list \<Rightarrow> nat" where
  "names_length ns = length (concat (map name_bytes ns))"

lemma names_size_eq:
  "n \<le> SIZE_T_MAX \<Longrightarrow> names_size ns n =
     (if n + names_length ns \<le> SIZE_T_MAX then Some (n + names_length ns) else None)"
proof (induction ns arbitrary: n)
  case Nil
  then show ?case by (simp add: names_length_def)
next
  case (Cons x ns)
  then show ?case
    by (auto simp: add_size_eq names_length_def name_bytes_def)
qed

lemma encode_string_size_eq:
  "encode_string_size img =
     (if length (string_table img) \<le> SIZE_T_MAX then Some (length (string_table img)) else None)"
proof -
  have n: "names_length (map sec_name (image_sections img) @ map sym_name (image_symbols img)) =
      length (section_names (image_sections img)) + length (symbol_names (image_symbols img))"
    by (simp add: names_length_def section_names_def symbol_names_def map_map comp_def)
  have "(1 :: nat) \<le> SIZE_T_MAX" by (simp add: limits)
  then show ?thesis
    by (auto simp: encode_string_size_def names_size_eq n add_size_eq string_table_def entry_name_def
        name_bytes_def c_name_def split: option.split)
qed

lemma encode_offsets_eq:
  "encode_offsets img (length (string_table img)) =
     (if off_payload (layout_offsets img) \<le> SIZE_T_MAX then Some (layout_offsets img) else None)"
proof -
  have "(52 :: nat) \<le> SIZE_T_MAX" by (simp add: limits)
  then show ?thesis
    by (auto simp: encode_offsets_def multiply_size_eq add_size_eq image_consts layout_offsets_def
        mult.commute)
qed

lemma section_payload_length:
  "section_mem_ok s \<Longrightarrow> section_ok s \<Longrightarrow>
     length (section_payload s) =
       (if sec_type s = ZL_IMAGE_SECTION_BSS then 0 else sec_data_size s)"
  by (auto simp: section_mem_ok_def section_ok_def section_payload_def c_array_def split: option.splits)

lemma check_sections_eq:
  "\<forall>s \<in> set ss. section_mem_ok s \<Longrightarrow> p \<le> SIZE_T_MAX \<Longrightarrow>
     check_sections ss p = Inr q \<longleftrightarrow>
       (\<forall>s \<in> set ss. section_ok s) \<and> q = p + length (payloads ss) \<and> q \<le> SIZE_T_MAX"
proof (induction ss arbitrary: p)
  case Nil
  then show ?case by auto
next
  case (Cons s ss)
  then show ?case
    using section_payload_length [of s] by (auto simp: add_size_eq)
qed

definition valid_image :: "zl_image \<Rightarrow> bool" where
  "valid_image img \<longleftrightarrow>
     \<not> null_arrays img \<and> (img_kind img = ZL_IMAGE_OBJECT \<or> img_kind img = ZL_IMAGE_EXECUTABLE) \<and>
     (\<forall>s \<in> set (image_sections img). section_ok s) \<and>
     (\<forall>y \<in> set (image_symbols img). symbol_ok (img_section_count img) y) \<and>
     (\<forall>r \<in> set (image_relocations img).
        relocation_ok (image_sections img) (img_section_count img) (img_symbol_count img) r) \<and>
     (if img_kind img = ZL_IMAGE_OBJECT then img_entry_point img = 0
      else img_relocation_count img = 0 \<and> img_entry_point img \<noteq> 0 \<and>
        entry_found (img_entry_point img) (image_sections img))"

lemma length_relocation_records [simp]:
  "length (concat (map relocation_record rs)) = 20 * length rs"
  by (induction rs) simp_all

lemma length_image_layout:
  "arrays_ok img \<Longrightarrow> length (image_layout img) =
     off_payload (layout_offsets img) + length (payloads (image_sections img))"
  by (simp add: image_layout_def arrays_ok_def)

lemma zl_image_encode_Inr:
  assumes mem: "image_mem_ok img"
  shows "zl_image_encode can_alloc (Some img) = Inr out \<longleftrightarrow>
    valid_image img \<and> length (image_layout img) \<le> WORD_MAX \<and>
    can_alloc (length (image_layout img)) \<and> out = image_layout img"
proof (cases "null_arrays img")
  case True
  then show ?thesis by (simp add: zl_image_encode_def valid_image_def)
next
  case False
  note ok = arrays_okI [OF mem False]
  let ?L = "length (image_layout img)" and ?off = "layout_offsets img"
  let ?P = "length (payloads (image_sections img))" and ?ss = "length (string_table img)"
  have L: "?L = off_payload ?off + ?P" by (rule length_image_layout [OF ok])
  have secs: "\<forall>s \<in> set (image_sections img). section_mem_ok s"
    using mem by (simp add: image_mem_ok_def)
  have kinds: "ZL_IMAGE_OBJECT \<noteq> ZL_IMAGE_EXECUTABLE" by (simp add: image_consts)
  have max: "WORD_MAX \<le> SIZE_T_MAX" by (simp add: limits)
  have into: "encode_into img ?off ?ss ?L = Inr (image_layout img)"
    if "\<forall>s \<in> set (image_sections img). section_ok s" "?L \<le> WORD_MAX"
  proof -
    have "?ss \<le> WORD_MAX" using that(2) L by simp
    then show ?thesis
      unfolding L using encode_into_layout [OF ok] section_payload_length secs that(1) by blast
  qed
  show ?thesis
  proof (cases "?L \<le> WORD_MAX")
    case True
    then have b: "off_payload ?off \<le> SIZE_T_MAX" "?P \<le> SIZE_T_MAX" "?ss \<le> SIZE_T_MAX"
      "img_section_count img \<le> WORD_MAX" "img_symbol_count img \<le> WORD_MAX"
      "img_relocation_count img \<le> WORD_MAX" "off_payload ?off + ?P \<le> SIZE_T_MAX"
      using L max by simp_all
    have add: "add_size (off_payload ?off) ?P = Some ?L"
      using b L by (simp add: add_size_eq)
    show ?thesis
    proof (cases "\<forall>s \<in> set (image_sections img). section_ok s")
      case secs_ok: True
      then have "check_sections (image_sections img) 0 = Inr ?P"
        using check_sections_eq [OF secs, of 0] b by simp
      then show ?thesis
        using b add into [OF secs_ok True] True False kinds secs_ok
        by (auto simp: zl_image_encode_def encode_string_size_eq encode_offsets_eq valid_image_def
            list_all_iff simp del: layout_offsets_sel)
    next
      case secs_bad: False
      then have "\<nexists>q. check_sections (image_sections img) 0 = Inr q"
        using check_sections_eq [OF secs, of 0] by simp
      then obtain e where "check_sections (image_sections img) 0 = Inl e"
        by (cases "check_sections (image_sections img) 0") auto
      then have "\<nexists>o'. zl_image_encode can_alloc (Some img) = Inr o'"
        by (auto simp: zl_image_encode_def split: option.split)
      then show ?thesis using secs_bad by (auto simp: valid_image_def)
    qed
  next
    case big: False
    have "zl_image_encode can_alloc (Some img) \<noteq> Inr out"
    proof
      assume "zl_image_encode can_alloc (Some img) = Inr out"
      then obtain ss off q t where e: "encode_string_size img = Some ss" "encode_offsets img ss = Some off"
        "check_sections (image_sections img) 0 = Inr q" "add_size (off_payload off) q = Some t" "t \<le> WORD_MAX"
        by (auto simp: zl_image_encode_def not_less split: option.splits if_splits sum.splits)
      then have "ss = ?ss" by (simp add: encode_string_size_eq split: if_splits)
      with e(2) have "off = ?off" by (simp add: encode_offsets_eq split: if_splits)
      moreover have "q = ?P" using e(3) check_sections_eq [OF secs, of 0] by simp
      ultimately have "t = ?L" using e(4) L by (simp add: add_size_def split: if_splits)
      with e(5) big show False by simp
    qed
    with big show ?thesis by simp
  qed
qed

text \<open>C22: encoding succeeds exactly for the valid images whose encoding fits in 32-bit offsets and
  can be allocated, and it yields exactly the concatenation of header, tables, names and data that
  defines the format.\<close>

theorem zl_image_encode_iff:
  assumes "image_mem_ok img"
  shows "zl_image_encode can_alloc (Some img) = Inr out \<longleftrightarrow>
    valid_image img \<and> length (image_layout img) \<le> WORD_MAX \<and>
    can_alloc (length (image_layout img)) \<and> out = image_layout img"
  using assms by (rule zl_image_encode_Inr)

end
