(* ===== verification/Image_Roundtrip.thy ===== *)
theory Image_Roundtrip
  imports Image_Format
begin

text \<open>
  The decoder: it reads back what the encoder wrote, and every image it accepts is valid.
\<close>

section \<open>Reading at a known place\<close>

lemma get32_at: "length H \<le> n \<Longrightarrow> get32 (H @ R) n = get32 R (n - length H)"
  unfolding get32_def by (rule le_read_cong) (simp add: nth_append)

lemma get32_le32 [simp]: "get32 (le32 v @ R) 0 = v"
proof -
  have "get32 (le32 v @ R) 0 = ucast (take_bit (4 * 8) v)"
    unfolding get32_def
    by (rule le_read_le_byte) (simp add: nth_append le32_def)
  then show ?thesis by simp
qed

lemma get32_le32_end [simp]: "get32 (le32 v) 0 = v"
  using get32_le32 [of v "[]"] by (simp del: get32_le32)

lemma unat_of_nat_u32: "n \<le> WORD_MAX \<Longrightarrow> unat (of_nat n :: u32) = n"
  by (simp add: unsigned_of_nat take_bit_nat_eq_self limits)

lemma get_string_at:
  assumes "drop (off + sc) input = name_bytes n @ Y" "sc + length (name_bytes n) \<le> string_size"
    "string_size \<le> WORD_MAX" "c_string_ok n"
  shows "get_string (drop off input) string_size (of_nat sc) = Some (c_name n)"
proof -
  have u: "unat (of_nat sc :: u32) = sc" using assms(2,3) by (intro unat_of_nat_u32) simp
  have d: "drop sc (drop off input) = c_name n @ 0 # Y"
    using assms(1) by (simp add: name_bytes_def add.commute)
  have "0 \<in> set (take (string_size - sc) (c_name n @ 0 # Y))"
  proof -
    have "length (c_name n) < string_size - sc" using assms(2) by (simp add: name_bytes_def)
    then obtain k where "string_size - sc = length (c_name n) + Suc k"
      by (metis add_Suc_right less_iff_Suc_add)
    then show ?thesis by simp
  qed
  moreover have "takeWhile (\<lambda>b. b \<noteq> 0) (c_name n @ 0 # Y) = c_name n"
    using assms(4) by (subst takeWhile_append2) (auto simp: c_string_ok_def)
  ultimately show ?thesis
    using assms(2) unfolding get_string_def u Let_def d by (simp add: name_bytes_def)
qed

lemma upt_Cons_length: "[i..<i + length (x # xs)] = i # [Suc i..<Suc i + length xs]"
  by (simp add: upt_conv_Cons del: upt_Suc)

section \<open>Reading the tables back\<close>

text \<open>What decoding makes of a section: its own copy of the name and of the data, zeros for BSS.\<close>

definition normal_section :: "zl_section \<Rightarrow> zl_section" where
  "normal_section s = s\<lparr>sec_name := Some (c_name (sec_name s)),
     sec_data := Some (if sec_type s = ZL_IMAGE_SECTION_BSS then zeros (sec_data_size s)
                       else c_array (sec_data s) (sec_data_size s))\<rparr>"

definition normal_symbol :: "zl_symbol \<Rightarrow> zl_symbol" where
  "normal_symbol y = y\<lparr>sym_name := Some (c_name (sym_name y))\<rparr>"

lemma section_okD:
  assumes "section_ok s"
  shows "sec_data_size s \<le> WORD_MAX" "valid_alignment (sec_alignment s)"
    "\<not> (sec_type s < ZL_IMAGE_SECTION_TEXT \<or> sec_type s > ZL_IMAGE_SECTION_BSS)"
    "sec_data_size s \<le> WORD_MAX - unat (sec_address s)"
  using assms by (auto simp: section_ok_def)

lemma read_section_record:
  assumes input: "input = H @ section_record (of_nat sc) s pc @ R"
    and H: "length H = off_section (hdr_off h) + i * 28"
    and name: "drop (off_string (hdr_off h) + sc) input = name_bytes (sec_name s) @ Y"
      "sc + length (name_bytes (sec_name s)) \<le> hdr_string_size h" "hdr_string_size h \<le> WORD_MAX"
    and pay: "drop pc input = section_payload s @ Z"
      "off_payload (hdr_off h) \<le> pc" "pc + length (section_payload s) \<le> length input"
      "length input \<le> WORD_MAX"
    and ok: "section_ok s" "section_mem_ok s"
    and alloc: "\<And>n. can_alloc n"
  shows "read_section can_alloc input (length input) h i = Inr (normal_section s)"
proof -
  note len = section_payload_length [OF ok(2,1)]
  let ?r = "off_section (hdr_off h) + i * 28"
  have u: "unat (of_nat pc :: u32) = pc" using pay by (intro unat_of_nat_u32) simp
  have us: "unat (of_nat (sec_data_size s) :: u32) = sec_data_size s"
    using section_okD [OF ok(1)] by (intro unat_of_nat_u32)
  have g: "get32 input ?r = of_nat sc" "get32 input (?r + 4) = sec_type s"
    "get32 input (?r + 8) = sec_flags s" "get32 input (?r + 12) = sec_alignment s"
    "get32 input (?r + 16) = sec_address s" "get32 input (?r + 20) = of_nat pc"
    "get32 input (?r + 24) = of_nat (sec_data_size s)"
    unfolding input section_record_def H [symmetric] by (simp_all add: get32_at)
  have s: "get_string (drop (off_string (hdr_off h)) input) (hdr_string_size h) (of_nat sc) =
      Some (c_name (sec_name s))"
    using name ok(2) by (intro get_string_at [where Y = Y]) (simp_all add: section_mem_ok_def)
  have t: "sec_type s \<noteq> ZL_IMAGE_SECTION_BSS \<Longrightarrow>
      take (sec_data_size s) (drop pc input) = c_array (sec_data s) (sec_data_size s) \<and>
      image_in_range pc (sec_data_size s) (length input)"
    using pay len by (simp add: section_payload_def image_in_range_def)
  show ?thesis
    using t section_okD [OF ok(1)] pay(2,3)
    unfolding read_section_def Let_def IMAGE_SECTION_RECORD_SIZE_def g s u us
    by (auto simp: alloc copy_string_def normal_section_def)
qed

lemma read_sections:
  assumes "\<forall>s \<in> set xs. section_ok s \<and> section_mem_ok s" "\<And>n. can_alloc n"
    "length input \<le> WORD_MAX" "hdr_string_size h \<le> WORD_MAX"
  shows "input = H @ section_table xs sc pc @ M @ section_names xs @ Q @ payloads xs @ R \<Longrightarrow>
    off_section (hdr_off h) + i * 28 = length H \<Longrightarrow>
    off_string (hdr_off h) + sc = length H + 28 * length xs + length M \<Longrightarrow>
    pc = length H + 28 * length xs + length M + length (section_names xs) + length Q \<Longrightarrow>
    sc + length (section_names xs) \<le> hdr_string_size h \<Longrightarrow>
    off_payload (hdr_off h) \<le> pc \<Longrightarrow>
    try_map (read_section can_alloc input (length input) h) [i..<i + length xs] =
      Inr (map normal_section xs)"
  using assms
proof (induction xs arbitrary: i H M Q sc pc)
  case Nil
  then show ?case by simp
next
  case (Cons x xs)
  let ?n = "name_bytes (sec_name x)" and ?p = "section_payload x"
  let ?rec = "section_record (of_nat sc) x pc"
  have inp: "input = (H @ ?rec) @ section_table xs (sc + length ?n) (pc + length ?p) @ (M @ ?n) @
      section_names xs @ (Q @ ?p) @ payloads xs @ R"
    using Cons.prems(1) by simp
  have "read_section can_alloc input (length input) h i = Inr (normal_section x)"
  proof (rule read_section_record)
    show "input = H @ ?rec @ section_table xs (sc + length ?n) (pc + length ?p) @ M @ ?n @
        section_names xs @ Q @ ?p @ payloads xs @ R"
      using inp by simp
    show "drop (off_string (hdr_off h) + sc) input = ?n @ section_names xs @ Q @ ?p @ payloads xs @ R"
      unfolding inp using Cons.prems(3) by simp
    show "drop pc input = ?p @ payloads xs @ R"
      unfolding inp using Cons.prems(4) by simp
    show "pc + length ?p \<le> length input"
      unfolding inp using Cons.prems(4) by simp
  qed (use Cons.prems in simp_all)
  moreover have "try_map (read_section can_alloc input (length input) h) [Suc i..<Suc i + length xs] =
      Inr (map normal_section xs)"
    using Cons.prems by (intro Cons.IH [OF inp]) simp_all
  ultimately show ?case by (simp only: upt_Cons_length try_map.simps sum.case list.map)
qed

lemma nth_at: "length H \<le> n \<Longrightarrow> (H @ R) ! n = R ! (n - length H)"
  by (simp add: nth_append)

lemma read_symbol_record:
  assumes input: "input = H @ symbol_record (of_nat sc) y @ R"
    and H: "length H = off_symbol (hdr_off h) + i * 20"
    and name: "drop (off_string (hdr_off h) + sc) input = name_bytes (sym_name y) @ Y"
      "sc + length (name_bytes (sym_name y)) \<le> hdr_string_size h" "hdr_string_size h \<le> WORD_MAX"
    and ok: "symbol_ok (hdr_section_count h) y" "c_string_ok (sym_name y)"
    and alloc: "\<And>n. can_alloc n"
  shows "read_symbol can_alloc input h i = Inr (normal_symbol y)"
proof -
  let ?r = "off_symbol (hdr_off h) + i * 20"
  have g: "get32 input ?r = of_nat sc" "get32 input (?r + 4) = sym_section_index y"
    "get32 input (?r + 8) = sym_value y" "get32 input (?r + 12) = sym_size y"
    "input ! (?r + 16) = sym_binding y" "input ! (?r + 17) = sym_type y"
    "input ! (?r + 18) = 0" "input ! (?r + 19) = 0"
    unfolding input symbol_record_def H [symmetric] by (simp_all add: get32_at nth_at)
  have s: "get_string (drop (off_string (hdr_off h)) input) (hdr_string_size h) (of_nat sc) =
      Some (c_name (sym_name y))"
    using name ok(2) by (intro get_string_at [where Y = Y]) simp_all
  show ?thesis
    using ok(1)
    unfolding read_symbol_def Let_def IMAGE_SYMBOL_RECORD_SIZE_def g s
    by (auto simp: alloc copy_string_def normal_symbol_def symbol_ok_def)
qed

lemma read_symbols:
  assumes "\<forall>y \<in> set ys. symbol_ok (hdr_section_count h) y \<and> c_string_ok (sym_name y)"
    "\<And>n. can_alloc n" "hdr_string_size h \<le> WORD_MAX"
  shows "input = H @ symbol_table ys sc @ M @ symbol_names ys @ R \<Longrightarrow>
    off_symbol (hdr_off h) + i * 20 = length H \<Longrightarrow>
    off_string (hdr_off h) + sc = length H + 20 * length ys + length M \<Longrightarrow>
    sc + length (symbol_names ys) \<le> hdr_string_size h \<Longrightarrow>
    try_map (read_symbol can_alloc input h) [i..<i + length ys] = Inr (map normal_symbol ys)"
  using assms
proof (induction ys arbitrary: i H M sc)
  case Nil
  then show ?case by simp
next
  case (Cons y ys)
  let ?n = "name_bytes (sym_name y)" and ?rec = "symbol_record (of_nat sc) y"
  have inp: "input = (H @ ?rec) @ symbol_table ys (sc + length ?n) @ (M @ ?n) @ symbol_names ys @ R"
    using Cons.prems(1) by simp
  have "read_symbol can_alloc input h i = Inr (normal_symbol y)"
  proof (rule read_symbol_record)
    show "input = H @ ?rec @ symbol_table ys (sc + length ?n) @ M @ ?n @ symbol_names ys @ R"
      using inp by simp
    show "drop (off_string (hdr_off h) + sc) input = ?n @ symbol_names ys @ R"
      unfolding inp using Cons.prems(3) by simp
  qed (use Cons.prems in simp_all)
  moreover have "try_map (read_symbol can_alloc input h) [Suc i..<Suc i + length ys] =
      Inr (map normal_symbol ys)"
    using Cons.prems by (intro Cons.IH [OF inp]) simp_all
  ultimately show ?case by (simp only: upt_Cons_length try_map.simps sum.case list.map)
qed

lemma read_relocations:
  assumes "\<forall>r \<in> set rs. relocation_ok sections (hdr_section_count h) (hdr_symbol_count h) r"
  shows "input = H @ concat (map relocation_record rs) @ R \<Longrightarrow>
    off_relocation (hdr_off h) + i * 20 = length H \<Longrightarrow>
    try_map (read_relocation input h sections) [i..<i + length rs] = Inr rs"
  using assms
proof (induction rs arbitrary: i H)
  case Nil
  then show ?case by simp
next
  case (Cons r rs)
  let ?rec = "relocation_record r"
  have inp: "input = (H @ ?rec) @ concat (map relocation_record rs) @ R"
    using Cons.prems(1) by simp
  have "read_relocation input h sections i = Inr r"
    unfolding read_relocation_def Let_def IMAGE_RELOCATION_RECORD_SIZE_def inp Cons.prems(2)
    using Cons.prems(3) by (cases r) (simp add: relocation_record_def get32_at)
  moreover have "try_map (read_relocation input h sections) [Suc i..<Suc i + length rs] = Inr rs"
    using Cons.prems by (intro Cons.IH [OF inp]) simp_all
  ultimately show ?case by (simp only: upt_Cons_length try_map.simps sum.case list.map)
qed

section \<open>Decoding what was encoded\<close>

definition image_header_of :: "zl_image \<Rightarrow> image_header" where
  "image_header_of img =
     \<lparr>hdr_kind = img_kind img, hdr_entry = entry_field img,
      hdr_section_count = img_section_count img, hdr_symbol_count = img_symbol_count img,
      hdr_relocation_count = img_relocation_count img, hdr_off = layout_offsets img,
      hdr_string_size = length (string_table img)\<rparr>"

lemma header_bytes:
  fixes img e off n R
  defines "b \<equiv> header_record img e off n @ R"
  shows "take 4 b = image_magic" "get16 b 4 = 1" "b ! 6 = img_kind img" "b ! 7 = 0"
    "get32 b 8 = 52" "get32 b 12 = of_nat (img_section_count img)"
    "get32 b 16 = of_nat (img_symbol_count img)" "get32 b 20 = of_nat (img_relocation_count img)"
    "get32 b 24 = e" "get32 b 28 = of_nat (off_section off)" "get32 b 32 = of_nat (off_symbol off)"
    "get32 b 36 = of_nat (off_relocation off)" "get32 b 40 = of_nat (off_string off)"
    "get32 b 44 = of_nat n" "get32 b 48 = of_nat (off_payload off)"
proof -
  let ?A = "image_magic @ [1, 0, img_kind img, 0]"
  have A: "length ?A = 8" by (simp add: image_magic_def)
  have b: "b = ?A @ le32 52 @ le32 (of_nat (img_section_count img)) @ le32 (of_nat (img_symbol_count img)) @
      le32 (of_nat (img_relocation_count img)) @ le32 e @
      le32 (of_nat (off_section off)) @ le32 (of_nat (off_symbol off)) @
      le32 (of_nat (off_relocation off)) @ le32 (of_nat (off_string off)) @
      le32 (of_nat n) @ le32 (of_nat (off_payload off)) @ R"
    by (simp add: b_def header_record_def)
  have split: "?A @ drop 8 b = b" by (simp add: b image_magic_def)
  have g: "get32 b k = get32 (drop 8 b) (k - 8)" if "8 \<le> k" for k
    using get32_at [of ?A k "drop 8 b"] that unfolding split A .
  have d: "drop 8 b = le32 52 @ le32 (of_nat (img_section_count img)) @ le32 (of_nat (img_symbol_count img)) @
      le32 (of_nat (img_relocation_count img)) @ le32 e @
      le32 (of_nat (off_section off)) @ le32 (of_nat (off_symbol off)) @
      le32 (of_nat (off_relocation off)) @ le32 (of_nat (off_string off)) @
      le32 (of_nat n) @ le32 (of_nat (off_payload off)) @ R"
    by (simp add: b image_magic_def)
  show "take 4 b = image_magic" "get16 b 4 = 1" "b ! 6 = img_kind img" "b ! 7 = 0"
    by (simp_all add: b image_magic_def get16_def)
  show "get32 b 8 = 52" "get32 b 12 = of_nat (img_section_count img)"
    "get32 b 16 = of_nat (img_symbol_count img)" "get32 b 20 = of_nat (img_relocation_count img)"
    "get32 b 24 = e" "get32 b 28 = of_nat (off_section off)" "get32 b 32 = of_nat (off_symbol off)"
    "get32 b 36 = of_nat (off_relocation off)" "get32 b 40 = of_nat (off_string off)"
    "get32 b 44 = of_nat n" "get32 b 48 = of_nat (off_payload off)"
    by (simp_all add: g, simp_all add: d get32_at)
qed

lemma decode_header_layout:
  assumes "arrays_ok img" "valid_image img" "length (image_layout img) \<le> WORD_MAX"
  shows "decode_header (image_layout img) (length (image_layout img)) = Inr (image_header_of img)"
proof -
  let ?b = "image_layout img" and ?off = "layout_offsets img" and ?ss = "length (string_table img)"
  let ?n = "img_section_count img" and ?m = "img_symbol_count img" and ?k = "img_relocation_count img"
  note L = length_image_layout [OF assms(1)]
  obtain R where R: "?b = header_record img (entry_field img) ?off ?ss @ R"
    by (simp add: image_layout_def)
  note hb = header_bytes [of img "entry_field img" ?off ?ss R, folded R]
  have le: "off_payload ?off \<le> length ?b" "0 < ?ss" using L by (simp_all add: string_table_def)
  then have u: "unat (of_nat ?n :: u32) = ?n" "unat (of_nat ?m :: u32) = ?m" "unat (of_nat ?k :: u32) = ?k"
    "unat (of_nat (off_section ?off) :: u32) = off_section ?off"
    "unat (of_nat (off_symbol ?off) :: u32) = off_symbol ?off"
    "unat (of_nat (off_relocation ?off) :: u32) = off_relocation ?off"
    "unat (of_nat (off_string ?off) :: u32) = off_string ?off"
    "unat (of_nat (off_payload ?off) :: u32) = off_payload ?off" "unat (of_nat ?ss :: u32) = ?ss"
    using assms(3) by (intro unat_of_nat_u32; simp)+
  have str: "?b ! off_string ?off = 0"
  proof -
    let ?pre = "header_record img (entry_field img) ?off ?ss @ section_table (image_sections img) 1 (off_payload ?off) @
      symbol_table (image_symbols img) (1 + length (section_names (image_sections img))) @
      concat (map relocation_record (image_relocations img))"
    have "length ?pre = off_string ?off" using assms(1) by (simp add: arrays_ok_def)
    moreover have "?b = ?pre @ 0 # (section_names (image_sections img) @ symbol_names (image_symbols img) @
        entry_name img @ payloads (image_sections img))"
      by (simp add: image_layout_def string_table_def)
    ultimately show ?thesis by (metis nth_append_length)
  qed
  have bytes: "?n * 28 \<le> SIZE_T_MAX" "?m * 20 \<le> SIZE_T_MAX" "?k * 20 \<le> SIZE_T_MAX"
    using assms(3) le by (simp_all add: limits)
  have kind: "img_kind img = ZL_IMAGE_OBJECT \<or> img_kind img = ZL_IMAGE_EXECUTABLE"
    "img_kind img = ZL_IMAGE_EXECUTABLE \<Longrightarrow> entry_field img \<noteq> 0 \<and> ?k = 0"
    using assms(2) by (auto simp: valid_image_def entry_field_def image_consts)
  show ?thesis
    unfolding decode_header_def Let_def hb u
    using kind le bytes str
    by (auto simp: multiply_size_eq image_in_range_def image_header_of_def image_consts(13-19)
        layout_offsets_def)
qed

definition normal_image :: "zl_image \<Rightarrow> zl_image" where
  "normal_image img =
     \<lparr>img_kind = img_kind img, img_entry_point = img_entry_point img,
      img_entry_symbol = (if img_kind img = ZL_IMAGE_OBJECT then img_entry_symbol img else None),
      img_sections = Some (map normal_section (image_sections img)),
      img_section_count = img_section_count img,
      img_symbols = Some (map normal_symbol (image_symbols img)),
      img_symbol_count = img_symbol_count img,
      img_relocations = Some (image_relocations img),
      img_relocation_count = img_relocation_count img\<rparr>"

lemma normal_section_fields [simp]:
  "sec_type (normal_section s) = sec_type s" "sec_address (normal_section s) = sec_address s"
  "sec_data_size (normal_section s) = sec_data_size s"
  "sec_alignment (normal_section s) = sec_alignment s" "sec_flags (normal_section s) = sec_flags s"
  by (simp_all add: normal_section_def)

lemma entry_found_normal: "entry_found e (map normal_section xs) = entry_found e xs"
  by (simp add: entry_found_def)

lemma relocation_ok_normal:
  "length xs = n \<Longrightarrow> relocation_ok (map normal_section xs) n m r = relocation_ok xs n m r"
  by (cases "unat (rel_section_index r) < n") (simp_all add: relocation_ok_def Let_def)

lemma zl_image_decode_layout:
  assumes mem: "image_mem_ok img" and valid: "valid_image img"
    and small: "length (image_layout img) \<le> WORD_MAX" and alloc: "\<And>n. can_alloc n"
  shows "zl_image_decode can_alloc (Some (image_layout img)) (length (image_layout img)) =
    Inr (normal_image img)"
proof -
  let ?b = "image_layout img" and ?off = "layout_offsets img" and ?ss = "length (string_table img)"
  let ?xs = "image_sections img" and ?ys = "image_symbols img" and ?rs = "image_relocations img"
  let ?h = "image_header_of img"
  let ?H = "header_record img (entry_field img) ?off ?ss"
  let ?T = "section_table ?xs 1 (off_payload ?off)"
  let ?Y = "symbol_table ?ys (1 + length (section_names ?xs))"
  let ?Z = "concat (map relocation_record ?rs)"
  have ok: "arrays_ok img" using mem valid arrays_okI by (simp add: valid_image_def)
  then have len: "length ?xs = img_section_count img" "length ?ys = img_symbol_count img"
    "length ?rs = img_relocation_count img"
    by (simp_all add: arrays_ok_def)
  note L = length_image_layout [OF ok]
  have ss: "?ss = 1 + length (section_names ?xs) + length (symbol_names ?ys) + length (entry_name img)"
    by (simp add: string_table_def)
  have ss_small: "?ss \<le> WORD_MAX" using small L by simp
  have h [simp]: "hdr_kind ?h = img_kind img" "hdr_entry ?h = entry_field img"
    "hdr_section_count ?h = img_section_count img" "hdr_symbol_count ?h = img_symbol_count img"
    "hdr_relocation_count ?h = img_relocation_count img" "hdr_off ?h = ?off" "hdr_string_size ?h = ?ss"
    by (simp_all add: image_header_of_def)
  have kinds: "ZL_IMAGE_OBJECT \<noteq> ZL_IMAGE_EXECUTABLE" by (simp add: image_consts)
  have sections: "try_map (read_section can_alloc ?b (length ?b) ?h) [0..<img_section_count img] =
      Inr (map normal_section ?xs)"
  proof -
    have "try_map (read_section can_alloc ?b (length ?b) ?h) [0..<0 + length ?xs] =
        Inr (map normal_section ?xs)"
    proof (rule read_sections)
      show "?b = ?H @ ?T @ (?Y @ ?Z @ [0]) @ section_names ?xs @ (symbol_names ?ys @ entry_name img) @
          payloads ?xs @ []"
        by (simp add: image_layout_def string_table_def)
    qed (use mem valid small ss_small alloc in \<open>simp_all add: len ss image_mem_ok_def valid_image_def\<close>)
    then show ?thesis by (simp add: len)
  qed
  have symbols: "try_map (read_symbol can_alloc ?b ?h) [0..<img_symbol_count img] =
      Inr (map normal_symbol ?ys)"
  proof -
    have "try_map (read_symbol can_alloc ?b ?h) [0..<0 + length ?ys] = Inr (map normal_symbol ?ys)"
    proof (rule read_symbols)
      show "?b = (?H @ ?T) @ ?Y @ (?Z @ [0] @ section_names ?xs) @ symbol_names ?ys @
          (entry_name img @ payloads ?xs)"
        by (simp add: image_layout_def string_table_def)
    qed (use mem valid ss_small alloc in \<open>simp_all add: len ss image_mem_ok_def valid_image_def\<close>)
    then show ?thesis by (simp add: len)
  qed
  have relocations: "try_map (read_relocation ?b ?h (map normal_section ?xs))
      [0..<img_relocation_count img] = Inr ?rs"
  proof -
    have "try_map (read_relocation ?b ?h (map normal_section ?xs)) [0..<0 + length ?rs] = Inr ?rs"
    proof (rule read_relocations)
      show "?b = (?H @ ?T @ ?Y) @ ?Z @ (string_table img @ payloads ?xs)"
        by (simp add: image_layout_def)
    qed (use valid in \<open>simp_all add: len valid_image_def relocation_ok_normal\<close>)
    then show ?thesis by (simp add: len)
  qed
  have entry: "decode_entry_symbol can_alloc ?b ?h =
      Inr (if img_kind img = ZL_IMAGE_OBJECT then img_entry_symbol img else None)"
  proof (cases "img_kind img = ZL_IMAGE_OBJECT \<and> img_entry_symbol img \<noteq> None")
    case True
    then obtain e where e: "img_entry_symbol img = Some e" by auto
    let ?sc = "1 + length (section_names ?xs) + length (symbol_names ?ys)"
    have en: "entry_name img = name_bytes (Some e)" "entry_field img = of_nat ?sc"
      using True e by (simp_all add: entry_name_def entry_field_def)
    have "unat (of_nat ?sc :: u32) = ?sc" using ss_small ss by (intro unat_of_nat_u32) simp
    then have "entry_field img \<noteq> 0" unfolding en(2) by (metis add_is_0 one_neq_zero unsigned_0)
    moreover have "get_string (drop (off_string ?off) ?b) ?ss (of_nat ?sc) = Some (c_name (Some e))"
    proof (rule get_string_at)
      have "?b = (?H @ ?T @ ?Y @ ?Z @ [0] @ section_names ?xs @ symbol_names ?ys) @
          name_bytes (Some e) @ payloads ?xs"
        by (simp add: image_layout_def string_table_def en)
      moreover have "length (?H @ ?T @ ?Y @ ?Z @ [0] @ section_names ?xs @ symbol_names ?ys) =
          off_string ?off + ?sc"
        by (simp add: len)
      ultimately show "drop (off_string ?off + ?sc) ?b = name_bytes (Some e) @ payloads ?xs"
        by (metis append_eq_conv_conj)
    qed (use ss ss_small en mem e in \<open>simp_all add: image_mem_ok_def\<close>)
    ultimately show ?thesis
      using True e alloc by (simp add: decode_entry_symbol_def en(2) copy_string_def c_name_def)
  next
    case False
    then show ?thesis
      using valid by (auto simp: decode_entry_symbol_def entry_field_def valid_image_def)
  qed
  have "entry_field img = img_entry_point img" if "img_kind img = ZL_IMAGE_EXECUTABLE"
    using that kinds by (simp add: entry_field_def)
  then show ?thesis
    using valid kinds alloc
    by (auto simp: zl_image_decode_def decode_header_layout [OF ok valid small] entry sections symbols
        relocations Let_def entry_found_normal normal_image_def valid_image_def)
qed

text \<open>C23: when every allocation of the decoder succeeds, decoding what the encoder produced gives the image
  back, up to what a file does not hold: names and data are the decoder's own copies, an array has exactly the
  counted elements and is never null, a null name has become an empty one, BSS data is zeros, and an
  executable has lost its entry symbol, for its header holds the entry point in that place.\<close>

theorem zl_image_roundtrip:
  assumes "image_mem_ok img" "zl_image_encode can_alloc (Some img) = Inr out" "\<And>n. can_alloc' n"
  shows "zl_image_decode can_alloc' (Some out) (length out) = Inr (normal_image img)"
proof -
  have "valid_image img" "length (image_layout img) \<le> WORD_MAX" "out = image_layout img"
    using assms(2) unfolding zl_image_encode_Inr [OF assms(1)] by simp_all
  then show ?thesis using zl_image_decode_layout [of img can_alloc'] assms(1,3) by simp
qed

section \<open>Accepted images are valid\<close>

lemma get_string_no_nul: "get_string s n off = Some v \<Longrightarrow> 0 \<notin> set v"
  by (auto simp: get_string_def Let_def dest: set_takeWhileD split: if_splits)

lemma read_section_ok:
  assumes "read_section can_alloc input n h i = Inr s" "n \<le> length input"
  shows "section_ok s \<and> section_mem_ok s"
  using assms get_string_no_nul
  by (auto simp: read_section_def Let_def section_ok_def section_mem_ok_def copy_string_def
      c_string_ok_def c_name_def image_in_range_def not_less split: option.splits if_splits)

lemma read_symbol_ok:
  assumes "read_symbol can_alloc input h i = Inr y"
  shows "symbol_ok (hdr_section_count h) y \<and> c_string_ok (sym_name y)"
  using assms get_string_no_nul
  by (auto simp: read_symbol_def Let_def symbol_ok_def copy_string_def c_string_ok_def c_name_def
      split: option.splits if_splits)

lemma decode_header_kind:
  "decode_header input n = Inr h \<Longrightarrow>
     (hdr_kind h = ZL_IMAGE_OBJECT \<or> hdr_kind h = ZL_IMAGE_EXECUTABLE) \<and>
     (hdr_kind h = ZL_IMAGE_EXECUTABLE \<longrightarrow> hdr_entry h \<noteq> 0 \<and> hdr_relocation_count h = 0)"
  by (auto simp: decode_header_def Let_def split: if_splits option.splits)

lemma c_array_if: "length xs = n \<Longrightarrow> (n \<noteq> 0 \<Longrightarrow> a) \<Longrightarrow> c_array (if a then Some xs else None) n = xs"
  by (auto simp: c_array_def)

lemma zl_image_decode_valid:
  assumes "zl_image_decode can_alloc (Some input) n = Inr img" "n \<le> length input"
  shows "valid_image img \<and> image_mem_ok img"
proof -
  from assms(1) obtain h es xs ys rs where d: "decode_header input n = Inr h"
    "decode_entry_symbol can_alloc input h = Inr es"
    "try_map (read_section can_alloc input n h) [0..<hdr_section_count h] = Inr xs"
    "try_map (read_symbol can_alloc input h) [0..<hdr_symbol_count h] = Inr ys"
    "try_map (read_relocation input h xs) [0..<hdr_relocation_count h] = Inr rs"
    and a: "hdr_section_count h \<noteq> 0 \<Longrightarrow> can_alloc (hdr_section_count h * sizeof_section)"
      "hdr_symbol_count h \<noteq> 0 \<Longrightarrow> can_alloc (hdr_symbol_count h * sizeof_symbol)"
      "hdr_relocation_count h \<noteq> 0 \<Longrightarrow> can_alloc (hdr_relocation_count h * sizeof_relocation)"
    and entry: "hdr_kind h = ZL_IMAGE_EXECUTABLE \<longrightarrow> entry_found (hdr_entry h) xs"
    and img: "img = \<lparr>img_kind = hdr_kind h,
        img_entry_point = (if hdr_kind h = ZL_IMAGE_EXECUTABLE then hdr_entry h else 0),
        img_entry_symbol = es,
        img_sections = (if can_alloc (hdr_section_count h * sizeof_section) then Some xs else None),
        img_section_count = hdr_section_count h,
        img_symbols = (if can_alloc (hdr_symbol_count h * sizeof_symbol) then Some ys else None),
        img_symbol_count = hdr_symbol_count h,
        img_relocations = (if can_alloc (hdr_relocation_count h * sizeof_relocation) then Some rs else None),
        img_relocation_count = hdr_relocation_count h\<rparr>"
    by (auto simp: zl_image_decode_def Let_def split: sum.splits if_splits)
  note lens = d(3-5) [THEN try_map_Inr_length, simplified]
  have arr: "image_sections img = xs" "image_symbols img = ys" "image_relocations img = rs"
    unfolding img using a lens by (simp_all add: c_array_if)
  have xs: "\<forall>s \<in> set xs. section_ok s \<and> section_mem_ok s"
    using try_map_Inr_set [OF d(3)] read_section_ok assms(2) by blast
  have ys: "\<forall>y \<in> set ys. symbol_ok (hdr_section_count h) y \<and> c_string_ok (sym_name y)"
    using try_map_Inr_set [OF d(4)] read_symbol_ok by blast
  have rs: "\<forall>r \<in> set rs. relocation_ok xs (hdr_section_count h) (hdr_symbol_count h) r"
    using try_map_Inr_set [OF d(5)]
    by (fastforce simp: read_relocation_def Let_def split: if_splits)
  have es: "c_string_ok es"
    using d(2) get_string_no_nul
    by (auto simp: decode_entry_symbol_def copy_string_def c_string_ok_def c_name_def
        split: if_splits option.splits)
  have kinds: "ZL_IMAGE_OBJECT \<noteq> ZL_IMAGE_EXECUTABLE" by (simp add: image_consts)
  have "\<not> null_arrays img"
    unfolding img using a by (auto simp: null_arrays_def)
  then have "valid_image img"
    unfolding valid_image_def arr using xs ys rs decode_header_kind [OF d(1)] entry kinds
    by (auto simp: img)
  moreover have "image_mem_ok img"
    unfolding image_mem_ok_def arr using xs ys es lens by (auto simp: img)
  ultimately show ?thesis ..
qed

text \<open>C24: every byte string the decoder accepts yields a valid image: known kind and section types,
  power-of-two alignments, section ranges below \<open>2 ^ 32\<close>, symbols and relocations that name existing
  sections and symbols, relocated words inside their section's data, and for an executable an entry
  point inside a text section; its strings are terminated and its data complete.\<close>

theorem zl_image_decode_accepts_valid:
  assumes "zl_image_decode can_alloc (Some input) n = Inr img" "n \<le> length input"
  shows "valid_image img \<and> image_mem_ok img"
  using assms by (rule zl_image_decode_valid)

section \<open>Alignments\<close>

lemma and_pred_power: "0 < n \<Longrightarrow> n AND (n - 1) = 0 \<longleftrightarrow> (\<exists>k. n = 2 ^ k)" for n :: nat
proof (induction n rule: less_induct)
  case (less n)
  show ?case
  proof (cases "even n")
    case True
    then obtain m where m: "n = 2 * m" by (auto elim: evenE)
    with less.prems have "0 < m" by simp
    have pred: "n - 1 = 2 * (m - 1) + 1" using m \<open>0 < m\<close> by simp
    have "n AND (n - 1) = 2 * (m AND (m - 1))"
      unfolding m pred [unfolded m] by (subst and_nat_rec) simp
    moreover have "m AND (m - 1) = 0 \<longleftrightarrow> (\<exists>k. m = 2 ^ k)"
      using less.IH [of m] m \<open>0 < m\<close> by simp
    moreover have "(\<exists>k. m = 2 ^ k) \<longleftrightarrow> (\<exists>k. n = 2 ^ k)"
    proof
      assume "\<exists>k. n = 2 ^ k"
      then obtain k where k: "n = 2 ^ k" ..
      with less.prems True obtain j where "k = Suc j" by (cases k) auto
      with k m show "\<exists>k. m = 2 ^ k" by auto
    qed (use m power_Suc in metis)
    ultimately show ?thesis by simp
  next
    case False
    then obtain m where m: "n = 2 * m + 1" by (auto elim: oddE)
    have "n AND (n - 1) = 2 * m"
      unfolding m by (subst and_nat_rec) simp
    moreover have "(\<exists>k. n = 2 ^ k) \<longleftrightarrow> m = 0"
    proof
      assume "\<exists>k. n = 2 ^ k"
      then obtain k where k: "n = 2 ^ k" ..
      with False have "k = 0" by (cases k) auto
      with k m show "m = 0" by simp
    qed (use m in \<open>auto intro: exI [of _ 0]\<close>)
    ultimately show ?thesis by auto
  qed
qed

lemma valid_alignment_power:
  "valid_alignment a \<longleftrightarrow> (\<exists>k. unat a = 2 ^ k)"
proof (cases "a = 0")
  case True
  then show ?thesis by (simp add: valid_alignment_def)
next
  case False
  then have "unat a \<noteq> 0" by (simp only: unsigned_eq_0_iff not_False_eq_True)
  then have p: "0 < unat a" "unat (a - 1) = unat a - 1"
    using unat_minus_one [OF False] by (simp_all only: neq0_conv)
  have "a AND (a - 1) = 0 \<longleftrightarrow> unat a AND (unat a - 1) = 0"
    unfolding word_unat_eq_iff unsigned_and_eq p(2) unsigned_0 ..
  then show ?thesis using False and_pred_power [OF p(1)] by (simp add: valid_alignment_def)
qed

lemma unat_power_u32: "k < 32 \<Longrightarrow> unat ((2 :: u32) ^ k) = 2 ^ k"
proof -
  assume "k < 32"
  then have "(2 :: nat) ^ k \<le> 2 ^ 31" by (intro power_increasing) simp_all
  then have "(2 :: nat) ^ k \<le> WORD_MAX" by (simp add: limits)
  then have "unat (of_nat (2 ^ k) :: u32) = 2 ^ k" by (rule unat_of_nat_u32)
  then show ?thesis by simp
qed

text \<open>The alignment test accepts exactly the powers of two.\<close>

theorem valid_alignment_iff:
  "valid_alignment a \<longleftrightarrow> (\<exists>k < 32. a = 2 ^ k)"
proof
  assume "valid_alignment a"
  then obtain k where k: "unat a = 2 ^ k" using valid_alignment_power by auto
  have "(2 :: nat) ^ k < 2 ^ 32" using unat_u32_less [of a] unfolding k by simp
  then have "k < 32" by (rule power_less_imp_less_exp [rotated]) simp
  moreover from this have "unat ((2 :: u32) ^ k) = 2 ^ k" by (simp only: unat_power_u32)
  then have "a = 2 ^ k" using k by (simp only: word_unat_eq_iff)
  ultimately show "\<exists>k < 32. a = 2 ^ k" by auto
next
  assume "\<exists>k < 32. a = 2 ^ k"
  then obtain k where "k < 32" "a = 2 ^ k" by auto
  then have "unat a = 2 ^ k" by (simp only: unat_power_u32)
  then show "valid_alignment a" unfolding valid_alignment_power by blast
qed

end
