(* ===== verification/Loader.thy ===== *)
theory Loader
  imports Run Image_Roundtrip
begin

text \<open>
  Loading programs into the machine: \<^verbatim>\<open>vm_loadDump\<close> and \<^verbatim>\<open>vm_loadImage\<close> of
  \<^verbatim>\<open>emulator/src/VirtualMachineInternal.c\<close>. An image is loaded completely or not at all; a dump that
  is too long stops the machine before its first instruction.
\<close>

section \<open>Operations\<close>

definition vm_loadDump :: "vm \<Rightarrow> u8 list \<Rightarrow> nat \<Rightarrow> vm" where
  "vm_loadDump vm program sz =
     (if sz > ZLVM_ROM_SIZE then vm_set_state S_ERR_OUT_OF_MEMORY vm
      else vm\<lparr>vm_rom := bytes_write list_update 0 (take sz program) (vm_rom vm), vm_entryPoint := 0\<rparr>)"

definition loadable :: "zl_section \<Rightarrow> bool" where
  "loadable s \<longleftrightarrow> sec_type s = ZL_IMAGE_SECTION_TEXT \<or> sec_type s = ZL_IMAGE_SECTION_DATA \<or>
     sec_type s = ZL_IMAGE_SECTION_BSS"

text \<open>The first loop's test: a loadable section that leaves the ROM.\<close>

definition outside_rom :: "zl_section \<Rightarrow> bool" where
  "outside_rom s \<longleftrightarrow> loadable s \<and>
     (unat (sec_address s) > ZLVM_ROM_SIZE \<or>
      sec_data_size s > ZLVM_ROM_SIZE - unat (sec_address s))"

text \<open>The body of the second loop, \<^verbatim>\<open>memset\<close> or \<^verbatim>\<open>memcpy\<close>.\<close>

definition load_section :: "u8 list \<Rightarrow> zl_section \<Rightarrow> u8 list" where
  "load_section rom s =
     (if sec_type s = ZL_IMAGE_SECTION_BSS
      then bytes_write list_update (unat (sec_address s)) (replicate (sec_data_size s) 0) rom
      else if sec_type s = ZL_IMAGE_SECTION_TEXT \<or> sec_type s = ZL_IMAGE_SECTION_DATA
      then (if sec_data_size s \<noteq> 0
            then bytes_write list_update (unat (sec_address s))
                   (c_array (sec_data s) (sec_data_size s)) rom
            else rom)
      else rom)"

text \<open>The error code is the second component; \<^verbatim>\<open>true\<close> is the code \<^verbatim>\<open>ZL_IMAGE_ERROR_NONE\<close>.\<close>

definition vm_loadImage ::
  "(nat \<Rightarrow> bool) \<Rightarrow> vm option \<Rightarrow> u8 list option \<Rightarrow> nat \<Rightarrow> vm option \<times> image_error" where
  "vm_loadImage can_alloc vm_ptr img image_size =
     (case (vm_ptr, img) of
        (Some vm, Some bytes) \<Rightarrow>
          (case zl_image_decode can_alloc img image_size of
             Inl e \<Rightarrow> (vm_ptr, e)
           | Inr decoded \<Rightarrow>
               if img_kind decoded \<noteq> ZL_IMAGE_EXECUTABLE
               then (vm_ptr, ZL_IMAGE_ERROR_INVALID_KIND)
               else if list_ex outside_rom (image_sections decoded)
               then (vm_ptr, ZL_IMAGE_ERROR_BOUNDS)
               else (Some (vm\<lparr>vm_rom := foldl load_section (vm_rom vm) (image_sections decoded),
                              vm_entryPoint := img_entry_point decoded\<rparr>), ZL_IMAGE_ERROR_NONE))
      | _ \<Rightarrow> (vm_ptr, ZL_IMAGE_ERROR_INVALID_ARGUMENT))"

section \<open>What a load writes\<close>

text \<open>The bytes a section stands for, and whether an address lies in it.\<close>

definition section_bytes :: "zl_section \<Rightarrow> u8 list" where
  "section_bytes s = (if sec_type s = ZL_IMAGE_SECTION_BSS then replicate (sec_data_size s) 0
     else c_array (sec_data s) (sec_data_size s))"

definition covers :: "zl_section \<Rightarrow> nat \<Rightarrow> bool" where
  "covers s a \<longleftrightarrow> unat (sec_address s) \<le> a \<and> a < unat (sec_address s) + sec_data_size s"

lemma valid_section_loadable: "section_ok s \<Longrightarrow> loadable s"
proof -
  assume "section_ok s"
  then have "unat (sec_type s) \<ge> 1" "unat (sec_type s) \<le> 3"
    by (auto simp: section_ok_def image_consts word_less_nat_alt)
  then consider "unat (sec_type s) = 1" | "unat (sec_type s) = 2" | "unat (sec_type s) = 3" by linarith
  then show "loadable s"
    by cases (simp_all add: loadable_def image_consts word_unat_eq_iff)
qed

lemma section_bytes_length:
  "section_ok s \<Longrightarrow> section_mem_ok s \<Longrightarrow> length (section_bytes s) = sec_data_size s"
  by (auto simp: section_bytes_def section_ok_def section_mem_ok_def c_array_def split: option.splits)

lemma load_section_eq:
  assumes "section_ok s" "section_mem_ok s"
  shows "load_section rom s = bytes_write list_update (unat (sec_address s)) (section_bytes s) rom"
proof -
  have "sec_data_size s = 0 \<Longrightarrow> section_bytes s = []"
    using section_bytes_length [OF assms] by simp
  then show ?thesis
    using valid_section_loadable [OF assms(1)]
    by (auto simp: load_section_def section_bytes_def loadable_def)
qed

lemma load_section_nth:
  assumes "section_ok s" "section_mem_ok s" "\<not> outside_rom s" "length rom = ZLVM_ROM_SIZE"
    "a < ZLVM_ROM_SIZE"
  shows "load_section rom s ! a =
    (if covers s a then section_bytes s ! (a - unat (sec_address s)) else rom ! a)"
  using assms valid_section_loadable [OF assms(1)] section_bytes_length [OF assms(1,2)]
  by (auto simp: load_section_eq buf.rd_bytes_write outside_rom_def covers_def)

lemma length_load_section [simp]: "length (load_section rom s) = length rom"
  by (simp add: load_section_def)

lemma length_load_sections [simp]: "length (foldl load_section rom ss) = length rom"
  by (induction ss arbitrary: rom) simp_all

lemma load_sections_nth:
  assumes "\<forall>s \<in> set ss. section_ok s \<and> section_mem_ok s \<and> \<not> outside_rom s" "a < ZLVM_ROM_SIZE"
  shows "length rom = ZLVM_ROM_SIZE \<Longrightarrow> (\<forall>s \<in> set ss. \<not> covers s a) \<Longrightarrow>
    foldl load_section rom ss ! a = rom ! a"
  using assms by (induction ss arbitrary: rom) (simp_all add: load_section_nth)

lemma load_sections_last:
  assumes "\<forall>s \<in> set (xs @ s # ys). section_ok s \<and> section_mem_ok s \<and> \<not> outside_rom s"
    "a < ZLVM_ROM_SIZE" "length rom = ZLVM_ROM_SIZE" "covers s a" "\<forall>t \<in> set ys. \<not> covers t a"
  shows "foldl load_section rom (xs @ s # ys) ! a = section_bytes s ! (a - unat (sec_address s))"
  using assms load_sections_nth [of ys a "load_section (foldl load_section rom xs) s"]
  by (simp add: load_section_nth)

lemma vm_loadImage_success:
  assumes "snd (vm_loadImage can_alloc (Some vm) (Some bytes) n) = ZL_IMAGE_ERROR_NONE"
    "zl_image_decode can_alloc (Some bytes) n \<noteq> Inl ZL_IMAGE_ERROR_NONE"
  obtains d where "zl_image_decode can_alloc (Some bytes) n = Inr d" "img_kind d = ZL_IMAGE_EXECUTABLE"
    "\<forall>s \<in> set (image_sections d). \<not> outside_rom s"
    "fst (vm_loadImage can_alloc (Some vm) (Some bytes) n) =
       Some (vm\<lparr>vm_rom := foldl load_section (vm_rom vm) (image_sections d),
                vm_entryPoint := img_entry_point d\<rparr>)"
  using assms
  by (auto simp: vm_loadImage_def list_ex_iff split: sum.splits if_splits)

section \<open>Loading images\<close>

lemma zl_image_decode_error: "zl_image_decode can_alloc p n = Inl e \<Longrightarrow> e \<noteq> ZL_IMAGE_ERROR_NONE"
proof -
  have tm: "try_map f xs = Inl e \<Longrightarrow> \<exists>x. f x = Inl e" for f :: "'a \<Rightarrow> image_error + 'b" and xs
    by (induction xs) (auto split: sum.splits)
  have h: "decode_header input n = Inl e \<Longrightarrow> e \<noteq> ZL_IMAGE_ERROR_NONE" for input
    by (auto simp: decode_header_def Let_def split: if_splits option.splits)
  have c: "decode_entry_symbol can_alloc input h = Inl e \<Longrightarrow> e \<noteq> ZL_IMAGE_ERROR_NONE" for input h
    by (auto simp: decode_entry_symbol_def split: if_splits option.splits)
  have s: "read_section can_alloc input n h i = Inl e \<Longrightarrow> e \<noteq> ZL_IMAGE_ERROR_NONE" for input h i
    by (auto simp: read_section_def Let_def split: if_splits option.splits)
  have y: "read_symbol can_alloc input h i = Inl e \<Longrightarrow> e \<noteq> ZL_IMAGE_ERROR_NONE" for input h i
    by (auto simp: read_symbol_def Let_def split: if_splits option.splits)
  have r: "read_relocation input h ss i = Inl e \<Longrightarrow> e \<noteq> ZL_IMAGE_ERROR_NONE" for input h ss i
    by (auto simp: read_relocation_def Let_def split: if_splits)
  assume "zl_image_decode can_alloc p n = Inl e"
  then show ?thesis
    by (auto simp: zl_image_decode_def Let_def split: option.splits sum.splits if_splits
        dest!: tm h c s y r)
qed

lemma vm_loadImage_cases:
  obtains (failed) e where "e \<noteq> ZL_IMAGE_ERROR_NONE"
    "vm_loadImage can_alloc (Some vm) (Some bytes) n = (Some vm, e)"
  | (loaded) d where "zl_image_decode can_alloc (Some bytes) n = Inr d" "img_kind d = ZL_IMAGE_EXECUTABLE"
    "\<forall>s \<in> set (image_sections d). \<not> outside_rom s"
    "vm_loadImage can_alloc (Some vm) (Some bytes) n =
       (Some (vm\<lparr>vm_rom := foldl load_section (vm_rom vm) (image_sections d),
                 vm_entryPoint := img_entry_point d\<rparr>), ZL_IMAGE_ERROR_NONE)"
proof (cases "zl_image_decode can_alloc (Some bytes) n")
  case (Inl e)
  then show thesis using failed [of e] zl_image_decode_error by (simp add: vm_loadImage_def)
next
  case (Inr d)
  show thesis
  proof (cases "img_kind d = ZL_IMAGE_EXECUTABLE \<and> \<not> list_ex outside_rom (image_sections d)")
    case True
    then show thesis using loaded [OF Inr] Inr by (simp add: vm_loadImage_def list_ex_iff)
  next
    case False
    then show thesis
      using failed [of ZL_IMAGE_ERROR_INVALID_KIND] failed [of ZL_IMAGE_ERROR_BOUNDS] Inr
      by (cases "img_kind d = ZL_IMAGE_EXECUTABLE") (simp_all add: vm_loadImage_def)
  qed
qed

text \<open>C25: loading an image is all or nothing: with an error code the machine is unchanged; without
  one only ROM contents and entry point changed, the ROM kept its size, and the entry point lies in
  a text section of the accepted executable.\<close>

theorem vm_loadImage_all_or_nothing:
  assumes "n \<le> length bytes" "vm_loadImage can_alloc (Some vm) (Some bytes) n = (Some vm', e)"
  shows "if e = ZL_IMAGE_ERROR_NONE
    then \<exists>d rom s. zl_image_decode can_alloc (Some bytes) n = Inr d \<and>
      vm' = vm\<lparr>vm_rom := rom, vm_entryPoint := img_entry_point d\<rparr> \<and>
      length rom = length (vm_rom vm) \<and> img_entry_point d \<noteq> 0 \<and>
      s \<in> set (image_sections d) \<and> sec_type s = ZL_IMAGE_SECTION_TEXT \<and>
      covers s (unat (img_entry_point d))
    else vm' = vm"
proof (cases rule: vm_loadImage_cases [of can_alloc vm bytes n])
  case (failed e')
  then show ?thesis using assms(2) by simp
next
  case (loaded d)
  have "valid_image d" using zl_image_decode_valid [OF loaded(1) assms(1)] by simp
  then have "img_entry_point d \<noteq> 0" "entry_found (img_entry_point d) (image_sections d)"
    using loaded(2) by (simp_all add: valid_image_def image_consts)
  then obtain s where s: "s \<in> set (image_sections d)" "sec_type s = ZL_IMAGE_SECTION_TEXT"
    "sec_address s \<le> img_entry_point d" "unat (img_entry_point d - sec_address s) < sec_data_size s"
    by (auto simp: entry_found_def)
  then have "covers s (unat (img_entry_point d))"
    by (simp add: covers_def unat_sub word_le_nat_alt)
  with s loaded(1,4) assms(2) \<open>img_entry_point d \<noteq> 0\<close> show ?thesis
    by auto
qed

text \<open>After a successful load every ROM byte is accounted for: an address in no section keeps
  its byte, and an address in a section, and in none after it, holds that section's byte.\<close>

theorem vm_loadImage_contents:
  assumes "n \<le> length bytes" "zl_image_decode can_alloc (Some bytes) n = Inr d" "wf_vm vm"
    and "vm_loadImage can_alloc (Some vm) (Some bytes) n = (Some vm', ZL_IMAGE_ERROR_NONE)"
    and "a < ZLVM_ROM_SIZE"
  shows "((\<forall>s \<in> set (image_sections d). \<not> covers s a) \<longrightarrow> vm_rom vm' ! a = vm_rom vm ! a) \<and>
    (image_sections d = xs @ s # ys \<longrightarrow> covers s a \<longrightarrow> (\<forall>t \<in> set ys. \<not> covers t a) \<longrightarrow>
      vm_rom vm' ! a = section_bytes s ! (a - unat (sec_address s)))"
proof -
  have ok: "\<forall>s \<in> set (image_sections d). section_ok s \<and> section_mem_ok s"
    using zl_image_decode_valid [OF assms(2,1)] by (auto simp: valid_image_def image_mem_ok_def)
  have rom: "length (vm_rom vm) = ZLVM_ROM_SIZE" using assms(3) by (simp add: wf_vm_def)
  show ?thesis
  proof (cases rule: vm_loadImage_cases [of can_alloc vm bytes n])
    case (failed e')
    then show ?thesis using assms(4) by simp
  next
    case (loaded d')
    then have fit: "\<forall>s \<in> set (image_sections d). section_ok s \<and> section_mem_ok s \<and> \<not> outside_rom s"
      and vm': "vm_rom vm' = foldl load_section (vm_rom vm) (image_sections d)"
      using ok assms(2,4) by auto
    show ?thesis
      using load_sections_nth [OF fit assms(5) rom] load_sections_last [of xs s ys a "vm_rom vm"]
        fit assms(5) rom by (auto simp: vm')
  qed
qed

section \<open>Loading dumps\<close>

text \<open>A dump longer than the ROM is refused: the ROM is unchanged and running the machine
  returns out of memory before any instruction. A dump that fits fills the start of the ROM and
  resets the entry point.\<close>

theorem vm_loadDump_outcome:
  assumes "wf_vm vm" "vm_has_no_error vm" "sz \<le> length program"
  shows "(sz > ZLVM_ROM_SIZE \<longrightarrow> vm_rom (vm_loadDump vm program sz) = vm_rom vm \<and>
      vm_run (vm_loadDump vm program sz) =
        Some (S_ERR_OUT_OF_MEMORY, vm_start (vm_loadDump vm program sz))) \<and>
    (sz \<le> ZLVM_ROM_SIZE \<longrightarrow>
      vm_rom (vm_loadDump vm program sz) = take sz program @ drop sz (vm_rom vm) \<and>
      vm_entryPoint (vm_loadDump vm program sz) = 0 \<and>
      vm_get_state (vm_loadDump vm program sz) = vm_get_state vm)"
proof (cases "sz > ZLVM_ROM_SIZE")
  case True
  let ?e = "vm_set_state S_ERR_OUT_OF_MEMORY vm"
  have e: "cpsr_ST (vm_cpsr ?e) = S_ERR_OUT_OF_MEMORY"
    using assms(2) by (simp add: vm_set_state_def)
  then have "\<not> vm_continues (vm_start ?e)"
    by (simp add: vm_continues_def vm_has_no_error_def is_error_iff)
  then have "vm_run ?e = Some (S_ERR_OUT_OF_MEMORY, vm_start ?e)"
    using e by (simp add: vm_run_def vm_loop_stop vm_get_state_def)
  with True show ?thesis by (simp add: vm_loadDump_def)
next
  case False
  then show ?thesis
    using assms by (simp add: vm_loadDump_def bytes_write_eq wf_vm_def vm_get_state_def min_def)
qed

section \<open>A program, end to end\<close>

text \<open>The program that prints a list of bytes: per byte one \<open>MOVI $a0\<close> and one \<open>INT 2\<close>, then
  \<open>INT 0xFF\<close>; and its code, as the encoder writes it.\<close>

definition plain :: "opcode \<Rightarrow> register \<Rightarrow> u32 \<Rightarrow> instruction" where
  "plain op r imm = \<lparr>ins_opcode = opcode_code op, ins_condition = 0,
     register1 = of_nat (register_index r), register2 = 0, immediate = imm\<rparr>"

definition print_program :: "u8 list \<Rightarrow> instruction list" where
  "print_program cs =
     concat (map (\<lambda>c. [plain MOVI R_A0 (ucast c), plain INT' R_ZERO 2]) cs) @ [plain INT' R_ZERO 0xFF]"

definition encoded :: "instruction \<Rightarrow> u8 list" where
  "encoded ins = the (instruction_encode (Some (replicate 8 0)) 8 (Some ins))"

definition program_code :: "instruction list \<Rightarrow> u8 list" where
  "program_code is = concat (map encoded is)"

lemma plain_codes: "unat (ins_opcode (plain op r imm)) < OPCODE_TOTAL"
  "unat (ins_condition (plain op r imm)) < C_TOTAL"
  using index_of_less [OF in_opcodes, of op]
  by (simp_all add: plain_def opcode_code_def length_opcodes C_TOTAL_def unsigned_of_nat
      take_bit_nat_eq_self OPCODE_TOTAL_def)

lemma encoded_plain:
  "instruction_encode (Some (replicate 8 0)) 8 (Some (plain op r imm)) = Some (encoded (plain op r imm))"
  "length (encoded (plain op r imm)) = 8"
  using plain_codes [of op r imm]
  by (simp_all add: encoded_def instruction_encode_def ZLVM_INSTRUCTION_SIZE_def)

lemma executes_plain: "executes vm (plain op r imm) op"
proof -
  have "register_index r < 32" by (cases r) (simp_all add: register_index_def registers_list_def)
  then have "unat (of_nat (register_index r) :: u8) = register_index r"
    by (simp add: unsigned_of_nat take_bit_nat_eq_self)
  then show ?thesis
    using register_index_less [of r]
    by (simp add: executes_def plain_def vm_check_condition_def condition_of_def conditions_def
        condition_holds_def opcode_of_code C_TOTAL_def vm_sizes)
qed

text \<open>Code in the ROM is what the next turns fetch.\<close>

lemma bytes_at_rom:
  assumes "wf_vm vm" "unat a + n \<le> ZLVM_ROM_SIZE"
  shows "bytes_at vm a n = take n (drop (unat a) (vm_rom vm))"
proof -
  have "unat (a + of_nat i) = unat a + i" if "i < n" for i
    using that assms(2) by (subst unat_word_ariths) (simp add: unat_of_nat_u32 limits vm_sizes)
  then show ?thesis
    using assms by (intro nth_equalityI) (simp_all add: bytes_at_def mem_byte_def wf_vm_def)
qed

lemma rom_code_step:
  assumes "instruction_encode (Some out) n (Some ins) = Some code" "length out = 8"
    and "wf_vm vm" "vm_has_no_error vm" "memory_end vm \<le> WORD_MAX"
    and "unat (reg vm R_PC) + 8 \<le> ZLVM_ROM_SIZE" "take 8 (drop (unat (reg vm R_PC)) (vm_rom vm)) = code"
  shows "vm_step vm = vm_run_instruction (set_reg R_PC (reg vm R_PC + 8) vm) ins"
proof -
  have "in_range vm (unat (reg vm R_PC)) 8"
    using assms(5,6) by (simp add: in_range_u32 memory_end_def)
  then show ?thesis
    using assms(1-4,6,7) by (intro vm_step_of_encoded [of out n]) (simp_all add: bytes_at_rom)
qed

text \<open>A machine about to execute the code at address \<open>p\<close> of its ROM.\<close>

definition at_code :: "vm \<Rightarrow> nat \<Rightarrow> instruction list \<Rightarrow> bool" where
  "at_code vm p is \<longleftrightarrow> wf_vm vm \<and> vm_continues vm \<and> memory_end vm \<le> WORD_MAX \<and>
     unat (reg vm R_PC) = p \<and> p + length (program_code is) \<le> ZLVM_ROM_SIZE \<and>
     take (length (program_code is)) (drop p (vm_rom vm)) = program_code is"

lemma at_code_step:
  assumes "at_code vm p (plain op r imm # is)"
  shows "vm_step vm = vm_run_instruction (set_reg R_PC (reg vm R_PC + 8) vm) (plain op r imm)"
    and "unat (reg vm R_PC + 8) = p + 8" "p + 8 \<le> ZLVM_ROM_SIZE" "wf_vm vm"
    and "vm_turn vm (vm_step vm)"
proof -
  let ?e = "encoded (plain op r imm)"
  have a: "wf_vm vm" "vm_continues vm" "memory_end vm \<le> WORD_MAX" "unat (reg vm R_PC) = p"
    "p + 8 \<le> ZLVM_ROM_SIZE" "length (vm_rom vm) = ZLVM_ROM_SIZE"
    "take (8 + length (program_code is)) (drop p (vm_rom vm)) = ?e @ program_code is"
    using assms by (auto simp: at_code_def program_code_def encoded_plain wf_vm_def)
  have "take 8 (drop p (vm_rom vm)) = ?e"
    using arg_cong [OF a(7), of "take 8"] by (simp add: encoded_plain)
  then show "vm_step vm = vm_run_instruction (set_reg R_PC (reg vm R_PC + 8) vm) (plain op r imm)"
    using a(1-5) by (intro rom_code_step [OF encoded_plain(1)]) (simp_all add: vm_continues_def)
  show "unat (reg vm R_PC + 8) = p + 8"
    using a(4,5) by (subst unat_word_ariths) (simp add: limits vm_sizes)
  show "p + 8 \<le> ZLVM_ROM_SIZE" "wf_vm vm" by (fact a)+
  show "vm_turn vm (vm_step vm)" using a(2) by (simp add: vm_turn_step)
qed

lemma at_code_next:
  assumes "at_code vm p (plain op r imm # is)" "wf_vm vm'" "vm_continues vm'"
    "memory_end vm' = memory_end vm" "vm_rom vm' = vm_rom vm" "unat (reg vm' R_PC) = p + 8"
  shows "at_code vm' (p + 8) is"
proof -
  have "take (8 + length (program_code is)) (drop p (vm_rom vm)) = encoded (plain op r imm) @ program_code is"
    using assms(1) by (simp add: at_code_def program_code_def encoded_plain)
  then have "drop 8 (take (8 + length (program_code is)) (drop p (vm_rom vm))) = program_code is"
    by (simp add: encoded_plain)
  then have "take (length (program_code is)) (drop (p + 8) (vm_rom vm)) = program_code is"
    by (simp add: drop_take add.commute)
  then show ?thesis
    using assms by (simp add: at_code_def program_code_def encoded_plain)
qed

lemma plain_immediate [simp]: "immediate (plain op r imm) = imm"
  by (simp add: plain_def)

lemma step_MOVI_A0:
  assumes "at_code vm p (plain MOVI R_A0 w # is)"
  shows "\<exists>vm'. vm_turn vm vm' \<and> at_code vm' (p + 8) is \<and> reg vm' R_A0 = w \<and>
    vm_stdout vm' = vm_stdout vm"
proof -
  note st = at_code_step [OF assms]
  let ?v = "set_reg R_PC (reg vm R_PC + 8) vm" and ?i = "plain MOVI R_A0 w"
  let ?n = "vm_finish (set_reg R_A0 w (set_reg R_ZERO 0 ?v)) ?i False"
  have "unat (register1 ?i) = register_index R_A0"
    by (simp add: plain_def register_index_def registers_list_def)
  then have "vm_step vm = ?n"
    unfolding st(1) by (intro run_with_result [OF executes_plain]) (simp add: vm_execute_def Let_def)
  moreover have "keeps vm ?n" by (intro wf_intros)
  then have "wf_vm ?n" using st(4) by (simp add: keeps_def)
  moreover have "vm_continues ?n"
    using assms by (simp add: at_code_def vm_continues_def vm_has_no_error_def vm_has_state_def)
  moreover have "reg ?n R_PC = reg vm R_PC + 8" "reg ?n R_A0 = w"
    using st(4) by (simp_all add: finish_regs)
  ultimately show ?thesis
    using st(2,5) at_code_next [OF assms, of ?n] by auto
qed

lemma step_INT_print:
  assumes "at_code vm p (plain INT' R_ZERO 2 # is)"
  shows "\<exists>vm'. vm_turn vm vm' \<and> at_code vm' (p + 8) is \<and>
    vm_stdout vm' = vm_stdout vm @ [ucast (reg vm R_A0)]"
proof -
  note st = at_code_step [OF assms]
  let ?v = "set_reg R_PC (reg vm R_PC + 8) vm" and ?i = "plain INT' R_ZERO 2"
  let ?n = "vm_finish (fputc (ucast (reg vm R_A0)) (set_reg R_ZERO 0 ?v)) ?i False"
  have "vm_step vm = ?n"
    unfolding st(1)
    by (intro run_with_result [OF executes_plain]) (simp add: vm_execute_def vm_interrupt_def Let_def)
  moreover have "keeps vm ?n" by (intro wf_intros)
  then have "wf_vm ?n" using st(4) by (simp add: keeps_def)
  moreover have "vm_continues ?n"
    using assms
    by (simp add: at_code_def vm_continues_def vm_has_no_error_def vm_has_state_def fputc_def)
  moreover have "reg ?n R_PC = reg vm R_PC + 8"
    using st(4) by (simp add: finish_regs fputc_def)
  moreover have "memory_end ?n = memory_end vm" "vm_rom ?n = vm_rom vm"
    by (simp_all add: fputc_def memory_end_def)
  ultimately show ?thesis
    using st(2,5) at_code_next [OF assms, of ?n] by (auto simp: fputc_def)
qed

lemma step_INT_halt:
  assumes "at_code vm p (plain INT' R_ZERO 0xFF # is)"
  shows "\<exists>vm'. vm_turn vm vm' \<and> vm_get_state vm' = S_HALTED \<and> vm_stdout vm' = vm_stdout vm"
proof -
  note st = at_code_step [OF assms]
  let ?v = "set_reg R_PC (reg vm R_PC + 8) vm" and ?i = "plain INT' R_ZERO 0xFF"
  let ?n = "vm_finish (vm_set_state S_HALTED (set_reg R_ZERO 0 ?v)) ?i False"
  have "vm_step vm = ?n"
    unfolding st(1)
    by (intro run_with_result [OF executes_plain]) (simp add: vm_execute_def vm_interrupt_def Let_def)
  moreover have "vm_get_state ?n = S_HALTED"
    using assms by (simp add: at_code_def vm_continues_def vm_has_no_error_iff vm_get_set_state)
  ultimately show ?thesis using st(5) by auto
qed

lemma print_program_Cons:
  "print_program [] = [plain INT' R_ZERO 0xFF]"
  "print_program (c # cs) = plain MOVI R_A0 (ucast c) # plain INT' R_ZERO 2 # print_program cs"
  by (simp_all add: print_program_def)

lemma run_print_program:
  "at_code vm p (print_program cs) \<Longrightarrow>
     \<exists>vm'. vm_loop vm = Some vm' \<and> vm_get_state vm' = S_HALTED \<and> vm_stdout vm' = vm_stdout vm @ cs"
proof (induction cs arbitrary: vm p)
  case Nil
  then obtain vm' where v: "vm_turn vm vm'" "vm_get_state vm' = S_HALTED" "vm_stdout vm' = vm_stdout vm"
    using step_INT_halt [of vm p "[]"] by (auto simp: print_program_Cons)
  then have "\<not> vm_continues vm'"
    by (simp add: vm_continues_def vm_has_state_def vm_get_state_def)
  with v show ?case by (auto simp: vm_loop_turn vm_loop_stop)
next
  case (Cons c cs)
  then have "at_code vm p (plain MOVI R_A0 (ucast c) # plain INT' R_ZERO 2 # print_program cs)"
    by (simp add: print_program_Cons)
  from step_MOVI_A0 [OF this] obtain v1 where
    v1: "vm_turn vm v1" "at_code v1 (p + 8) (plain INT' R_ZERO 2 # print_program cs)"
      "reg v1 R_A0 = ucast c" "vm_stdout v1 = vm_stdout vm"
    by auto
  then obtain v2 where v2: "vm_turn v1 v2" "at_code v2 (p + 8 + 8) (print_program cs)"
    "vm_stdout v2 = vm_stdout vm @ [c]"
    using step_INT_print [OF v1(2)] by auto
  then show ?case
    using Cons.IH [OF v2(2)] v1(1) by (auto simp: vm_loop_turn)
qed

lemma length_program_code: "length (program_code (print_program cs)) = 16 * length cs + 8"
  by (induction cs) (simp_all add: print_program_Cons program_code_def encoded_plain)

lemma run_prints_bytes:
  assumes "wf_vm vm" "vm_continues vm" "memory_end vm \<le> WORD_MAX" "length cs \<le> 255"
    and code: "code = program_code (print_program cs)"
  shows "\<exists>vm'. vm_run (vm_loadDump vm code (length code)) = Some (S_HALTED, vm') \<and>
    vm_stdout vm' = vm_stdout vm @ cs"
proof -
  let ?l = "vm_loadDump vm code (length code)"
  have fits: "length code \<le> ZLVM_ROM_SIZE"
    using assms(4) by (simp add: code length_program_code vm_sizes)
  have l: "?l = vm\<lparr>vm_rom := code @ drop (length code) (vm_rom vm), vm_entryPoint := 0\<rparr>"
    using fits assms(1) by (simp add: vm_loadDump_def bytes_write_eq wf_vm_def)
  obtain m where m: "m = ?l" by simp
  have f: "vm_rom m = code @ drop (length code) (vm_rom vm)" "vm_entryPoint m = 0"
    "vm_memorySize m = vm_memorySize vm" "vm_stdout m = vm_stdout vm" "vm_cpsr m = vm_cpsr vm" "wf_vm m"
    unfolding m l using assms(1) fits by (simp_all add: wf_vm_def)
  have "vm_continues (vm_start m)"
    using assms(2) f by (simp add: vm_continues_def vm_has_no_error_def vm_has_state_def)
  moreover have "vm_rom (vm_start m) = vm_rom m" by (simp add: vm_start_def)
  ultimately have "at_code (vm_start m) 0 (print_program cs)"
    unfolding at_code_def using fits assms(3) f
    by (simp add: vm_start_regs code memory_end_def)
  from run_print_program [OF this] show ?thesis
    using f(4) by (auto simp: vm_run_def simp flip: m)
qed

text \<open>C33: loading the code of the program that prints up to 255 given bytes (so many fit the ROM), as the
  instruction encoder writes it, into a machine that is neither halted nor in error and whose memory ends
  below 4 GiB, and running it, the machine halts after writing exactly these bytes to the host.\<close>

theorem vm_prints_bytes:
  assumes "wf_vm vm" "vm_continues vm" "memory_end vm \<le> WORD_MAX" "length cs \<le> 255"
    and code: "code = program_code (print_program cs)"
  shows "\<exists>vm'. vm_run (vm_loadDump vm code (length code)) = Some (S_HALTED, vm') \<and>
    vm_stdout vm' = vm_stdout vm @ cs"
  using assms by (rule run_prints_bytes)

end
