(* ===== verification/Linker.thy ===== *)
theory Linker
  imports Loader "HOL-Library.Char_ord"
begin

text \<open>
  The linker, \<^verbatim>\<open>emulator/src/Linker.c\<close>: decoding the objects, choosing the entry symbol, laying the
  sections out in the ROM, building the symbol table, applying the relocations, and encoding the
  executable. Each phase is a definition; \<open>zl_link_objects\<close> runs them in the order of the code and
  stops at the first error.
\<close>

section \<open>Data\<close>

datatype (plugins only: code size) link_error =
    ZL_LINK_ERROR_NONE | ZL_LINK_ERROR_INVALID_ARGUMENT | ZL_LINK_ERROR_OUT_OF_MEMORY |
    ZL_LINK_ERROR_INCOMPATIBLE_OBJECT | ZL_LINK_ERROR_DUPLICATE_SYMBOL |
    ZL_LINK_ERROR_UNRESOLVED_SYMBOL | ZL_LINK_ERROR_OVERLAP | ZL_LINK_ERROR_OVERFLOW |
    ZL_LINK_ERROR_NO_ENTRY

record link_section =
  ls_image :: zl_section
  ls_object :: nat
  ls_source :: nat

text \<open>A string literal as the bytes of a C string.\<close>

definition cstr :: "string \<Rightarrow> cstring" where
  "cstr s = map of_char s"

section \<open>Helpers\<close>

definition write32 :: "u8 list \<Rightarrow> nat \<Rightarrow> u32 \<Rightarrow> u8 list" where
  "write32 data offset value = le_write list_update 4 offset value data"

text \<open>64-bit arithmetic that wraps, as in C.\<close>

definition align_address :: "u64 \<Rightarrow> u32 \<Rightarrow> u32 option" where
  "align_address value alignment =
     (if value > - 1 - ucast alignment + 1 then None
      else let aligned = (value + ucast alignment - 1) AND NOT (ucast alignment - 1)
           in if aligned > ucast (- 1 :: u32) then None else Some (ucast aligned))"

text \<open>Section sizes are below \<open>2 ^ 32\<close>, so the 64-bit sums are sums of naturals.\<close>

definition overlaps :: "link_section list \<Rightarrow> u32 \<Rightarrow> nat \<Rightarrow> bool" where
  "overlaps sections address sz =
     list_ex (\<lambda>s. unat address < unat (sec_address (ls_image s)) + sec_data_size (ls_image s) \<and>
        unat (sec_address (ls_image s)) < unat address + sz) sections"

text \<open>The first index, or \<^term>\<open>None\<close> for \<open>-1\<close>.\<close>

fun find_section_from :: "link_section list \<Rightarrow> nat \<Rightarrow> nat \<Rightarrow> nat \<Rightarrow> nat option" where
  "find_section_from [] object source index = None"
| "find_section_from (s # ss) object source index =
     (if ls_object s = object \<and> ls_source s = source then Some index
      else find_section_from ss object source (Suc index))"

definition find_section :: "link_section list \<Rightarrow> nat \<Rightarrow> nat \<Rightarrow> nat option" where
  "find_section sections object source = find_section_from sections object source 0"

section \<open>Phases\<close>

definition link_decode ::
  "(nat \<Rightarrow> bool) \<Rightarrow> u8 list option \<times> nat \<Rightarrow> link_error + zl_image" where
  "link_decode can_alloc obj =
     (case zl_image_decode can_alloc (fst obj) (snd obj) of
        Inl _ \<Rightarrow> Inl ZL_LINK_ERROR_INCOMPATIBLE_OBJECT
      | Inr img \<Rightarrow> if img_kind img \<noteq> ZL_IMAGE_OBJECT then Inl ZL_LINK_ERROR_INCOMPATIBLE_OBJECT
                   else Inr img)"

fun first_entry_symbol :: "zl_image list \<Rightarrow> cstring option" where
  "first_entry_symbol [] = None"
| "first_entry_symbol (img # imgs) =
     (case img_entry_symbol img of Some e \<Rightarrow> Some e | None \<Rightarrow> first_entry_symbol imgs)"

definition selected_entry :: "cstring option \<Rightarrow> zl_image list \<Rightarrow> cstring" where
  "selected_entry entry_symbol imgs =
     (case entry_symbol of Some e \<Rightarrow> e
      | None \<Rightarrow> (case first_entry_symbol imgs of Some e \<Rightarrow> e | None \<Rightarrow> cstr ''start''))"

text \<open>The sections of all objects with their object and source index, in the order of the two nested
  loops.\<close>

definition all_sections :: "zl_image list \<Rightarrow> link_section list" where
  "all_sections imgs =
     concat (map (\<lambda>(obj, img). map (\<lambda>(src, s). \<lparr>ls_image = s, ls_object = obj, ls_source = src\<rparr>)
       (enumerate 0 (image_sections img))) (enumerate 0 imgs))"

text \<open>The body of the layout loop: the sections placed so far and the cursor.\<close>

definition layout_section ::
  "link_section list \<times> u32 \<Rightarrow> link_section \<Rightarrow> link_error + link_section list \<times> u32" where
  "layout_section st section =
     (let (sections, cursor) = st; input = ls_image section;
          place = (\<lambda>address.
            if unat address + sec_data_size input > ZLVM_ROM_SIZE \<or>
               overlaps sections address (sec_data_size input)
            then Inl (if overlaps sections address (sec_data_size input) then ZL_LINK_ERROR_OVERLAP
                      else ZL_LINK_ERROR_OVERFLOW)
            else Inr (sections @ [section\<lparr>ls_image := input\<lparr>sec_address := address\<rparr>\<rparr>],
                      of_nat (unat address + sec_data_size input)))
      in if sec_address input = 0 \<and> sec_flags input AND 1 = 0
         then (case align_address (ucast cursor) (sec_alignment input) of
                 None \<Rightarrow> Inl ZL_LINK_ERROR_OVERFLOW
               | Some address \<Rightarrow> place address)
         else place (sec_address input))"

definition layout_sections :: "zl_image list \<Rightarrow> link_error + link_section list" where
  "layout_sections imgs =
     (case try_fold layout_section ([], 8) (all_sections imgs) of
        Inl e \<Rightarrow> Inl e | Inr (sections, cursor) \<Rightarrow> Inr sections)"

text \<open>Every symbol with the index of its object.\<close>

definition all_symbols :: "zl_image list \<Rightarrow> (nat \<times> zl_symbol) list" where
  "all_symbols imgs =
     concat (map (\<lambda>(obj, img). map (\<lambda>y. (obj, y)) (image_symbols img)) (enumerate 0 imgs))"

definition defined :: "zl_symbol \<Rightarrow> bool" where
  "defined y \<longleftrightarrow> sym_section_index y \<noteq> ZL_IMAGE_UNDEFINED_SECTION"

text \<open>The body of the symbol loop: a defined symbol gets its absolute value, in 32 bits, and the index
  of its placed section.\<close>

definition link_symbol ::
  "link_section list \<Rightarrow> zl_symbol list \<Rightarrow> nat \<times> zl_symbol \<Rightarrow> link_error + zl_symbol list" where
  "link_symbol sections symbols oy =
     (let (obj, symbol) = oy;
          add = (\<lambda>symbol.
            if sym_binding symbol = ZL_IMAGE_SYMBOL_GLOBAL \<and>
               list_ex (\<lambda>existing. sym_binding existing = ZL_IMAGE_SYMBOL_GLOBAL \<and>
                 c_name (sym_name existing) = c_name (sym_name symbol) \<and>
                 defined existing \<and> defined symbol) symbols
            then Inl ZL_LINK_ERROR_DUPLICATE_SYMBOL
            else Inr (symbols @ [symbol]))
      in if defined symbol
         then (case find_section sections obj (unat (sym_section_index symbol)) of
                 None \<Rightarrow> Inl ZL_LINK_ERROR_INCOMPATIBLE_OBJECT
               | Some index \<Rightarrow>
                   add (symbol\<lparr>sym_value := sym_value symbol + sec_address (ls_image (sections ! index)),
                               sym_section_index := of_nat index\<rparr>))
         else add symbol)"

definition all_relocations :: "zl_image list \<Rightarrow> (nat \<times> zl_image \<times> zl_relocation) list" where
  "all_relocations imgs =
     concat (map (\<lambda>(obj, img). map (\<lambda>r. (obj, img, r)) (image_relocations img)) (enumerate 0 imgs))"

text \<open>The search for the definition of an undefined reference.\<close>

definition resolves :: "cstring \<Rightarrow> zl_symbol \<Rightarrow> bool" where
  "resolves name y \<longleftrightarrow> c_name (sym_name y) = name \<and> sym_binding y = ZL_IMAGE_SYMBOL_GLOBAL \<and> defined y"

text \<open>The value a relocation's symbol stands for, as a 64-bit integer.\<close>

definition symbol_address ::
  "link_section list \<Rightarrow> zl_symbol list \<Rightarrow> nat \<Rightarrow> zl_symbol \<Rightarrow> link_error + int" where
  "symbol_address sections symbols obj reference =
     (if defined reference
      then (case find_section sections obj (unat (sym_section_index reference)) of
              None \<Rightarrow> Inl ZL_LINK_ERROR_INCOMPATIBLE_OBJECT
            | Some target \<Rightarrow>
                Inr (uint (sec_address (ls_image (sections ! target))) + uint (sym_value reference)))
      else (case find (resolves (c_name (sym_name reference))) symbols of
              None \<Rightarrow> Inl ZL_LINK_ERROR_UNRESOLVED_SYMBOL
            | Some y \<Rightarrow> Inr (uint (sym_value y))))"

text \<open>The body of the relocation loop.\<close>

definition link_relocation ::
  "zl_symbol list \<Rightarrow> link_section list \<Rightarrow> nat \<times> zl_image \<times> zl_relocation \<Rightarrow>
     link_error + link_section list" where
  "link_relocation symbols sections oir =
     (let (obj, img, relocation) = oir in
      case find_section sections obj (unat (rel_section_index relocation)) of
        None \<Rightarrow> Inl ZL_LINK_ERROR_INCOMPATIBLE_OBJECT
      | Some destination \<Rightarrow>
      let reference = image_symbols img ! unat (rel_symbol_index relocation);
          section = ls_image (sections ! destination) in
      case symbol_address sections symbols obj reference of
        Inl e \<Rightarrow> Inl e
      | Inr target \<Rightarrow>
      let place = uint (sec_address section) + uint (rel_offset relocation);
          value = target + sint (rel_addend relocation);
          value = (if rel_type relocation = ZL_IMAGE_RELOCATION_PC_RELATIVE32 then value - place
                   else value)
      in if (if rel_type relocation = ZL_IMAGE_RELOCATION_PC_RELATIVE32
             then value < SWORD_MIN \<or> value > SWORD_MAX else value < 0 \<or> value > int WORD_MAX)
         then Inl ZL_LINK_ERROR_OVERFLOW
         else if unat (rel_offset relocation) > sec_data_size section \<or>
                 sec_data_size section - unat (rel_offset relocation) < 4
         then Inl ZL_LINK_ERROR_OVERFLOW
         else Inr (sections[destination := (sections ! destination)\<lparr>ls_image := section\<lparr>sec_data :=
                map_option (\<lambda>d. write32 d (unat (rel_offset relocation)) (word_of_int value))
                  (sec_data section)\<rparr>\<rparr>]))"

definition entry_address :: "cstring \<Rightarrow> zl_symbol list \<Rightarrow> u32" where
  "entry_address name symbols =
     (case find (\<lambda>y. defined y \<and> c_name (sym_name y) = name) symbols of
        None \<Rightarrow> 0 | Some y \<Rightarrow> sym_value y)"

definition executable_image :: "u32 \<Rightarrow> link_section list \<Rightarrow> zl_image" where
  "executable_image entry sections =
     zero_image\<lparr>img_kind := ZL_IMAGE_EXECUTABLE, img_entry_point := entry,
       img_sections := Some (map ls_image sections), img_section_count := length sections\<rparr>"

section \<open>The linker\<close>

text \<open>\<open>objects\<close> are the arrays \<^verbatim>\<open>objects\<close> and \<^verbatim>\<open>object_sizes\<close> of \<^verbatim>\<open>object_count\<close> elements; the factors of
  the allocations are the sizes of the structures on a 64-bit host. The caller's output pointers are
  not null.\<close>

definition zl_link_objects ::
  "(nat \<Rightarrow> bool) \<Rightarrow> (u8 list option \<times> nat) list option \<Rightarrow> cstring option \<Rightarrow> link_error + u8 list" where
  "zl_link_objects can_alloc objects_ptr entry_symbol =
     (case objects_ptr of None \<Rightarrow> Inl ZL_LINK_ERROR_INVALID_ARGUMENT
      | Some objects \<Rightarrow>
      if objects = [] then Inl ZL_LINK_ERROR_INVALID_ARGUMENT
      else if \<not> can_alloc (length objects * 64) then Inl ZL_LINK_ERROR_OUT_OF_MEMORY
      else case try_map (link_decode can_alloc) objects of Inl e \<Rightarrow> Inl e
      | Inr imgs \<Rightarrow>
      if \<not> can_alloc (length (all_sections imgs) * 56) then Inl ZL_LINK_ERROR_OUT_OF_MEMORY
      else case layout_sections imgs of Inl e \<Rightarrow> Inl e
      | Inr sections \<Rightarrow>
      if \<not> can_alloc (length (all_symbols imgs) * sizeof_symbol) then Inl ZL_LINK_ERROR_OUT_OF_MEMORY
      else case try_fold (link_symbol sections) [] (all_symbols imgs) of Inl e \<Rightarrow> Inl e
      | Inr symbols \<Rightarrow>
      case try_fold (link_relocation symbols) sections (all_relocations imgs) of Inl e \<Rightarrow> Inl e
      | Inr sections \<Rightarrow>
      let entry = entry_address (selected_entry entry_symbol imgs) symbols
      in if entry = 0 then Inl ZL_LINK_ERROR_NO_ENTRY
         else if \<not> can_alloc (length sections * sizeof_section) then Inl ZL_LINK_ERROR_OUT_OF_MEMORY
         else case zl_image_encode can_alloc (Some (executable_image entry sections)) of
           Inl ZL_IMAGE_ERROR_OVERFLOW \<Rightarrow> Inl ZL_LINK_ERROR_OVERFLOW
         | Inl _ \<Rightarrow> Inl ZL_LINK_ERROR_INCOMPATIBLE_OBJECT
         | Inr out \<Rightarrow> Inr out)"

end
