(* ===== verification/Object.thy ===== *)
theory Object
  imports Assembler Linker
begin

unbundle bit_operations_syntax

text \<open>
  The translation to a relocatable object, \<^verbatim>\<open>asm_translate_object\<close> of \<^verbatim>\<open>asm/src/Assembler.c\<close>: the
  section table, the symbol table, the code and data of the lines with their relocations, and the
  encoded image.
\<close>

section \<open>Sections\<close>

definition object_image_section :: "asm_section \<Rightarrow> zl_section" where
  "object_image_section s =
     \<lparr>sec_name = Some (cstr (as_name s)), sec_type = as_type s, sec_flags = as_flags s,
      sec_alignment = as_alignment s, sec_address = as_address s,
      sec_data = (if as_type s = ZL_IMAGE_SECTION_BSS then None else Some (replicate (as_size s) 0)),
      sec_data_size = as_size s\<rparr>"

section \<open>Symbols\<close>

text \<open>The offset of the first line of the section with the label.\<close>

definition find_symbol_line :: "line list \<Rightarrow> string \<Rightarrow> nat \<Rightarrow> nat option" where
  "find_symbol_line ls name section_index =
     map_option ln_section_offset
       (find (\<lambda>l. ln_section_index l = section_index \<and> ln_label l = Some name) ls)"

definition find_image_symbol :: "zl_symbol list \<Rightarrow> string \<Rightarrow> nat option" where
  "find_image_symbol symbols name =
     (let index = length (takeWhile (\<lambda>y. c_name (sym_name y) \<noteq> cstr name) symbols)
      in if index < length symbols then Some index else None)"

text \<open>The three loops that build the table: labels, globals and externals.\<close>

definition add_label_symbol :: "asm_section list \<Rightarrow> zl_symbol list \<Rightarrow> line \<Rightarrow> zl_symbol list" where
  "add_label_symbol sections symbols l =
     (case ln_label l of
        None \<Rightarrow> symbols
      | Some name \<Rightarrow>
          if find_image_symbol symbols name \<noteq> None then symbols
          else symbols @ [\<lparr>sym_name = Some (cstr name), sym_section_index = of_nat (ln_section_index l),
                 sym_value = of_nat (ln_section_offset l), sym_size = 0,
                 sym_binding = ZL_IMAGE_SYMBOL_LOCAL,
                 sym_type = (if ln_section_index l < length sections \<and>
                     as_type (sections ! ln_section_index l) = ZL_IMAGE_SECTION_TEXT
                   then ZL_IMAGE_SYMBOL_FUNCTION else ZL_IMAGE_SYMBOL_OBJECT)\<rparr>])"

definition make_global :: "zl_symbol list \<Rightarrow> string \<Rightarrow> diagnostic + zl_symbol list" where
  "make_global symbols name =
     (case find_image_symbol symbols name of
        None \<Rightarrow> asm_fail ZLASM_DIAGNOSTIC_SECTION_ERROR
      | Some i \<Rightarrow> Inr (symbols[i := (symbols ! i)\<lparr>sym_binding := ZL_IMAGE_SYMBOL_GLOBAL\<rparr>]))"

definition add_external_symbol :: "zl_symbol list \<Rightarrow> string \<Rightarrow> zl_symbol list" where
  "add_external_symbol symbols name =
     (if find_image_symbol symbols name \<noteq> None then symbols
      else symbols @ [\<lparr>sym_name = Some (cstr name), sym_section_index = ZL_IMAGE_UNDEFINED_SECTION,
             sym_value = 0, sym_size = 0, sym_binding = ZL_IMAGE_SYMBOL_GLOBAL, sym_type = 0\<rparr>])"

definition object_symbols :: "assembler \<Rightarrow> diagnostic + zl_symbol list" where
  "object_symbols c =
     sbind (try_fold make_global (foldl (add_label_symbol (ac_sections c)) [] (ac_lines c))
              (ac_globals c)) (\<lambda>symbols.
     Inr (foldl add_external_symbol symbols (ac_externals c)))"

section \<open>Code and data\<close>

text \<open>An immediate and its relocation: a label of the same section becomes its offset, any other symbol
  an absolute relocation of the immediate field.\<close>

definition object_immediate ::
  "line list \<Rightarrow> zl_symbol list \<Rightarrow> line \<Rightarrow> token option \<Rightarrow> diagnostic + u32 \<times> zl_relocation list" where
  "object_immediate ls symbols l imm =
     (case imm of
        None \<Rightarrow> Inr (0, [])
      | Some imm \<Rightarrow>
          if tok_type imm = TOK_LABEL_USE
          then (case find_symbol_line ls (tok_value imm) (ln_section_index l) of
                  Some offset \<Rightarrow> Inr (of_nat offset, [])
                | None \<Rightarrow>
                    (case find_image_symbol symbols (tok_value imm) of
                       None \<Rightarrow> asm_token_fail ZLASM_DIAGNOSTIC_UNKNOWN_LABEL (Some imm)
                     | Some symbol \<Rightarrow>
                         Inr (0, [\<lparr>rel_section_index = of_nat (ln_section_index l),
                           rel_offset = of_nat (ln_section_offset l + 4),
                           rel_type = ZL_IMAGE_RELOCATION_ABSOLUTE32,
                           rel_symbol_index = of_nat symbol, rel_addend = 0\<rparr>])))
          else sbind (literal_immediate imm) (\<lambda>v. Inr (v, [])))"

text \<open>Conditions and registers are parsed before the opcode is checked.\<close>

definition object_statement ::
  "line list \<Rightarrow> zl_symbol list \<Rightarrow> line \<Rightarrow> statement \<Rightarrow> diagnostic + u8 list \<times> zl_relocation list" where
  "object_statement ls symbols l s =
     sbind (parse_optional parse_condition C_UNCONDITIONAL (st_cond s)) (\<lambda>cond.
     sbind (parse_optional parse_register R_ZERO (st_reg1 s)) (\<lambda>r1.
     sbind (parse_optional parse_register R_ZERO (st_reg2 s)) (\<lambda>r2.
     (case opcode_of (string_to_opcode (line_to_upper (tok_value (st_opcode s)))) of
        None \<Rightarrow> asm_token_fail ZLASM_DIAGNOSTIC_UNKNOWN_OPCODE (Some (st_opcode s))
      | Some op \<Rightarrow>
          sbind (validate_operands op s) (\<lambda>_.
          sbind (object_immediate ls symbols l (st_imm s)) (\<lambda>(imm, relocations).
          sbind (encode_or_fail (make_instruction op cond r1 r2 imm)) (\<lambda>bytes.
          Inr (bytes, relocations))))))))"

text \<open>\<^verbatim>\<open>memcpy\<close> into the data of a section.\<close>

definition emit :: "zl_section list \<Rightarrow> line \<Rightarrow> u8 list \<Rightarrow> zl_section list" where
  "emit sections l bytes =
     (let i = ln_section_index l; s = sections ! i
      in sections[i := s\<lparr>sec_data := map_option (bytes_write list_update (ln_section_offset l) bytes)
                            (sec_data s)\<rparr>])"

text \<open>One line of the emission loop; a section without data of its own takes neither data nor code.\<close>

definition emit_line ::
  "line list \<Rightarrow> zl_symbol list \<Rightarrow> zl_section list \<times> zl_relocation list \<Rightarrow> line \<Rightarrow>
     diagnostic + zl_section list \<times> zl_relocation list" where
  "emit_line ls symbols st l =
     (let (sections, relocations) = st in
      if sec_type (sections ! ln_section_index l) = ZL_IMAGE_SECTION_BSS
      then asm_fail ZLASM_DIAGNOSTIC_SECTION_ERROR
      else case ln_content l of
        L_RAW data \<Rightarrow> Inr (emit sections l data, relocations)
      | L_STMT s \<Rightarrow> sbind (object_statement ls symbols l s) (\<lambda>(bytes, new).
          Inr (emit sections l bytes, relocations @ new))
      | L_DIR d \<Rightarrow> asm_fail ZLASM_DIAGNOSTIC_INTERNAL_ERROR)"

definition object_image :: "assembler \<Rightarrow> zl_symbol list \<Rightarrow> zl_section list \<Rightarrow> zl_relocation list \<Rightarrow> zl_image" where
  "object_image c symbols sections relocations =
     \<lparr>img_kind = ZL_IMAGE_OBJECT, img_entry_point = 0, img_entry_symbol = map_option cstr (ac_entry c),
      img_sections = Some sections, img_section_count = length sections,
      img_symbols = (if symbols = [] then None else Some symbols), img_symbol_count = length symbols,
      img_relocations = (if relocations = [] then None else Some relocations),
      img_relocation_count = length relocations\<rparr>"

definition asm_translate_object :: "(nat \<Rightarrow> bool) \<Rightarrow> assembler \<Rightarrow> diagnostic + u8 list" where
  "asm_translate_object can_alloc c =
     sbind (object_symbols c) (\<lambda>symbols.
     sbind (try_fold (emit_line (ac_lines c) symbols)
              (map object_image_section (ac_sections c), []) (ac_lines c)) (\<lambda>(sections, relocations).
     (case zl_image_encode can_alloc (Some (object_image c symbols sections relocations)) of
        Inl _ \<Rightarrow> asm_fail ZLASM_DIAGNOSTIC_SECTION_ERROR
      | Inr bytes \<Rightarrow> Inr bytes)))"

end
