(* ===== verification/Lexer.thy ===== *)
theory Lexer
  imports Token
begin

text \<open>
  The lexer, \<^verbatim>\<open>asm/src/Lexer.c\<close>. The state is the structure of \<^verbatim>\<open>include/asm/Lexer.h\<close>; the source is
  the C string without its terminator, so reading at its end gives the terminator. Each loop over
  characters is \<open>lexer_while\<close>, which stops at the end of the source as the code's loops do, because
  none of their tests accepts the terminator.
\<close>

section \<open>State\<close>

record lexer =
  lx_source :: string
  lx_tokens :: "token list"
  lx_pos :: nat
  lx_line :: nat
  lx_col :: nat
  lx_source_pos :: nat
  lx_source_line :: nat
  lx_source_col :: nat

definition lexer_init :: "string \<Rightarrow> lexer" where
  "lexer_init source = \<lparr>lx_source = source, lx_tokens = [], lx_pos = 0, lx_line = 1, lx_col = 1,
     lx_source_pos = 0, lx_source_line = 1, lx_source_col = 1\<rparr>"

definition lexer_peekChar :: "lexer \<Rightarrow> char" where
  "lexer_peekChar st =
     (if lx_pos st < length (lx_source st) then lx_source st ! lx_pos st else CHR 0x00)"

text \<open>\<^verbatim>\<open>lexer_nextChar\<close>: the advanced state; the character it returns is the one to peek there.\<close>

definition lexer_nextChar :: "lexer \<Rightarrow> lexer" where
  "lexer_nextChar st =
     (if lx_pos st \<ge> length (lx_source st) then st
      else if lx_source st ! lx_pos st = CHR 0x0A
      then st\<lparr>lx_pos := lx_pos st + 1, lx_line := lx_line st + 1, lx_col := 1\<rparr>
      else st\<lparr>lx_pos := lx_pos st + 1, lx_col := lx_col st + 1\<rparr>)"

function lexer_while :: "(char \<Rightarrow> bool) \<Rightarrow> lexer \<Rightarrow> lexer" where
  "lexer_while P st =
     (if lx_pos st < length (lx_source st) \<and> P (lexer_peekChar st)
      then lexer_while P (lexer_nextChar st) else st)"
  by auto

termination
  by (relation "measure (\<lambda>(P, st). length (lx_source st) - lx_pos st)")
    (auto simp: lexer_nextChar_def)

declare lexer_while.simps [simp del]

section \<open>Character classes\<close>

definition is_eof :: "char \<Rightarrow> bool" where
  "is_eof c \<longleftrightarrow> c = CHR 0x00"

text \<open>\<^verbatim>\<open>isspace\<close> of the C locale.\<close>

definition is_space :: "char \<Rightarrow> bool" where
  "is_space c \<longleftrightarrow> c \<in> {CHR 0x20, CHR 0x09, CHR 0x0A, CHR 0x0B, CHR 0x0C, CHR 0x0D}"

definition is_ignored_char :: "char \<Rightarrow> bool" where
  "is_ignored_char c \<longleftrightarrow> (is_space c \<and> c \<noteq> CHR 0x0A) \<or> is_eof c"

definition is_digit :: "char \<Rightarrow> bool" where
  "is_digit c \<longleftrightarrow> (of_char CHR ''0'' :: nat) \<le> of_char c \<and> (of_char c :: nat) \<le> of_char CHR ''9''"

definition is_dec_char :: "char \<Rightarrow> bool" where
  "is_dec_char c \<longleftrightarrow> is_digit c \<or> c = CHR ''_''"

definition is_token_end :: "char \<Rightarrow> bool" where
  "is_token_end c \<longleftrightarrow> is_ignored_char c \<or> c = CHR 0x0A \<or> c = CHR '','' \<or> c = CHR '';''"

text \<open>The end of labels, registers, directives and identifiers; a comment mark does not end them.\<close>

definition is_word_char :: "char \<Rightarrow> bool" where
  "is_word_char c \<longleftrightarrow> \<not> is_ignored_char c \<and> c \<noteq> CHR 0x0A \<and> c \<noteq> CHR '',''"

definition tolower :: "char \<Rightarrow> char" where
  "tolower c = (if (of_char CHR ''A'' :: nat) \<le> of_char c \<and> (of_char c :: nat) \<le> of_char CHR ''Z''
     then char_of (of_char c + 32 :: nat) else c)"

definition is_digit_for_base :: "char \<Rightarrow> nat \<Rightarrow> bool" where
  "is_digit_for_base c base =
     (if is_digit c then of_char c - of_char CHR ''0'' < base
      else base = 16 \<and> (of_char CHR ''a'' :: nat) \<le> of_char (tolower c) \<and>
           (of_char (tolower c) :: nat) \<le> of_char CHR ''f'')"

section \<open>Scanning one token\<close>

text \<open>The characters between two positions of the source.\<close>

definition source_slice :: "string \<Rightarrow> nat \<Rightarrow> nat \<Rightarrow> string" where
  "source_slice s a b = take (b - a) (drop a s)"

text \<open>The token of a scan that started in the state \<open>start\<close> and ended in \<open>st\<close>.\<close>

definition make_token :: "lexer \<Rightarrow> lexer \<Rightarrow> token_type \<Rightarrow> string \<Rightarrow> token" where
  "make_token start st type value =
     \<lparr>tok_type = type, tok_value = value, tok_pos = lx_source_pos start + lx_pos start,
      tok_line = lx_source_line start + lx_line start - 1,
      tok_col = (if lx_line start = 1 then lx_source_col start + lx_col start - 1 else lx_col start),
      tok_source_size = lx_pos st - lx_pos start\<rparr>"

text \<open>The loop to a closing quote; the end of the source is the error, located where the token began.\<close>

definition lexer_quoted :: "lexer \<Rightarrow> char \<Rightarrow> lexer \<Rightarrow> diagnostic + lexer" where
  "lexer_quoted start quote st =
     (let e = lexer_while (\<lambda>c. c \<noteq> quote \<and> \<not> is_eof c) st
      in if is_eof (lexer_peekChar e)
         then asm_token_fail ZLASM_DIAGNOSTIC_UNTERMINATED_LITERAL
                (Some (make_token start e TOK_STRING_LITERAL []))
         else Inr e)"

text \<open>A scan yields the type, the positions of the value's first character and of its end, and the
  state after the token.\<close>

type_synonym scan = "token_type \<times> nat \<times> nat \<times> lexer"

text \<open>A mark followed by a name.\<close>

definition scan_name :: "token_type \<Rightarrow> lexer \<Rightarrow> scan" where
  "scan_name type start =
     (let first = lexer_nextChar start; e = lexer_while is_word_char first
      in (type, lx_pos first, lx_pos e, e))"

definition scan_comment :: "lexer \<Rightarrow> scan" where
  "scan_comment start =
     (let first = lexer_nextChar start;
          e = lexer_while (\<lambda>c. c \<noteq> CHR 0x0A \<and> \<not> is_eof c) first
      in (TOK_COMMENT, lx_pos first, lx_pos e, e))"

definition scan_literal :: "token_type \<Rightarrow> char \<Rightarrow> lexer \<Rightarrow> diagnostic + scan" where
  "scan_literal type quote start =
     (let first = lexer_nextChar start
      in sbind (lexer_quoted start quote first) (\<lambda>e.
           Inr (type, lx_pos first, lx_pos e, lexer_nextChar e)))"

definition scan_number :: "lexer \<Rightarrow> scan" where
  "scan_number start =
     (let prefix = (if lexer_peekChar start = CHR ''0''
                    then lexer_peekChar (lexer_nextChar start) else CHR 0x00)
      in if prefix \<in> {CHR ''x'', CHR ''X'', CHR ''o'', CHR ''O'', CHR ''b'', CHR ''B''}
         then let first = lexer_nextChar (lexer_nextChar start);
                  e = lexer_while (\<lambda>c. \<not> is_token_end c) first
              in (if prefix = CHR ''x'' \<or> prefix = CHR ''X'' then TOK_INT_HEX
                  else if prefix = CHR ''o'' \<or> prefix = CHR ''O'' then TOK_INT_OCT
                  else TOK_INT_BIN, lx_pos first, lx_pos e, e)
         else let e = lexer_while (\<lambda>c. \<not> is_token_end c) start
              in (TOK_INT_DEC, lx_pos start, lx_pos e, e))"

lemma lexer_nextChar_source [simp]: "lx_source (lexer_nextChar st) = lx_source st"
  by (simp add: lexer_nextChar_def)

lemma lexer_while_pos:
  "lx_source (lexer_while P st) = lx_source st \<and> lx_pos st \<le> lx_pos (lexer_while P st)"
proof (induction P st rule: lexer_while.induct)
  case (1 P st)
  then show ?case
    by (subst (1 2) lexer_while.simps) (auto simp: lexer_nextChar_def split: if_splits)
qed

lemma lexer_while_source [simp]: "lx_source (lexer_while P st) = lx_source st"
  by (simp add: lexer_while_pos)

lemma lexer_quoted_pos:
  "lexer_quoted start quote st = Inr e \<Longrightarrow> lx_source e = lx_source st \<and> lx_pos st \<le> lx_pos e"
  using lexer_while_pos by (auto simp: lexer_quoted_def Let_def split: if_splits)

text \<open>The loop of an identifier, where a quote starts a stretch that may hold any character.\<close>

function scan_word_loop :: "lexer \<Rightarrow> lexer \<Rightarrow> diagnostic + lexer" where
  "scan_word_loop start st =
     (let c = lexer_peekChar st in
      if lx_pos st < length (lx_source st) \<and> is_word_char c
      then if c = CHR 0x22 \<or> c = CHR 0x27
           then sbind (lexer_quoted start c (lexer_nextChar st)) (\<lambda>e.
                  scan_word_loop start (lexer_nextChar e))
           else scan_word_loop start (lexer_nextChar st)
      else Inr st)"
  by auto

termination
proof (relation "measure (\<lambda>(start, st). length (lx_source st) - lx_pos st)", goal_cases)
  case (2 start st c e)
  then have "lx_source e = lx_source st" "lx_pos (lexer_nextChar st) \<le> lx_pos e"
    using lexer_quoted_pos by fastforce+
  moreover have "lx_pos (lexer_nextChar st) = lx_pos st + 1"
    using 2(2) by (simp add: lexer_nextChar_def)
  ultimately show ?case using 2(2) by (auto simp: lexer_nextChar_def)
qed (auto simp: lexer_nextChar_def)

declare scan_word_loop.simps [simp del]

definition scan_word :: "lexer \<Rightarrow> diagnostic + scan" where
  "scan_word start =
     sbind (scan_word_loop start start) (\<lambda>e.
       Inr (if lx_source e ! (lx_pos e - 1) = CHR '':''
            then (TOK_LABEL_INIT, lx_pos start, lx_pos e - 1, e)
            else (TOK_ID, lx_pos start, lx_pos e, e)))"

text \<open>The switch on the first character.\<close>

definition lexer_scan :: "lexer \<Rightarrow> diagnostic + scan" where
  "lexer_scan st =
     (let c = lexer_peekChar st; next = lexer_nextChar st in
      if c = CHR 0x0A then Inr (TOK_NEWLINE, lx_pos st, lx_pos next, next)
      else if c = CHR '','' then Inr (TOK_COMMA, lx_pos st, lx_pos next, next)
      else if c = CHR '';'' then Inr (scan_comment st)
      else if c = CHR ''#'' then Inr (scan_name TOK_LABEL_USE st)
      else if c = CHR ''$'' then Inr (scan_name TOK_REGISTER st)
      else if c = CHR ''.'' then Inr (scan_name TOK_DIRECTIVE st)
      else if c = CHR 0x22 then scan_literal TOK_STRING_LITERAL c st
      else if c = CHR 0x27 then scan_literal TOK_CHAR_LITERAL c st
      else if is_dec_char c then Inr (scan_number st)
      else scan_word st)"

section \<open>Numbers\<close>

text \<open>Every character is a digit, or a delimiter between two digits.\<close>

definition validate_numeric_token :: "token \<Rightarrow> string \<Rightarrow> nat \<Rightarrow> diagnostic + unit" where
  "validate_numeric_token tok digits base =
     (let n = length digits;
          bad = (\<lambda>i. let delim = digits ! i = CHR ''_'' in
            (\<not> delim \<and> \<not> is_digit_for_base (digits ! i) base) \<or>
            (delim \<and> (i = 0 \<or> i + 1 = n \<or> \<not> is_digit_for_base (digits ! (i - 1)) base \<or>
                      \<not> is_digit_for_base (digits ! (i + 1)) base)))
      in if n = 0 \<or> list_ex bad [0..<n]
         then asm_token_fail ZLASM_DIAGNOSTIC_MALFORMED_NUMBER (Some tok) else Inr ())"

definition remove_digit_delimiters :: "string \<Rightarrow> string" where
  "remove_digit_delimiters s = filter (\<lambda>c. c \<noteq> CHR ''_'') s"

text \<open>The treatment of an integer token after the scan.\<close>

definition finish_token :: "token \<Rightarrow> diagnostic + token" where
  "finish_token tok =
     (case token_base (tok_type tok) of
        None \<Rightarrow> Inr tok
      | Some base \<Rightarrow>
          sbind (validate_numeric_token tok (tok_value tok) base) (\<lambda>_.
          let tok = tok\<lparr>tok_value := remove_digit_delimiters (tok_value tok)\<rparr>
          in sbind (token_get_int_value tok) (\<lambda>_. Inr tok)))"

section \<open>Reading tokens\<close>

text \<open>\<^verbatim>\<open>lexer_readToken\<close>: the state and the token, or \<^term>\<open>None\<close> at the end of the source.\<close>

definition lexer_readToken :: "lexer \<Rightarrow> diagnostic + lexer \<times> token option" where
  "lexer_readToken st =
     (let st = lexer_while is_ignored_char st in
      if is_eof (lexer_peekChar st) then Inr (st, None)
      else sbind (lexer_scan st) (\<lambda>(type, first, stop, e).
           sbind (finish_token (make_token st e type (source_slice (lx_source st) first stop))) (\<lambda>tok.
           Inr (e\<lparr>lx_tokens := lx_tokens e @ [tok]\<rparr>, Some tok))))"

section \<open>Progress\<close>

lemma lexer_nextChar_pos:
  "lx_pos (lexer_nextChar st) = (if lx_pos st < length (lx_source st) then lx_pos st + 1 else lx_pos st)"
  by (simp add: lexer_nextChar_def)

lemma lexer_nextChar_origin [simp]:
  "lx_source_pos (lexer_nextChar st) = lx_source_pos st" "lx_tokens (lexer_nextChar st) = lx_tokens st"
  "lx_source_line (lexer_nextChar st) = lx_source_line st"
  "lx_source_col (lexer_nextChar st) = lx_source_col st"
  by (simp_all add: lexer_nextChar_def)

text \<open>The loops keep what the scanner does not own and stay inside the source.\<close>

definition scans :: "lexer \<Rightarrow> lexer \<Rightarrow> bool" where
  "scans st e \<longleftrightarrow> lx_source e = lx_source st \<and> lx_tokens e = lx_tokens st \<and>
     lx_source_pos e = lx_source_pos st \<and> lx_source_line e = lx_source_line st \<and>
     lx_source_col e = lx_source_col st \<and> lx_pos st \<le> lx_pos e \<and>
     (\<exists>n. e = (lexer_nextChar ^^ n) st) \<and>
     (lx_pos st \<le> length (lx_source st) \<longrightarrow> lx_pos e \<le> length (lx_source st))"

lemma scans_refl [simp]: "scans st st"
  by (simp add: scans_def) (rule exI [of _ 0], simp)

lemma scans_trans [trans]: "scans a b \<Longrightarrow> scans b c \<Longrightarrow> scans a c"
  unfolding scans_def by (auto simp flip: funpow_add [THEN fun_cong, simplified])

lemma scans_next [simp]: "scans st (lexer_nextChar st)"
  by (simp add: scans_def lexer_nextChar_pos) (rule exI [of _ 1], simp)

lemma scans_while [simp]: "scans st (lexer_while P st)"
proof (induction P st rule: lexer_while.induct)
  case (1 P st)
  then show ?case
    using scans_trans [OF scans_next] by (subst lexer_while.simps) auto
qed

lemma lexer_while_stops:
  "lx_pos (lexer_while P st) < length (lx_source st) \<Longrightarrow> \<not> P (lexer_peekChar (lexer_while P st))"
proof (induction P st rule: lexer_while.induct)
  case (1 P st)
  then show ?case by (subst (asm) lexer_while.simps, subst lexer_while.simps) (auto split: if_splits)
qed

lemma scans_quoted: "lexer_quoted start quote st = Inr e \<Longrightarrow> scans st e"
  by (auto simp: lexer_quoted_def Let_def split: if_splits)

lemma scans_word_loop: "scan_word_loop start st = Inr e \<Longrightarrow> scans st e"
proof (induction start st arbitrary: e rule: scan_word_loop.induct)
  case (1 start st)
  let ?c = "lexer_peekChar st"
  show ?case
  proof (cases "lx_pos st < length (lx_source st) \<and> is_word_char ?c")
    case False
    then show ?thesis using "1.prems" by (subst (asm) scan_word_loop.simps) auto
  next
    case in_word: True
    show ?thesis
    proof (cases "?c = CHR 0x22 \<or> ?c = CHR 0x27")
      case True
      with in_word "1.prems" obtain q where q: "lexer_quoted start ?c (lexer_nextChar st) = Inr q"
        "scan_word_loop start (lexer_nextChar q) = Inr e"
        by (subst (asm) scan_word_loop.simps) (auto simp: sbind_Inr)
      have "scans (lexer_nextChar q) e" using "1.IH"(1) in_word True q by blast
      then show ?thesis
        using scans_quoted [OF q(1)] scans_next [of st] scans_next [of q] scans_trans by blast
    next
      case False
      with in_word "1.prems" have "scan_word_loop start (lexer_nextChar st) = Inr e"
        by (subst (asm) scan_word_loop.simps) auto
      then have "scans (lexer_nextChar st) e" using "1.IH"(2) in_word False by blast
      then show ?thesis using scans_next [of st] scans_trans by blast
    qed
  qed
qed

lemma scan_word_loop_step:
  assumes "scan_word_loop start st = Inr e" "lx_pos st < length (lx_source st)"
    "is_word_char (lexer_peekChar st)"
  obtains q where "scans (lexer_nextChar st) q" "scan_word_loop start q = Inr e"
proof (cases "lexer_peekChar st = CHR 0x22 \<or> lexer_peekChar st = CHR 0x27")
  case True
  with assms obtain q where q: "lexer_quoted start (lexer_peekChar st) (lexer_nextChar st) = Inr q"
    "scan_word_loop start (lexer_nextChar q) = Inr e"
    by (subst (asm) scan_word_loop.simps) (auto simp: sbind_Inr)
  then show thesis using that scans_quoted [OF q(1)] scans_next [of q] scans_trans by blast
next
  case False
  with assms have "scan_word_loop start (lexer_nextChar st) = Inr e"
    by (subst (asm) scan_word_loop.simps) auto
  then show thesis using that scans_refl by blast
qed

lemma scan_word_progress:
  assumes "scan_word_loop st st = Inr e" "lx_pos st < length (lx_source st)"
    "is_word_char (lexer_peekChar st)"
  shows "scans st e \<and> lx_pos st < lx_pos e"
proof -
  obtain q where q: "scans (lexer_nextChar st) q" "scan_word_loop st q = Inr e"
    using scan_word_loop_step [OF assms] by blast
  then show ?thesis
    using scans_word_loop [OF q(2)] scans_word_loop [OF assms(1)] assms(2)
    by (auto simp: scans_def lexer_nextChar_pos)
qed

text \<open>A scan moves past at least one character and its value lies inside it.\<close>

definition scan_ok :: "lexer \<Rightarrow> scan \<Rightarrow> bool" where
  "scan_ok st sc \<longleftrightarrow>
     (case sc of (ty, a, b, e) \<Rightarrow>
        scans st e \<and> lx_pos st < lx_pos e \<and> lx_pos st \<le> a \<and> a \<le> b \<and> b \<le> lx_pos e)"

lemma scans_pos: "scans a b \<Longrightarrow> lx_pos a \<le> lx_pos b"
  by (simp add: scans_def)

lemma lexer_next_less: "lx_pos st < length (lx_source st) \<Longrightarrow> lx_pos st < lx_pos (lexer_nextChar st)"
  by (simp add: lexer_nextChar_pos)

lemma scan_ok_name:
  "lx_pos st < length (lx_source st) \<Longrightarrow> scan_ok st (scan_name type st)"
  "lx_pos st < length (lx_source st) \<Longrightarrow> scan_ok st (scan_comment st)"
  using scans_trans [OF scans_next scans_while, of st] lexer_next_less [of st]
    scans_pos [OF scans_while, of "lexer_nextChar st"]
  by (auto simp: scan_ok_def scan_name_def scan_comment_def Let_def intro: less_le_trans less_imp_le)

lemma scan_ok_literal:
  assumes "scan_literal type quote st = Inr sc" "lx_pos st < length (lx_source st)"
  shows "scan_ok st sc"
proof -
  from assms(1) obtain e where e: "lexer_quoted st quote (lexer_nextChar st) = Inr e"
    "sc = (type, lx_pos (lexer_nextChar st), lx_pos e, lexer_nextChar e)"
    by (auto simp: scan_literal_def Let_def sbind_Inr)
  show ?thesis
    using scans_trans [OF scans_next scans_trans [OF scans_quoted [OF e(1)] scans_next]]
      scans_pos [OF scans_quoted [OF e(1)]] lexer_next_less [OF assms(2)] scans_pos [OF scans_next, of e]
    by (auto simp: scan_ok_def e(2))
qed

lemma is_dec_char_not_end: "is_dec_char c \<Longrightarrow> \<not> is_token_end c"
  by (auto simp: is_dec_char_def is_digit_def is_token_end_def is_ignored_char_def is_space_def
      is_eof_def)

lemma lexer_while_step:
  "lx_pos st < length (lx_source st) \<Longrightarrow> P (lexer_peekChar st) \<Longrightarrow>
     lexer_while P st = lexer_while P (lexer_nextChar st)"
  by (subst lexer_while.simps) simp

lemma scan_ok_number:
  assumes "lx_pos st < length (lx_source st)" "is_dec_char (lexer_peekChar st)"
  shows "scan_ok st (scan_number st)"
proof -
  let ?n = "lexer_nextChar st" and ?nn = "lexer_nextChar (lexer_nextChar st)"
  let ?P = "\<lambda>c. \<not> is_token_end c"
  have a: "scans st (lexer_while ?P ?nn)" "lx_pos st < lx_pos ?nn" "lx_pos ?nn \<le> lx_pos (lexer_while ?P ?nn)"
    using scans_trans [OF scans_next scans_trans [OF scans_next scans_while]]
      lexer_next_less [OF assms(1)] scans_pos [OF scans_next, of ?n] scans_pos [OF scans_while]
    by (auto intro: less_le_trans)
  have b: "lx_pos st < lx_pos (lexer_while ?P st)"
    using lexer_while_step [of st ?P, OF assms(1)] is_dec_char_not_end [OF assms(2)]
      lexer_next_less [OF assms(1)] scans_pos [OF scans_while, of ?n ?P]
    by simp
  show ?thesis
    using a b by (auto simp: scan_ok_def scan_number_def Let_def)
qed

lemma lexer_scan_ok:
  assumes "lexer_scan st = Inr sc" "lx_pos st < length (lx_source st)"
    "\<not> is_ignored_char (lexer_peekChar st)"
  shows "scan_ok st sc"
proof -
  let ?c = "lexer_peekChar st"
  have one: "scan_ok st (ty, lx_pos st, lx_pos (lexer_nextChar st), lexer_nextChar st)" for ty
    using lexer_next_less [OF assms(2)] by (simp add: scan_ok_def)
  have word: "scan_ok st sc" if w: "scan_word st = Inr sc" "is_word_char ?c"
  proof -
    from w(1) obtain e where e: "scan_word_loop st st = Inr e" "snd (snd (snd sc)) = e"
      "sc = (TOK_LABEL_INIT, lx_pos st, lx_pos e - 1, e) \<or> sc = (TOK_ID, lx_pos st, lx_pos e, e)"
      by (auto simp: scan_word_def sbind_Inr split: if_splits)
    then show ?thesis
      using scan_word_progress [OF e(1) assms(2) w(2)] by (auto simp: scan_ok_def)
  qed
  show ?thesis
    using assms(1,3) one word scan_ok_name [OF assms(2)] scan_ok_literal [OF _ assms(2)]
      scan_ok_number [OF assms(2)]
    by (auto simp: lexer_scan_def Let_def is_word_char_def split: if_splits)
qed

lemma eof_bound:
  "\<not> is_eof (lexer_peekChar st) \<Longrightarrow> lx_pos st < length (lx_source st)"
  by (auto simp: lexer_peekChar_def is_eof_def split: if_splits)

lemma blank_stop: "\<not> is_eof (lexer_peekChar (lexer_while is_ignored_char st)) \<Longrightarrow>
    \<not> is_ignored_char (lexer_peekChar (lexer_while is_ignored_char st))"
  using lexer_while_stops [of is_ignored_char st] eof_bound [of "lexer_while is_ignored_char st"] by simp

text \<open>What a successful read did: skip blanks, scan, finish.\<close>

lemma lexer_readToken_Some:
  assumes "lexer_readToken st = Inr (st', Some tok)"
  obtains s ty a b e where "s = lexer_while is_ignored_char st" "lexer_scan s = Inr (ty, a, b, e)"
    "scan_ok s (ty, a, b, e)" "lx_pos s < length (lx_source s)"
    "finish_token (make_token s e ty (source_slice (lx_source st) a b)) = Inr tok"
    "st' = e\<lparr>lx_tokens := lx_tokens st @ [tok]\<rparr>"
proof -
  let ?s = "lexer_while is_ignored_char st"
  from assms obtain ty a b e where h: "\<not> is_eof (lexer_peekChar ?s)" "lexer_scan ?s = Inr (ty, a, b, e)"
    "finish_token (make_token ?s e ty (source_slice (lx_source st) a b)) = Inr tok"
    "st' = e\<lparr>lx_tokens := lx_tokens e @ [tok]\<rparr>"
    by (auto simp: lexer_readToken_def Let_def sbind_Inr split: if_splits)
  have ok: "scan_ok ?s (ty, a, b, e)"
    using lexer_scan_ok [OF h(2) eof_bound [OF h(1)]] blank_stop [OF h(1)] by simp
  then have "lx_tokens e = lx_tokens st"
    using scans_while [of st is_ignored_char] by (simp add: scan_ok_def scans_def)
  with that [OF refl h(2) ok eof_bound [OF h(1)] h(3)] h(4) show thesis by simp
qed

lemma lexer_readToken_progress:
  "lexer_readToken st = Inr (st', Some tok) \<Longrightarrow>
     lx_source st' = lx_source st \<and> lx_pos st < lx_pos st' \<and> lx_pos st' \<le> length (lx_source st)"
  by (erule lexer_readToken_Some)
    (use scans_while [of st is_ignored_char] in \<open>auto simp: scan_ok_def scans_def\<close>)

text \<open>The loop of \<^verbatim>\<open>assemble_source\<close> that reads all tokens.\<close>

function lexer_readAll :: "lexer \<Rightarrow> diagnostic + lexer" where
  "lexer_readAll st =
     (case lexer_readToken st of
        Inl d \<Rightarrow> Inl d
      | Inr (st', None) \<Rightarrow> Inr st'
      | Inr (st', Some _) \<Rightarrow> lexer_readAll st')"
  by auto

termination
  by (relation "measure (\<lambda>st. length (lx_source st) - lx_pos st)")
    (auto dest: lexer_readToken_progress)

declare lexer_readAll.simps [simp del]

text \<open>The form that evaluates.\<close>

lemma lexer_readAll_code [code]:
  "lexer_readAll st = sbind (lexer_readToken st)
     (\<lambda>r. if snd r = None then Inr (fst r) else lexer_readAll (fst r))"
  by (subst lexer_readAll.simps) (auto split: sum.split option.split)

end
