(* ===== verification/Macros.thy ===== *)
theory Macros
  imports Lexer
begin

text \<open>
  Macro expansion, \<^verbatim>\<open>asm/src/Macros.c\<close>, between the lexer and the parser. A token list of the code, a
  chain ended by a null pointer, is a list; a position in it is the list of the tokens from there.
  Expansion recurses through the bodies of macros; the code bounds the depth by 64.
\<close>

section \<open>Macros\<close>

record macro =
  mac_name :: token
  mac_parameters :: "token list"
  mac_body :: "token list"

definition is_directive :: "token \<Rightarrow> string \<Rightarrow> bool" where
  "is_directive t name \<longleftrightarrow> tok_type t = TOK_DIRECTIVE \<and> tok_value t = name"

definition clone_token :: "token \<Rightarrow> token option \<Rightarrow> token" where
  "clone_token source location =
     (case location of None \<Rightarrow> source
      | Some l \<Rightarrow> source\<lparr>tok_pos := tok_pos l, tok_line := tok_line l, tok_col := tok_col l,
                        tok_source_size := tok_source_size l\<rparr>)"

definition find_macro :: "macro list \<Rightarrow> string \<Rightarrow> macro option" where
  "find_macro macros name = find (\<lambda>m. tok_value (mac_name m) = name) macros"

text \<open>The tokens of the rest of a line, and what \<^verbatim>\<open>line_end\<close> points to: the line's end, or nothing.\<close>

definition line_tokens :: "token list \<Rightarrow> token list" where
  "line_tokens ts = takeWhile (\<lambda>t. tok_type t \<noteq> TOK_NEWLINE) ts"

definition line_end :: "token list \<Rightarrow> token list" where
  "line_end ts = dropWhile (\<lambda>t. tok_type t \<noteq> TOK_NEWLINE) ts"

section \<open>Definitions\<close>

definition macro_fail :: "token \<Rightarrow> diagnostic + 'a" where
  "macro_fail t = asm_token_fail ZLASM_DIAGNOSTIC_MACRO_INVALID_ARGUMENT (Some t)"

definition add_parameter :: "token list \<Rightarrow> token \<Rightarrow> diagnostic + token list" where
  "add_parameter parameters parameter =
     (if tok_type parameter \<noteq> TOK_ID then macro_fail parameter
      else if list_ex (\<lambda>p. tok_value p = tok_value parameter) parameters then macro_fail parameter
      else Inr (parameters @ [parameter]))"

text \<open>The body: the tokens before the first \<^verbatim>\<open>.endmacro\<close>, and the tokens from it on.\<close>

definition capture_body :: "token \<Rightarrow> token list \<Rightarrow> diagnostic + token list \<times> token list" where
  "capture_body name ts =
     (let body = takeWhile (\<lambda>t. \<not> is_directive t ''endmacro'') ts;
          after = dropWhile (\<lambda>t. \<not> is_directive t ''endmacro'') ts
      in case find (\<lambda>t. is_directive t ''macro'') body of
           Some nested \<Rightarrow> macro_fail nested
         | None \<Rightarrow> if after = [] then macro_fail name else Inr (body, after))"

text \<open>\<open>rest\<close> are the tokens after the \<^verbatim>\<open>.macro\<close> directive; the result is the extended list of macros
  and the tokens after the definition.\<close>

definition capture_macro ::
  "macro list \<Rightarrow> token \<Rightarrow> token list \<Rightarrow> diagnostic + macro list \<times> token list" where
  "capture_macro macros definition_token rest =
     (case line_tokens rest of
        [] \<Rightarrow> macro_fail definition_token
      | name # args \<Rightarrow>
          if tok_type name \<noteq> TOK_ID then macro_fail definition_token
          else if find_macro macros (tok_value name) \<noteq> None
          then asm_token_fail ZLASM_DIAGNOSTIC_MACRO_DUPLICATE_DEFINITION (Some name)
          else sbind (try_fold add_parameter []
                 (filter (\<lambda>t. tok_type t \<noteq> TOK_COMMA) (takeWhile (\<lambda>t. tok_type t \<noteq> TOK_COMMENT) args)))
                 (\<lambda>parameters.
               sbind (capture_body name (tl (line_end rest))) (\<lambda>(body, after).
               case find (\<lambda>t. tok_type t \<noteq> TOK_COMMENT) (line_tokens (tl after)) of
                 Some t \<Rightarrow> macro_fail t
               | None \<Rightarrow> Inr (\<lparr>mac_name = name, mac_parameters = parameters, mac_body = body\<rparr> # macros,
                              tl (line_end (tl after))))))"

lemma length_line_end: "length (line_end ts) \<le> length ts"
  by (simp add: line_end_def length_dropWhile_le)

lemma length_tl_line_end: "length (tl (line_end ts)) \<le> length ts"
  using length_line_end [of ts] by simp

lemma capture_body_length:
  "capture_body name ts = Inr (body, after) \<Longrightarrow> length after \<le> length ts"
  by (auto simp: capture_body_def Let_def macro_fail_def length_dropWhile_le
      split: option.splits if_splits)

lemma capture_macro_length:
  assumes "capture_macro macros t rest = Inr (macros', after)"
  shows "length after \<le> length rest"
proof -
  from assms obtain name body mid where "capture_body name (tl (line_end rest)) = Inr (body, mid)"
    "after = tl (line_end (tl mid))"
    by (auto simp: capture_macro_def sbind_Inr macro_fail_def split: list.splits if_splits option.splits)
  then show ?thesis
    using capture_body_length [of name "tl (line_end rest)" body mid] length_tl_line_end [of rest]
      length_tl_line_end [of "tl mid"]
    by simp
qed

function capture_macros :: "macro list \<Rightarrow> token list \<Rightarrow> diagnostic + macro list" where
  "capture_macros macros [] = Inr macros"
| "capture_macros macros (t # ts) =
     (if is_directive t ''macro''
      then (case capture_macro macros t ts of
              Inl d \<Rightarrow> Inl d | Inr (macros, after) \<Rightarrow> capture_macros macros after)
      else if is_directive t ''endmacro'' then macro_fail t
      else capture_macros macros ts)"
  by pat_completeness auto

termination
  by (relation "measure (\<lambda>(macros, ts). length ts)") (auto dest: capture_macro_length)

text \<open>The tokens after the definition that starts here.\<close>

definition skip_macro_definition :: "token list \<Rightarrow> token list" where
  "skip_macro_definition ts = tl (line_end (dropWhile (\<lambda>t. \<not> is_directive t ''endmacro'') ts))"

section \<open>Arguments\<close>

text \<open>The index of a parameter, or the number of parameters.\<close>

definition parameter_index :: "macro \<Rightarrow> string \<Rightarrow> nat" where
  "parameter_index m name = length (takeWhile (\<lambda>p. tok_value p \<noteq> name) (mac_parameters m))"

text \<open>\<open>after\<close> is the text after the equals sign; it is lexed where the invocation stands.\<close>

definition named_argument_value :: "string \<Rightarrow> token \<Rightarrow> diagnostic + token" where
  "named_argument_value after invocation =
     (let lexer = (lexer_init after)\<lparr>lx_source_pos := tok_pos invocation,
            lx_source_line := tok_line invocation, lx_source_col := tok_col invocation\<rparr>
      in sbind (lexer_readToken lexer) (\<lambda>(lexer, value).
         case value of None \<Rightarrow> macro_fail invocation
         | Some value \<Rightarrow> sbind (lexer_readToken lexer) (\<lambda>(_, more).
             if more \<noteq> None then macro_fail invocation
             else Inr (clone_token value (Some invocation)))))"

text \<open>The loop over the arguments of an invocation: the values set so far, the index of the next
  positional argument and whether a named one was seen.\<close>

fun read_arguments_loop ::
  "macro \<Rightarrow> token \<Rightarrow> token option list \<Rightarrow> nat \<Rightarrow> bool \<Rightarrow> token list \<Rightarrow> diagnostic + token option list" where
  "read_arguments_loop m invocation arguments positional_index has_named [] = Inr arguments"
| "read_arguments_loop m invocation arguments positional_index has_named (argument # rest) =
     (if tok_type argument = TOK_COMMENT then Inr arguments
      else if tok_type argument = TOK_COMMA
      then read_arguments_loop m invocation arguments positional_index has_named rest
      else if tok_type argument = TOK_ID \<and> CHR ''='' \<in> set (tok_value argument)
      then let name = takeWhile (\<lambda>c. c \<noteq> CHR ''='') (tok_value argument);
               after = tl (dropWhile (\<lambda>c. c \<noteq> CHR ''='') (tok_value argument));
               index = parameter_index m name
           in if name = [] \<or> after = [] then macro_fail invocation
              else if index = length (mac_parameters m) \<or> arguments ! index \<noteq> None
              then macro_fail invocation
              else (case named_argument_value after invocation of
                      Inl d \<Rightarrow> Inl d
                    | Inr value \<Rightarrow> read_arguments_loop m invocation (arguments[index := Some value])
                                    positional_index True rest)
      else if has_named \<or> positional_index = length (mac_parameters m) then macro_fail invocation
      else read_arguments_loop m invocation (arguments[positional_index := Some argument])
             (positional_index + 1) has_named rest)"

definition read_arguments :: "macro \<Rightarrow> token list \<Rightarrow> token \<Rightarrow> diagnostic + token list" where
  "read_arguments m args invocation =
     sbind (read_arguments_loop m invocation (replicate (length (mac_parameters m)) None) 0 False args)
       (\<lambda>arguments. if list_ex (\<lambda>a. a = None) arguments then macro_fail invocation
                    else Inr (map the arguments))"

section \<open>Expansion\<close>

text \<open>Macros are told apart by their names, which are unique, where the code compares pointers.\<close>

definition is_expanding :: "macro \<Rightarrow> macro list \<Rightarrow> bool" where
  "is_expanding m stack \<longleftrightarrow> list_ex (\<lambda>s. tok_value (mac_name s) = tok_value (mac_name m)) stack"

text \<open>The body with its parameters replaced.\<close>

definition expand_body :: "macro \<Rightarrow> token list \<Rightarrow> token \<Rightarrow> token list" where
  "expand_body m values invocation =
     map (\<lambda>t. let index = (if tok_type t \<in> {TOK_ID, TOK_LABEL_USE, TOK_LABEL_INIT}
                           then parameter_index m (tok_value t) else length (mac_parameters m));
                  expanded = clone_token (if index = length (mac_parameters m) then t
                                          else values ! index) (Some invocation)
              in if index \<noteq> length (mac_parameters m) \<and> tok_type t = TOK_LABEL_INIT
                 then expanded\<lparr>tok_type := TOK_LABEL_INIT\<rparr> else expanded)
       (mac_body m)"

text \<open>\<^verbatim>\<open>expand_macro\<close> up to the recursive call: the checks and the replaced body. The stack never
  holds more than 64 macros.\<close>

definition enter_macro :: "macro \<Rightarrow> token list \<Rightarrow> macro list \<Rightarrow> token \<Rightarrow> diagnostic + token list" where
  "enter_macro m args stack invocation =
     (if is_expanding m stack then asm_token_fail ZLASM_DIAGNOSTIC_MACRO_RECURSION (Some invocation)
      else if length stack \<ge> 64
      then asm_token_fail ZLASM_DIAGNOSTIC_MACRO_RECURSION (Some invocation)
      else sbind (read_arguments m args invocation) (\<lambda>values.
           Inr (expand_body m values invocation)))"

text \<open>The macro a token at the start of a line invokes: \<^term>\<open>None\<close> for an ordinary token.\<close>

definition invoked_name :: "token \<Rightarrow> string" where
  "invoked_name t =
     (case tok_value t of c # name \<Rightarrow> if c = CHR ''@'' then name else tok_value t | [] \<Rightarrow> [])"

definition invokes :: "macro list \<Rightarrow> bool \<Rightarrow> token \<Rightarrow> bool" where
  "invokes macros is_line_start t \<longleftrightarrow> is_line_start \<and> tok_type t = TOK_ID \<and>
     (find_macro macros (invoked_name t) \<noteq> None \<or>
      (case tok_value t of c # _ \<Rightarrow> c = CHR ''@'' | [] \<Rightarrow> False))"

lemma skip_macro_definition_length:
  "is_directive t ''macro'' \<Longrightarrow> length (skip_macro_definition (t # ts)) \<le> length ts"
proof -
  assume "is_directive t ''macro''"
  then have "dropWhile (\<lambda>t. \<not> is_directive t ''endmacro'') (t # ts) =
      dropWhile (\<lambda>t. \<not> is_directive t ''endmacro'') ts" by (simp add: is_directive_def)
  then show ?thesis
    using length_tl_line_end [of "dropWhile (\<lambda>t. \<not> is_directive t ''endmacro'') ts"]
      length_dropWhile_le [of "\<lambda>t. \<not> is_directive t ''endmacro''" ts]
    by (simp add: skip_macro_definition_def)
qed

lemma enter_macro_depth: "enter_macro m args stack t = Inr body \<Longrightarrow> length stack < 64"
  by (auto simp: enter_macro_def split: if_splits)

function expand_range ::
  "macro list \<Rightarrow> macro list \<Rightarrow> token option \<Rightarrow> bool \<Rightarrow> token list \<Rightarrow> diagnostic + token list" where
  "expand_range macros stack location is_line_start [] = Inr []"
| "expand_range macros stack location is_line_start (t # ts) =
     (if is_directive t ''macro''
      then expand_range macros stack location True (skip_macro_definition (t # ts))
      else if invokes macros is_line_start t
      then (case find_macro macros (invoked_name t) of
              None \<Rightarrow> asm_token_fail ZLASM_DIAGNOSTIC_MACRO_UNDEFINED (Some t)
            | Some m \<Rightarrow>
                sbind (enter_macro m (line_tokens ts) stack t) (\<lambda>body.
                sbind (expand_range macros (stack @ [m]) (Some t) True body) (\<lambda>expanded.
                sbind (expand_range macros stack location True (tl (line_end ts))) (\<lambda>rest.
                Inr (expanded @ rest)))))
      else sbind (expand_range macros stack location
                    (tok_type t = TOK_NEWLINE \<or> (is_line_start \<and> tok_type t = TOK_LABEL_INIT)) ts)
             (\<lambda>rest. Inr (clone_token t location # rest)))"
  by pat_completeness auto

termination
proof (relation "measures [\<lambda>(macros, stack, location, s, ts). 64 - length stack,
    \<lambda>(macros, stack, location, s, ts). length ts]", goal_cases)
  case (2 macros stack location s t ts)
  then show ?case using skip_macro_definition_length by (auto simp: less_Suc_eq_le)
next
  case (3 macros stack location s t ts m body)
  then show ?case using enter_macro_depth [of m "line_tokens ts" stack t body] by auto
next
  case (4 macros stack location s t ts m body expanded)
  then show ?case using length_tl_line_end [of ts] by (auto simp: less_Suc_eq_le)
qed auto

declare expand_range.simps(2) [simp del]

definition macros_expand :: "token list \<Rightarrow> diagnostic + token list" where
  "macros_expand tokens =
     (if tokens = [] then Inr []
      else sbind (capture_macros [] tokens) (\<lambda>macros. expand_range macros [] None True tokens))"

end
