(* ===== verification/Zlasm.thy ===== *)
theory Zlasm
  imports Object Macros
begin

text \<open>
  The entry points of the assembler, \<^verbatim>\<open>asm/src/zlasm.c\<close>: lexing, macro expansion, parsing, the
  directives, the labels and the translation, ended by the first failure.
\<close>

section \<open>Assembling\<close>

text \<open>The result has either a binary or a diagnostic other than \<^verbatim>\<open>ZLASM_DIAGNOSTIC_NONE\<close>.\<close>

record zlasm_result =
  res_binary :: "u8 list option"
  res_diagnostic :: diagnostic

text \<open>The calls between \<^verbatim>\<open>setjmp\<close> and the release of the memory.\<close>

definition assemble_phases :: "(nat \<Rightarrow> bool) \<Rightarrow> bool \<Rightarrow> string \<Rightarrow> diagnostic + u8 list" where
  "assemble_phases can_alloc object source =
     sbind (lexer_readAll (lexer_init source)) (\<lambda>lexer.
     sbind (macros_expand (lx_tokens lexer)) (\<lambda>tokens.
     sbind (parser_parse tokens) (\<lambda>lines.
     sbind (asm_processDirectives can_alloc lines) (\<lambda>assembler.
     sbind (asm_processLabels assembler) (\<lambda>assembler.
     if object then asm_translate_object can_alloc assembler else asm_translate assembler)))))"

text \<open>A null source is refused. The file name of the diagnostic is left out.\<close>

definition assemble_source :: "(nat \<Rightarrow> bool) \<Rightarrow> string option \<Rightarrow> bool \<Rightarrow> zlasm_result" where
  "assemble_source can_alloc source object =
     (case source of
        None \<Rightarrow> \<lparr>res_binary = None, res_diagnostic = (ZLASM_DIAGNOSTIC_INVALID_ARGUMENT, None)\<rparr>
      | Some text \<Rightarrow>
          (case assemble_phases can_alloc object text of
             Inl d \<Rightarrow> \<lparr>res_binary = None, res_diagnostic = d\<rparr>
           | Inr bytes \<Rightarrow> \<lparr>res_binary = Some bytes,
                            res_diagnostic = (ZLASM_DIAGNOSTIC_NONE, None)\<rparr>))"

definition zlasm_assemble :: "(nat \<Rightarrow> bool) \<Rightarrow> string option \<Rightarrow> zlasm_result" where
  "zlasm_assemble can_alloc source = assemble_source can_alloc source False"

definition zlasm_assemble_object :: "(nat \<Rightarrow> bool) \<Rightarrow> string option \<Rightarrow> zlasm_result" where
  "zlasm_assemble_object can_alloc source = assemble_source can_alloc source True"

definition zlasm_result_free :: "zlasm_result \<Rightarrow> zlasm_result" where
  "zlasm_result_free r = \<lparr>res_binary = None, res_diagnostic = (ZLASM_DIAGNOSTIC_NONE, None)\<rparr>"

text \<open>The wrapper returns the binary, or a null pointer.\<close>

definition assemblySource :: "(nat \<Rightarrow> bool) \<Rightarrow> string option \<Rightarrow> u8 list option" where
  "assemblySource can_alloc source = res_binary (zlasm_assemble can_alloc source)"

end
