(* ===== verification/Commands.thy ===== *)
theory Commands
  imports Zlasm Loader
begin

text \<open>
  The three programs: the assembler \<^verbatim>\<open>asm/main.c\<close>, the linker \<^verbatim>\<open>linker/main.c\<close> and the emulator
  \<^verbatim>\<open>emulator/main.c\<close>. Each is a function of the command line and the files to the exit status and the
  files, or for the emulator the bytes on the standard output. What is written to the standard error
  is left out.
\<close>

section \<open>Files\<close>

type_synonym files = "string \<rightharpoonup> u8 list"

text \<open>What the host may refuse: opening a file that exists, reading it, closing it, creating a file, and
  the number of bytes a file takes.\<close>

record io =
  io_can_open :: "string \<Rightarrow> bool"
  io_read_error :: "string \<Rightarrow> bool"
  io_close_error :: "string \<Rightarrow> bool"
  io_can_create :: "string \<Rightarrow> bool"
  io_takes :: "string \<Rightarrow> nat"

definition fopen_rb :: "io \<Rightarrow> files \<Rightarrow> string \<Rightarrow> u8 list option" where
  "fopen_rb io files path = (if io_can_open io path then files path else None)"

text \<open>The exit status and the files after \<^verbatim>\<open>fopen\<close>, \<^verbatim>\<open>fwrite\<close> and \<^verbatim>\<open>fclose\<close> of an output file.\<close>

definition write_binary :: "io \<Rightarrow> files \<Rightarrow> string \<Rightarrow> u8 list \<Rightarrow> nat \<times> files" where
  "write_binary io files path data =
     (if \<not> io_can_create io path then (1, files)
      else let written = take (io_takes io path) data; files = files(path \<mapsto> written)
           in if length written \<noteq> length data then (1, files)
              else if io_close_error io path then (1, files) else (0, files))"

section \<open>Reading a source\<close>

text \<open>The loop of \<^verbatim>\<open>read_source\<close>: the buffer has room for \<open>capacity\<close> characters and grows by 1024 until
  a read is short.\<close>

function read_chunks :: "(nat \<Rightarrow> bool) \<Rightarrow> nat \<Rightarrow> u8 list \<Rightarrow> u8 list \<Rightarrow> u8 list option" where
  "read_chunks can_alloc capacity source rest =
     (let available = capacity - length source; chunk = take available rest
      in if length chunk < available then Some (source @ chunk)
         else if \<not> can_alloc (capacity + 1024 + 1) then None
         else read_chunks can_alloc (capacity + 1024) (source @ chunk) (drop available rest))"
  by auto

termination
  by (relation "measures [\<lambda>(can_alloc, capacity, source, rest). length rest,
    \<lambda>(can_alloc, capacity, source, rest). length source + 1 - capacity]") auto

declare read_chunks.simps [simp del]

text \<open>The source up to its first null character.\<close>

definition source_text :: "u8 list \<Rightarrow> string" where
  "source_text bytes = map (\<lambda>b. char_of (unat b)) (takeWhile (\<lambda>b. b \<noteq> 0) bytes)"

text \<open>\<^term>\<open>None\<close> is the exit with a failure.\<close>

definition read_text :: "(nat \<Rightarrow> bool) \<Rightarrow> io \<Rightarrow> files \<Rightarrow> string \<Rightarrow> string option" where
  "read_text can_alloc io files path =
     (if \<not> can_alloc (1024 + 1) then None
      else case fopen_rb io files path of
        None \<Rightarrow> None
      | Some content \<Rightarrow>
          (case read_chunks can_alloc 1024 [] content of
             None \<Rightarrow> None
           | Some bytes \<Rightarrow> if io_read_error io path \<or> io_close_error io path then None
                           else Some (source_text bytes)))"

section \<open>The assembler\<close>

text \<open>\<^verbatim>\<open>strrchr\<close> as an index.\<close>

definition last_index :: "char \<Rightarrow> string \<Rightarrow> nat option" where
  "last_index c s =
     (if c \<in> set s then Some (length s - 1 - length (takeWhile (\<lambda>d. d \<noteq> c) (rev s))) else None)"

definition derive_output_path :: "(nat \<Rightarrow> bool) \<Rightarrow> string \<Rightarrow> bool \<Rightarrow> string option" where
  "derive_output_path can_alloc input_path object =
     (let stem_length = (case last_index CHR ''.'' input_path of
            None \<Rightarrow> length input_path
          | Some dot \<Rightarrow>
              (case last_index CHR ''/'' input_path of
                 None \<Rightarrow> dot
               | Some separator \<Rightarrow> if dot > separator then dot else length input_path));
          extension = (if object then ''.zlo'' else ''.bin'')
      in if \<not> can_alloc (stem_length + length extension + 1) then None
         else Some (take stem_length input_path @ extension))"

definition zlasm_main :: "(nat \<Rightarrow> bool) \<Rightarrow> io \<Rightarrow> files \<Rightarrow> string list \<Rightarrow> nat \<times> files" where
  "zlasm_main can_alloc io files argv =
     (let argc = length argv;
          object = (argc > 1 \<and> argv ! 1 = ''-c'');
          input_index = (if object then 2 else 1)
      in if argc \<noteq> input_index + 1 \<and> argc \<noteq> input_index + 3 then (1, files)
         else if argc = input_index + 3 \<and> argv ! (input_index + 1) \<noteq> ''-o'' then (1, files)
         else case (if argc = input_index + 3 then Some (argv ! (input_index + 2))
                    else derive_output_path can_alloc (argv ! input_index) object) of
           None \<Rightarrow> (1, files)
         | Some output_path \<Rightarrow>
             (case read_text can_alloc io files (argv ! input_index) of
                None \<Rightarrow> (1, files)
              | Some source \<Rightarrow>
                  let result = (if object then zlasm_assemble_object can_alloc (Some source)
                                else zlasm_assemble can_alloc (Some source))
                  in if fst (res_diagnostic result) \<noteq> ZLASM_DIAGNOSTIC_NONE then (1, files)
                     else write_binary io files output_path
                            (case res_binary result of None \<Rightarrow> [] | Some bytes \<Rightarrow> bytes)))"

section \<open>The linker\<close>

definition read_file :: "(nat \<Rightarrow> bool) \<Rightarrow> io \<Rightarrow> files \<Rightarrow> string \<Rightarrow> u8 list option" where
  "read_file can_alloc io files path =
     (case fopen_rb io files path of
        None \<Rightarrow> None
      | Some content \<Rightarrow> if \<not> can_alloc (length content) \<or> (content \<noteq> [] \<and> io_read_error io path)
                         then None else Some content)"

fun read_files :: "(nat \<Rightarrow> bool) \<Rightarrow> io \<Rightarrow> files \<Rightarrow> string list \<Rightarrow> u8 list list option" where
  "read_files can_alloc io files [] = Some []"
| "read_files can_alloc io files (path # paths) =
     (case read_file can_alloc io files path of
        None \<Rightarrow> None
      | Some content \<Rightarrow> map_option (\<lambda>contents. content # contents) (read_files can_alloc io files paths))"

definition zllink_main :: "(nat \<Rightarrow> bool) \<Rightarrow> io \<Rightarrow> files \<Rightarrow> string list \<Rightarrow> nat \<times> files" where
  "zllink_main can_alloc io files argv =
     (let argc = length argv
      in if argc < 4 \<or> argv ! 1 \<noteq> ''-o'' then (1, files)
         else let output_path = argv ! 2;
                  (entry, first_object) = (if 3 + 1 < argc \<and> argv ! 3 = ''--entry''
                    then (Some (argv ! 4), 5) else (None, 3))
              in if first_object = argc then (1, files)
                 else let count = argc - first_object
                 in if \<not> can_alloc (count * 16) \<or> \<not> can_alloc (count * 8) then (1, files)
                 else case read_files can_alloc io files (drop first_object argv) of
                   None \<Rightarrow> (1, files)
                 | Some contents \<Rightarrow>
                     (case zl_link_objects can_alloc (Some (map (\<lambda>c. (Some c, length c)) contents))
                        (map_option cstr entry) of
                        Inl e \<Rightarrow> (1, files)
                      | Inr out \<Rightarrow> write_binary io files output_path out))"

section \<open>The emulator\<close>

fun decimal :: "nat \<Rightarrow> string" where
  "decimal n = (if n < 10 then [char_of (48 + n)] else decimal (n div 10) @ [char_of (48 + n mod 10)])"

declare decimal.simps [simp del]

definition text_line_bytes :: "string \<Rightarrow> u8 list" where
  "text_line_bytes s = map char_byte (s @ [CHR 0x0A])"

definition rule_text :: string where
  "rule_text = replicate 42 CHR ''=''"

definition banner :: "u8 list" where
  "banner = concat (map text_line_bytes
     [''Encoded instruction size: '' @ decimal ZLVM_INSTRUCTION_SIZE @ '' bytes'',
      ''Operations count: '' @ decimal OPCODE_TOTAL,
      ''Size of machine word: '' @ decimal (unat ZLVM_WORD_SIZE) @ '' bytes'',
      ''ROM size: '' @ decimal ZLVM_ROM_SIZE @ '' bytes'',
      ''RAM size: '' @ decimal 4096 @ '' bytes'',
      ''Stack size: '' @ decimal (unat ZLVM_STACK_SIZE) @ '' bytes'', rule_text])"

fun state_text :: "state \<Rightarrow> string" where
  "state_text S_NORMAL = ''Normal''"
| "state_text S_ERR_OUT_OF_MEMORY = ''Error: Out of memory''"
| "state_text S_ERR_STACK_OVERFLOW = ''Error: Stack overflow''"
| "state_text S_ERR_STACK_UNDERFLOW = ''Error: Stack underflow''"
| "state_text S_ERR_DIVISION_BY_ZERO = ''Error: Division by zero''"
| "state_text S_ERR_INVALID_CONDITION = ''Error: Invalid condition''"
| "state_text S_ERR_INVALID_OPCODE = ''Error: Invalid opcode''"
| "state_text S_HALTED = ''Halted''"
| "state_text _ = ''Unknown error''"

definition result_text :: "state \<Rightarrow> u8 list" where
  "result_text st = concat (map text_line_bytes
     [rule_text, ''Result code: '' @ decimal (state_code st), state_text st])"

text \<open>At most one byte more than the ROM holds is read.\<close>

definition read_binary :: "(nat \<Rightarrow> bool) \<Rightarrow> io \<Rightarrow> files \<Rightarrow> string \<Rightarrow> u8 list option" where
  "read_binary can_alloc io files path =
     (case fopen_rb io files path of
        None \<Rightarrow> None
      | Some content \<Rightarrow>
          let image = take (ZLVM_ROM_SIZE + 1) content
          in if \<not> can_alloc (ZLVM_ROM_SIZE + 1) then None
             else if io_read_error io path \<or> io_close_error io path then None
             else if image = [] then None
             else if length image > ZLVM_ROM_SIZE then None else Some image)"

definition read_program :: "(nat \<Rightarrow> bool) \<Rightarrow> io \<Rightarrow> files \<Rightarrow> string \<Rightarrow> u8 list option" where
  "read_program can_alloc io files path =
     (case read_text can_alloc io files path of
        None \<Rightarrow> None
      | Some source \<Rightarrow>
          let result = zlasm_assemble can_alloc (Some source)
          in if fst (res_diagnostic result) \<noteq> ZLASM_DIAGNOSTIC_NONE then None
             else Some (case res_binary result of None \<Rightarrow> [] | Some bytes \<Rightarrow> bytes))"

text \<open>The storage \<^verbatim>\<open>vm\<close> before its initialisation, with the host streams.\<close>

definition zero_vm :: "u8 list \<Rightarrow> u8 list \<Rightarrow> vm" where
  "zero_vm inp out =
     \<lparr>vm_cpsr = cpsr_zero,
      vm_alu = \<lparr>alu_left = 0, alu_right = 0, alu_res = 0, alu_op = OP_NOOP, alu_fl = no_flags\<rparr>,
      vm_registers = replicate ZLVM_REGISTER_COUNT 0, vm_rom = replicate ZLVM_ROM_SIZE 0,
      vm_memory = [], vm_memorySize = 0, vm_entryPoint = 0, vm_stdin = inp, vm_stdout = out\<rparr>"

text \<open>\<^term>\<open>None\<close> when the machine runs forever; otherwise the exit status and the standard output.\<close>

definition emulator_main ::
  "(nat \<Rightarrow> bool) \<Rightarrow> io \<Rightarrow> files \<Rightarrow> u8 list \<Rightarrow> string list \<Rightarrow> (nat \<times> u8 list) option" where
  "emulator_main can_alloc io files inp argv =
     (let argc = length argv;
          is_binary_mode = (argc = 3 \<and> argv ! 1 = ''--binary'');
          is_source_mode = (argc = 2 \<and> argv ! 1 \<noteq> ''--binary'')
      in if \<not> is_source_mode \<and> \<not> is_binary_mode then Some (1, banner)
         else case (if is_binary_mode then read_binary can_alloc io files (argv ! 2)
                    else read_program can_alloc io files (argv ! 1)) of
           None \<Rightarrow> Some (1, banner)
         | Some binary \<Rightarrow>
             (case vm_initialize can_alloc (zero_vm inp banner) 4096 of
                None \<Rightarrow> Some (1, banner)
              | Some vm \<Rightarrow> map_option (\<lambda>(st, vm). (state_code st, vm_stdout vm @ result_text st))
                            (vm_run (vm_loadDump vm binary (length binary)))))"

end
