(* ===== verification/Samples.thy ===== *)
theory Samples
  imports Run
begin

text \<open>
  A small concrete machine with a few instructions, and the application of the processor's
  properties to it: every hypothesis of those properties holds there.
\<close>

section \<open>A sample machine\<close>

definition sample_vm :: vm where
  "sample_vm = (fresh_vm [7] [] 64)
     \<lparr>vm_registers := (replicate 32 0)[6 := 65, 10 := 5, 11 := 3, 29 := 4096, 30 := 4096]\<rparr>"

text \<open>An unconditional instruction on the registers \<open>$t0\<close> and \<open>$t1\<close>, which hold 5 and 3.\<close>

definition sample_ins :: "opcode \<Rightarrow> u32 \<Rightarrow> instruction" where
  "sample_ins op imm = \<lparr>ins_opcode = opcode_code op, ins_condition = 0, register1 = 10,
     register2 = 11, immediate = imm\<rparr>"

lemma sample_vm_fields [simp]:
  "vm_registers sample_vm = (replicate 32 0)[6 := 65, 10 := 5, 11 := 3, 29 := 4096, 30 := 4096]"
  "vm_memorySize sample_vm = 64" "vm_stdin sample_vm = [7]" "vm_stdout sample_vm = []"
  "memory_end sample_vm = 4160" "in_range sample_vm a n \<longleftrightarrow> a + n \<le> 4160"
  "vm_get_state sample_vm = S_NORMAL" "vm_has_no_error sample_vm" "vm_entryPoint sample_vm = 0"
  by (simp_all add: sample_vm_def fresh_vm_def memory_end_def in_range_def vm_sizes limits
      vm_get_state_def vm_has_no_error_def is_error_iff)

lemma sample_continues: "vm_continues sample_vm"
  by (simp add: vm_continues_def vm_has_state_def) (simp add: sample_vm_def fresh_vm_def)

lemma wf_sample_vm [simp]: "wf_vm sample_vm"
  by (simp add: sample_vm_def wf_vm_def fresh_vm_def vm_sizes)

lemma sample_registers [simp]:
  "register_index R_ZERO = 0" "register_index R_V0 = 2" "register_index R_A0 = 6"
  "register_index R_T0 = 10" "register_index R_T1 = 11" "register_index R_LP = 28"
  "register_index R_SP = 29" "register_index R_BP = 30" "register_index R_PC = 31"
  by (simp_all add: register_index_def registers_list_def)

lemma sample_mem_byte: "a < 4160 \<Longrightarrow> mem_byte sample_vm a = 0"
  by (simp add: mem_byte_def sample_vm_def fresh_vm_def vm_sizes)

lemma executes_sample [simp]: "executes vm (sample_ins op imm) op"
  by (simp add: executes_def sample_ins_def vm_check_condition_def condition_of_def conditions_def
      condition_holds_def opcode_of_code C_TOTAL_def vm_sizes)

lemma sample_ins_fields [simp]:
  "register1 (sample_ins op imm) = 10" "register2 (sample_ins op imm) = 11"
  "immediate (sample_ins op imm) = imm" "ins_condition (sample_ins op imm) = 0"
  by (simp_all add: sample_ins_def)

lemma stack_inv_sample [simp]: "stack_inv sample_vm"
  "stack_words sample_vm = []" "stack_room sample_vm = 16"
  by (simp_all add: stack_inv_def stack_used_def stack_words_def stack_room_def limits)

section \<open>Witnesses\<close>

theorem alu_signed_overflow_exact_witness:
  "flag_V (alu_fl (alu_compute \<lparr>alu_left = 0x7FFFFFFF, alu_right = 1, alu_res = 0,
     alu_op = OP_SADD, alu_fl = no_flags\<rparr>))"
  using alu_signed_overflow_exact [of "\<lparr>alu_left = 0x7FFFFFFF, alu_right = 1, alu_res = 0,
     alu_op = OP_SADD, alu_fl = no_flags\<rparr>"]
  by (simp add: signed_ops_def alu_eval)

theorem alu_carry_exact_witness:
  "flag_C (alu_fl (alu_compute \<lparr>alu_left = 0xFFFFFFFF, alu_right = 1, alu_res = 0,
     alu_op = OP_ADD, alu_fl = no_flags\<rparr>))"
  using alu_carry_exact [of "\<lparr>alu_left = 0xFFFFFFFF, alu_right = 1, alu_res = 0,
     alu_op = OP_ADD, alu_fl = no_flags\<rparr>"]
  by (simp add: unsigned_ops_def alu_eval)

theorem instruction_decode_encode_witness:
  "instruction_encode (Some (replicate 8 1)) 8
     (instruction_decode (Some zero_instruction) (Some [7, 1, 10, 11, 120, 86, 52, 18]) 8) =
   Some [7, 1, 10, 11, 120, 86, 52, 18]"
  using instruction_decode_encode [of "[7, 1, 10, 11, 120, 86, 52, 18]" zero_instruction
      "the (instruction_decode (Some zero_instruction) (Some [7, 1, 10, 11, 120, 86, 52, 18]) 8)"
      "replicate 8 1"]
  by (simp add: instruction_decode_def ZLVM_INSTRUCTION_SIZE_def OPCODE_TOTAL_def C_TOTAL_def)

theorem vm_write_scalar_read_witness:
  "vm_read_scalar (vm_write_scalar sample_vm 4096 0x1FFFFFFFF 4) 4096 4 =
    (vm_write_scalar sample_vm 4096 0x1FFFFFFFF 4, 0xFFFFFFFF)"
  using vm_write_scalar_read [of sample_vm 4096 4 4104 4 "0x1FFFFFFFF"] by simp

theorem vm_access_out_of_range_witness:
  "vm_write_scalar sample_vm 4157 1 4 = vm_set_state S_ERR_OUT_OF_MEMORY sample_vm"
  using vm_access_out_of_range [of sample_vm 4157 4 1] by simp

theorem vm_stack_lifo_witness:
  "\<exists>t vm'. push_all vm_push_word [1, 2, 3] sample_vm = Some t \<and>
    pop_many vm_pop_word (length [1, 2, 3 :: u32]) t = Some (vm', rev [1, 2, 3]) \<and> stack_inv vm' \<and>
    stack_words vm' = stack_words sample_vm \<and> stack_room vm' = stack_room sample_vm"
  by (rule vm_stack_lifo) simp_all

theorem vm_stack_failure_witness:
  "fst (vm_pop_word sample_vm) = vm_set_state S_ERR_STACK_UNDERFLOW sample_vm \<or>
   fst (vm_pop_word sample_vm) = vm_set_state S_ERR_OUT_OF_MEMORY sample_vm"
  using vm_stack_failure [of sample_vm 0] vms.pop_empty [of sample_vm] by simp

theorem vm_run_instruction_keeps_witness:
  "wf_vm (vm_run_instruction sample_vm (sample_ins DIVI 0)) \<and>
   reg (vm_run_instruction sample_vm (sample_ins DIVI 0)) R_ZERO = 0"
  using vm_run_instruction_keeps [of sample_vm "sample_ins DIVI 0"] by simp

theorem vm_condition_skips_witness:
  "vm_run_instruction sample_vm (sample_ins JMP 8\<lparr>ins_condition := 1\<rparr>) = set_reg R_ZERO 0 sample_vm"
proof -
  have "\<not> cpsr_Z (vm_cpsr sample_vm)" by (simp add: sample_vm_def fresh_vm_def cpsr_zero_def)
  then show ?thesis
    by (intro vm_condition_skips [of _ C_ZERO_SET])
      (simp_all add: condition_of_def conditions_def C_TOTAL_def vm_check_condition_def condition_holds_def)
qed

theorem vm_arithmetic_instruction_witness:
  "vm_registers (vm_run_instruction sample_vm (sample_ins SUBR 0)) ! 10 = 2 \<and>
   vm_get_state (vm_run_instruction sample_vm (sample_ins DIVI 0)) = S_ERR_DIVISION_BY_ZERO \<and>
   vm_registers (vm_run_instruction sample_vm (sample_ins DIVI 0)) ! 10 = 5"
proof -
  have "(SUBR, OP_SUB, Reg2, True) \<in> set arithmetic_table" "(DIVI, OP_DIV, Imm, True) \<in> set arithmetic_table"
    by (simp_all add: arithmetic_table_def)
  from this [THEN vm_arithmetic_instruction, OF executes_sample sample_vm_fields(8) refl refl] show ?thesis
    by (simp add: is_division_def vm_get_state_def)
qed

theorem vm_compare_unsigned_witness:
  "condition_holds (vm_cpsr (vm_run_instruction sample_vm (sample_ins CMPR 0))) C_UNSIGNED_HIGHER"
proof -
  have t: "(CMPR, OP_SUB, Reg2, False) \<in> set arithmetic_table"
    by (simp add: arithmetic_table_def)
  have n: "5 = vm_registers (set_reg R_ZERO 0 sample_vm) ! unat (register1 (sample_ins CMPR 0))"
    "3 = operand_value (set_reg R_ZERO 0 sample_vm) (sample_ins CMPR 0) Reg2"
    by simp_all
  show ?thesis
    using vm_compare_unsigned [OF t executes_sample sample_vm_fields(8) n refl] by simp
qed

theorem vm_compare_signed_witness:
  "\<not> condition_holds (vm_cpsr (vm_run_instruction sample_vm (sample_ins CMPSI 0xFFFFFFFF))) C_LESS"
proof -
  have t: "(CMPSI, OP_SSUB, Imm, False) \<in> set arithmetic_table"
    by (simp add: arithmetic_table_def)
  have n: "5 = vm_registers (set_reg R_ZERO 0 sample_vm) !
        unat (register1 (sample_ins CMPSI 0xFFFFFFFF))"
    "0xFFFFFFFF = operand_value (set_reg R_ZERO 0 sample_vm) (sample_ins CMPSI 0xFFFFFFFF) Imm"
    by simp_all
  show ?thesis
    using vm_compare_signed [OF t executes_sample sample_vm_fields(8) n refl] by simp
qed


theorem vm_load_instruction_witness:
  "vm_get_state (vm_run_instruction sample_vm (sample_ins LOADH 4156)) = S_ERR_OUT_OF_MEMORY \<and>
   vm_get_state (vm_run_instruction sample_vm (sample_ins LOADB 4156)) = S_NORMAL"
proof -
  have t: "(LOADH, 2, NOT 0xFFFF) \<in> set load_table" "(LOADB, 1, NOT 0xFF) \<in> set load_table"
    by (simp_all add: load_table_def)
  show ?thesis
    using vm_load_instruction [OF t(1) executes_sample sample_vm_fields(8) refl, of 4156]
      vm_load_instruction [OF t(2) executes_sample sample_vm_fields(8) refl, of 4156]
    by (simp add: effective_def)
qed

theorem vm_store_instruction_witness:
  "mem_byte (vm_run_instruction sample_vm (sample_ins STOREW 4097)) 4100 = 5"
proof -
  have t: "(STOREW, 4) \<in> set store_table" by (simp add: store_table_def)
  have r: "in_range sample_vm 4100 1" by simp
  have b: "le_byte (5 :: u32) 0 = 5" by (simp add: le_byte_def)
  show ?thesis
    using vm_store_instruction [OF t executes_sample sample_vm_fields(8) wf_sample_vm refl r, of 4097] b
    by (simp add: effective_def)
qed

text \<open>The sample with the word 3 pushed.\<close>

lemma sample_pushed:
  obtains vm where "stack_inv vm" "stack_words vm = [3]" "0 < stack_room vm"
  using vms.push_room [of sample_vm 3] by auto

theorem vm_dup_instruction_witness:
  "\<exists>vm. stack_words vm = [3] \<and> stack_words (vm_run_instruction vm (sample_ins DUP 0)) = [3, 3]"
proof -
  obtain vm where vm: "stack_inv vm" "stack_words vm = [] @ [3]" "0 < stack_room vm"
    using sample_pushed by auto
  show ?thesis using vm_dup_instruction [OF executes_sample vm] vm(2) by auto
qed

theorem vm_push_pop_instructions_witness:
  "vm_registers (vm_run_instruction (vm_run_instruction sample_vm (sample_ins PUSHR 0))
     (sample_ins POPR 0\<lparr>register1 := 11\<rparr>)) ! 11 = 5"
proof -
  let ?pop = "sample_ins POPR 0\<lparr>register1 := 11\<rparr>"
  have e: "executes vm ?pop POPR" for vm
    using executes_sample [of vm POPR 0] by (simp add: executes_def vm_sizes)
  have d: "unat (register1 ?pop) = register_index R_T1" "R_T1 \<notin> {R_SP, R_BP, R_ZERO}" by simp_all
  have v: "5 = vm_registers (set_reg R_ZERO 0 sample_vm) ! unat (register1 (sample_ins PUSHR 0))" by simp
  show ?thesis
    using vm_push_pop_instructions [OF executes_sample stack_inv_sample(1) _ refl e d v] by simp
qed

theorem vm_call_return_witness:
  "reg (vm_run_instruction (vm_run_instruction sample_vm (sample_ins JMPAL 64)) (sample_ins RET 0)) R_PC = 0"
proof -
  let ?vm1 = "vm_run_instruction sample_vm (sample_ins JMPAL 64)"
  have "wf_vm ?vm1"
    using keeps_run_instruction [OF keeps_refl, of sample_vm] by (simp add: keeps_def)
  then show ?thesis
    using vm_call_return [OF executes_sample wf_sample_vm refl executes_sample _ refl] by simp
qed

theorem vm_interrupt_services_witness:
  "vm_stdout (vm_run_instruction sample_vm (sample_ins INT' 2)) = [65] \<and>
   reg (vm_run_instruction sample_vm (sample_ins INT' 16)) R_V0 = 7 \<and>
   vm_get_state (vm_run_instruction sample_vm (sample_ins INT' 255)) = S_HALTED"
proof -
  have i: "INT' = INT' \<or> INT' = SYSCALL" by simp
  have c: "imm = (if INT' = INT' then immediate (sample_ins INT' imm) else 0)" for imm by simp
  note w = vm_interrupt_services [OF executes_sample i wf_sample_vm refl sample_vm_fields(8) c]
  show ?thesis using w [of 2] w [of 16] w [of 255] by simp
qed

theorem vm_refuses_instruction_witness:
  "vm_get_state (vm_run_instruction sample_vm (sample_ins NOP 0\<lparr>register2 := 32\<rparr>)) =
     S_ERR_INVALID_OPCODE"
  using vm_refuses_instruction [of sample_vm "sample_ins NOP 0\<lparr>register2 := 32\<rparr>"]
  by (simp add: vm_check_condition_def condition_of_def conditions_def condition_holds_def C_TOTAL_def
      vm_sizes)

theorem vm_run_invariant_witness:
  "wf_vm (vm_step (vm_start sample_vm)) \<and> reg (vm_step (vm_start sample_vm)) R_ZERO = 0"
proof -
  have "vm_turn (vm_start sample_vm) (vm_step (vm_start sample_vm))"
    using sample_vm_fields(7,8)
    by (simp add: vm_turn_step vm_continues_def vm_has_no_error_def vm_has_state_def vm_get_state_def)
  then have "vm_reaches (vm_start sample_vm) (vm_step (vm_start sample_vm))"
    using reach_turn reach_refl by blast
  then show ?thesis using vm_run_invariant [of sample_vm] by simp
qed

theorem vm_zero_memory_stops_witness:
  "\<exists>s vm'. vm_run (sample_vm\<lparr>vm_entryPoint := 4101\<rparr>) = Some (s, vm') \<and> s = S_ERR_OUT_OF_MEMORY \<and>
     unat (reg vm' R_PC) = 4157"
proof -
  let ?vm = "sample_vm\<lparr>vm_entryPoint := 4101\<rparr>"
  have "wf_vm ?vm" using wf_sample_vm by (simp add: wf_vm_def)
  moreover have e: "memory_end ?vm = 4160" "vm_get_state ?vm = S_NORMAL"
    using sample_vm_fields(5,7) by (simp_all add: vm_get_state_def memory_end_def del: sample_vm_fields)
  moreover have "mem_byte ?vm a = 0" if "in_range ?vm a 1" for a
  proof -
    have "mem_byte ?vm a = mem_byte sample_vm a" by (simp add: mem_byte_def)
    then show ?thesis using that e(1) sample_mem_byte [of a] by (simp add: in_range_def)
  qed
  ultimately show ?thesis
    using vm_zero_memory_stops [of ?vm] by (force simp: limits is_error_iff)
qed

theorem vm_start_stack_witness: "stack_room (vm_start sample_vm) = 16"
  using vm_start_stack [of sample_vm] by (simp add: limits)

text \<open>The sample with a halting instruction in its RAM and \<open>$pc\<close> there.\<close>

definition halting_code :: "u8 list" where
  "halting_code = the (instruction_encode (Some (replicate 8 0)) 8 (Some (sample_ins INT' 255)))"

lemma halting_code_eq: "halting_code = [18, 0, 10, 11, 255, 0, 0, 0]"
  by code_simp

lemma halting_code_encoded:
  "instruction_encode (Some (replicate 8 0)) 8 (Some (sample_ins INT' 255)) = Some halting_code"
  unfolding halting_code_eq by code_simp

theorem vm_step_encoded_witness:
  "\<exists>vm. reg vm R_PC = 4096 \<and> vm_step vm =
     vm_run_instruction (set_reg R_PC 4104 vm) (sample_ins INT' 255)"
proof -
  let ?vm = "set_reg R_PC 4096 (sample_vm\<lparr>vm_memory := halting_code @ replicate 56 0\<rparr>)"
  have wf: "wf_vm ?vm"
    using wf_sample_vm by (simp add: wf_vm_def halting_code_eq)
  have pc: "reg ?vm R_PC = 4096" by simp
  have "bytes_at ?vm (reg ?vm R_PC) 8 = halting_code"
    unfolding pc by (simp add: bytes_at_def mem_byte_def upt_rec vm_sizes halting_code_eq)
  then have "vm_step ?vm = vm_run_instruction (set_reg R_PC (reg ?vm R_PC + 8) ?vm) (sample_ins INT' 255)"
    using wf halting_code_encoded sample_vm_fields(8)
    by (intro vm_step_encoded [of "replicate 8 0" 8])
      (simp_all add: vm_has_no_error_def in_range_def memory_end_def vm_sizes limits)
  then show ?thesis using pc by (intro exI [of _ ?vm]) simp
qed

end
