(* ===== verification/Image_Samples.thy ===== *)
theory Image_Samples
  imports Linker Samples
begin

text \<open>
  A small executable image and the application of the image, loader and run-loop properties to it.
\<close>

section \<open>A sample executable\<close>

text \<open>One text section of eight bytes, \<open>INT 0xFF\<close> as the encoder writes it, at address 8.\<close>

definition sample_section :: zl_section where
  "sample_section = \<lparr>sec_name = Some [46, 116], sec_type = ZL_IMAGE_SECTION_TEXT, sec_flags = 0,
     sec_alignment = 4, sec_address = 8, sec_data = Some (program_code (print_program [])),
     sec_data_size = 8\<rparr>"

definition sample_executable :: zl_image where
  "sample_executable = executable_image 8 [\<lparr>ls_image = sample_section, ls_object = 0, ls_source = 0\<rparr>]"

lemma sample_executable_fields [simp]:
  "img_kind sample_executable = ZL_IMAGE_EXECUTABLE" "img_entry_point sample_executable = 8"
  "img_entry_symbol sample_executable = None"
  "image_sections sample_executable = [sample_section]" "img_section_count sample_executable = 1"
  "image_symbols sample_executable = []" "img_symbol_count sample_executable = 0"
  "image_relocations sample_executable = []" "img_relocation_count sample_executable = 0"
  "null_arrays sample_executable \<longleftrightarrow> False"
  by (simp_all add: sample_executable_def executable_image_def zero_image_def c_array_def null_arrays_def)

lemma section_ok_sample: "section_ok sample_section" "section_mem_ok sample_section"
  by (simp_all add: section_ok_def section_mem_ok_def sample_section_def valid_alignment_def
      image_consts c_string_ok_def c_name_def length_program_code limits)

lemma c_array_short [simp]: "c_array None n = []" "c_array (Some [x]) (Suc 0) = [x]"
  by (simp_all add: c_array_def)

lemma sample_arrays [simp]:
  "img_sections sample_executable = Some [sample_section]" "img_symbols sample_executable = None"
  "img_relocations sample_executable = None"
  by (simp_all add: sample_executable_def executable_image_def zero_image_def)

lemma valid_sample_executable: "image_mem_ok sample_executable" "valid_image sample_executable"
  using section_ok_sample
  by (simp_all add: image_mem_ok_def valid_image_def image_consts c_string_ok_def c_name_def
      c_array_def entry_found_def) (simp_all add: sample_section_def image_consts)

lemma length_sample_layout: "length (image_layout sample_executable) = 92"
proof -
  have "arrays_ok sample_executable" by (simp add: arrays_ok_def c_array_def)
  moreover have "length (string_table sample_executable) = 4"
    by (simp add: string_table_def entry_name_def section_names_def symbol_names_def name_bytes_def
        sample_section_def c_name_def image_consts)
  moreover have "length (payloads [sample_section]) = 8"
    by (simp add: payloads_def section_payload_def sample_section_def image_consts c_array_def
        length_program_code)
  ultimately show ?thesis by (simp add: length_image_layout)
qed

lemma encode_sample: "zl_image_encode (\<lambda>n. True) (Some sample_executable) = Inr (image_layout sample_executable)"
  by (simp add: zl_image_encode_Inr valid_sample_executable length_sample_layout limits)

lemma decode_sample: "zl_image_decode (\<lambda>n. True) (Some (image_layout sample_executable))
    (length (image_layout sample_executable)) = Inr (normal_image sample_executable)"
  using zl_image_decode_layout [of sample_executable "\<lambda>n. True"]
  by (simp add: valid_sample_executable length_sample_layout limits)

lemma normal_sample: "img_kind (normal_image sample_executable) = ZL_IMAGE_EXECUTABLE"
  "img_entry_point (normal_image sample_executable) = 8"
  "image_sections (normal_image sample_executable) = [sample_section]"
  by (simp_all add: normal_image_def normal_section_def c_array_def)
    (simp add: sample_section_def c_name_def image_consts length_program_code)

section \<open>Witnesses\<close>

theorem zl_image_encode_iff_witness:
  "zl_image_encode (\<lambda>n. n < 100) (Some sample_executable) = Inr (image_layout sample_executable)"
  using zl_image_encode_iff [of sample_executable "\<lambda>n. n < 100" "image_layout sample_executable"]
  by (simp add: valid_sample_executable length_sample_layout limits)

theorem zl_image_roundtrip_witness:
  "zl_image_decode (\<lambda>n. True) (Some (image_layout sample_executable)) 92 =
     Inr (normal_image sample_executable)"
  using zl_image_roundtrip [OF valid_sample_executable(1) encode_sample, of "\<lambda>n. True"]
  by (simp add: length_sample_layout)

theorem zl_image_decode_accepts_valid_witness:
  "valid_image (normal_image sample_executable) \<and> image_mem_ok (normal_image sample_executable)"
  using zl_image_decode_accepts_valid [OF decode_sample] by simp

theorem valid_alignment_iff_witness: "valid_alignment 4"
proof -
  have "(2::nat) < 32 \<and> (4::u32) = 2 ^ 2" by simp
  then show ?thesis using valid_alignment_iff [of 4] by blast
qed

lemma load_sample:
  "vm_loadImage (\<lambda>n. True) (Some sample_vm) (Some (image_layout sample_executable)) 92 =
     (Some (sample_vm\<lparr>vm_rom := load_section (vm_rom sample_vm) sample_section, vm_entryPoint := 8\<rparr>),
      ZL_IMAGE_ERROR_NONE)"
proof -
  have "\<not> outside_rom sample_section"
    by (simp add: outside_rom_def sample_section_def vm_sizes)
  then show ?thesis
    using decode_sample by (simp add: length_sample_layout vm_loadImage_def normal_sample)
qed

theorem vm_loadImage_all_or_nothing_witness:
  "img_entry_point (normal_image sample_executable) \<noteq> 0 \<and>
   covers sample_section (unat (img_entry_point (normal_image sample_executable)))"
  using vm_loadImage_all_or_nothing [OF _ load_sample] decode_sample
  by (auto simp: length_sample_layout normal_sample)

theorem vm_loadImage_contents_witness:
  "load_section (vm_rom sample_vm) sample_section ! 100 = vm_rom sample_vm ! 100 \<and>
   load_section (vm_rom sample_vm) sample_section ! 9 = section_bytes sample_section ! 1"
  using vm_loadImage_contents [OF _ decode_sample [unfolded length_sample_layout] wf_sample_vm load_sample, of 100]
    vm_loadImage_contents [OF _ decode_sample [unfolded length_sample_layout] wf_sample_vm load_sample,
      of 9 "[]" sample_section "[]"]
  by (simp add: length_sample_layout normal_sample vm_sizes covers_def) (simp add: sample_section_def)

theorem vm_run_iff_reaches_witness:
  "\<exists>vm'. cycle\<^sup>*\<^sup>* (run_start (vm_loadDump sample_vm (program_code (print_program [72, 105])) 40)) vm' \<and>
     vm_get_state vm' = S_HALTED \<and> vm_stdout vm' = [72, 105]"
proof -
  let ?vm = "vm_loadDump sample_vm (program_code (print_program [72, 105])) 40"
  have "\<exists>vm'. vm_run ?vm = Some (S_HALTED, vm') \<and> vm_stdout vm' = [72, 105]"
    using run_prints_bytes [of sample_vm "[72, 105]", OF _ sample_continues _ _ refl]
    by (simp add: limits length_program_code)
  moreover have "wf_vm ?vm"
    using wf_sample_vm by (simp add: vm_loadDump_def wf_vm_def bytes_write_eq length_program_code vm_sizes)
  ultimately show ?thesis using vm_run_iff_reaches [of ?vm S_HALTED] by metis
qed

theorem vm_loadDump_outcome_witness:
  "vm_rom (vm_loadDump sample_vm [1, 2, 3] 2) = [1, 2] @ drop 2 (vm_rom sample_vm)"
  using vm_loadDump_outcome [of sample_vm 2 "[1, 2, 3]"] by (simp add: vm_sizes)

theorem vm_prints_bytes_witness:
  "\<exists>vm'. vm_run (vm_loadDump sample_vm (program_code (print_program [72, 105])) 40) = Some (S_HALTED, vm') \<and>
     vm_stdout vm' = [72, 105]"
  using vm_prints_bytes [of sample_vm "[72, 105]", OF _ sample_continues _ _ refl]
  by (simp add: limits length_program_code)

end
