(* ===== verification/Link_Layout.thy ===== *)
theory Link_Layout
  imports Linker
begin

unbundle bit_operations_syntax

text \<open>
  The layout phase of the linker against its specification: the address of every section as a function
  of where the previous one ended, and success exactly when the sections lie in the ROM and apart.
\<close>

section \<open>Alignment\<close>

lemma and_not_mask: "w AND NOT (mask k) = push_bit k (drop_bit k w)" for w :: u64
  by (rule bit_eqI) (auto simp: bit_simps)

lemma unat_and_not_mask: "unat (w AND NOT (mask k)) = unat w div 2 ^ k * 2 ^ k" for w :: u64
proof -
  have w: "unat w < 2 ^ 64" using unsigned_less [of w] by simp
  have "unat w div 2 ^ k * 2 ^ k \<le> unat w" by simp
  also note w
  finally have "unat w div 2 ^ k * 2 ^ k < 2 ^ 64" .
  then show ?thesis
    using w unfolding and_not_mask unsigned_push_bit_eq unsigned_drop_bit_eq
    by (simp add: push_bit_eq_mult drop_bit_eq_div take_bit_eq_mod)
qed

text \<open>The least multiple of \<open>a\<close> that is at least \<open>v\<close>.\<close>

definition round_up :: "nat \<Rightarrow> nat \<Rightarrow> nat" where
  "round_up v a = (v + a - 1) div a * a"

lemma round_up_least:
  assumes "0 < a"
  shows "v \<le> round_up v a" "a dvd round_up v a" "a dvd m \<Longrightarrow> v \<le> m \<Longrightarrow> round_up v a \<le> m"
proof -
  have "v + a - 1 - (v + a - 1) mod a \<ge> v" using mod_less_divisor [OF assms, of "v + a - 1"] by linarith
  then show "v \<le> round_up v a" by (simp add: round_up_def minus_mod_eq_div_mult)
  show "a dvd round_up v a" by (simp add: round_up_def)
  assume "a dvd m" "v \<le> m"
  then obtain j where j: "m = j * a" by (metis dvd_def mult.commute)
  then have "v + a - 1 < Suc j * a" using \<open>v \<le> m\<close> assms by simp
  then have "(v + a - 1) div a < Suc j" by (simp only: div_less_iff_less_mult [OF assms])
  then show "round_up v a \<le> m" using j by (simp add: round_up_def)
qed

lemma align_address_round_up:
  fixes v a :: u32
  assumes "valid_alignment a"
  shows "align_address (ucast v) a =
    (if round_up (unat v) (unat a) \<le> WORD_MAX then Some (of_nat (round_up (unat v) (unat a))) else None)"
proof -
  obtain k where k: "unat a = 2 ^ k" using assms valid_alignment_power by auto
  have pos: "0 < unat a" using k by simp
  let ?v = "ucast v :: u64" and ?a = "ucast a :: u64"
  have u: "unat ?v = unat v" "unat ?a = unat a"
    using less_trans [OF unat_u32_less [of v], of "2 ^ 64"] less_trans [OF unat_u32_less [of a], of "2 ^ 64"]
    by (simp_all add: unsigned_ucast_eq take_bit_nat_eq_self_iff)
  have small: "unat v < 2 ^ 32" "unat a < 2 ^ 32" by simp_all
  have sum: "unat (?v + ?a - 1) = unat v + unat a - 1"
  proof -
    have "?v + ?a - 1 = of_nat (unat v + unat a - 1)"
      using pos by (simp add: of_nat_diff flip: u)
    moreover have "unat v + unat a - 1 < 2 ^ 64"
      using add_strict_mono [OF unat_u32_less [of v] unat_u32_less [of a]] by simp
    ultimately show ?thesis by (simp add: unat_of_nat u del: of_nat_diff)
  qed
  have mask: "?a - 1 = mask k"
  proof -
    have "?a = of_nat (unat a)" by (simp flip: u)
    then show ?thesis by (simp add: k mask_eq_exp_minus_1)
  qed
  have al: "unat ((?v + ?a - 1) AND NOT (?a - 1)) = round_up (unat v) (unat a)"
    unfolding mask unat_and_not_mask sum by (simp add: round_up_def k)
  have first: "\<not> ?v > - 1 - ?a + 1"
  proof -
    have "- 1 - ?a + 1 = - ?a" by simp
    moreover have "- ?a = of_nat (2 ^ 64 - unat a)"
    proof -
      have "unat a \<le> 2 ^ 64" by (rule order.trans [OF less_imp_le [OF unat_u32_less]]) simp
      then show ?thesis by (simp add: of_nat_diff flip: u)
    qed
    moreover have "2 ^ 64 - unat a < 2 ^ 64" "unat v \<le> 2 ^ 64 - unat a"
      using pos unat_u32_less [of v] unat_u32_less [of a] by (simp_all del: unat_u32_less)
    ultimately show ?thesis
      by (simp add: word_less_nat_alt unat_of_nat u not_less del: of_nat_diff)
  qed
  have mx: "unat (ucast (- 1 :: u32) :: u64) = WORD_MAX"
    by (simp add: limits unsigned_ucast_eq unsigned_minus_1_eq_mask mask_eq_exp_minus_1 take_bit_nat_eq_self_iff)
  have r: "(ucast w :: u32) = of_nat (unat w)" for w :: u64 by simp
  show ?thesis
    unfolding align_address_def Let_def r word_less_nat_alt [of "ucast (- 1 :: u32)"] mx al using first
    by simp
qed

section \<open>Layout\<close>

text \<open>Where a section goes when the previous one ended at \<open>c\<close>: sections without an address of their
  own are packed, aligned; the others keep theirs.\<close>

definition auto_placed :: "link_section \<Rightarrow> bool" where
  "auto_placed s \<longleftrightarrow> sec_address (ls_image s) = 0 \<and> sec_flags (ls_image s) AND 1 = 0"

abbreviation section_size :: "link_section \<Rightarrow> nat" where
  "section_size s \<equiv> sec_data_size (ls_image s)"

definition place_at :: "nat \<Rightarrow> link_section \<Rightarrow> nat" where
  "place_at c s = (if auto_placed s then round_up c (unat (sec_alignment (ls_image s)))
                   else unat (sec_address (ls_image s)))"

fun place_all :: "nat \<Rightarrow> link_section list \<Rightarrow> (link_section \<times> nat) list" where
  "place_all c [] = []"
| "place_all c (s # ss) = (s, place_at c s) # place_all (place_at c s + section_size s) ss"

definition moved :: "link_section \<times> nat \<Rightarrow> link_section" where
  "moved p = (fst p)\<lparr>ls_image := (ls_image (fst p))\<lparr>sec_address := of_nat (snd p)\<rparr>\<rparr>"

definition apart :: "link_section \<times> nat \<Rightarrow> link_section \<times> nat \<Rightarrow> bool" where
  "apart p q \<longleftrightarrow> snd p + section_size (fst p) \<le> snd q \<or> snd q + section_size (fst q) \<le> snd p"

definition in_rom :: "link_section \<times> nat \<Rightarrow> bool" where
  "in_rom p \<longleftrightarrow> snd p + section_size (fst p) \<le> ZLVM_ROM_SIZE"

definition layout_ok :: "(link_section \<times> nat) list \<Rightarrow> bool" where
  "layout_ok ps \<longleftrightarrow> (\<forall>p \<in> set ps. in_rom p) \<and> sorted_wrt apart ps"

lemma moved_fields [simp]:
  "ls_object (moved p) = ls_object (fst p)" "ls_source (moved p) = ls_source (fst p)"
  "sec_data_size (ls_image (moved p)) = section_size (fst p)"
  "sec_data (ls_image (moved p)) = sec_data (ls_image (fst p))"
  "sec_address (ls_image (moved p)) = of_nat (snd p)"
  by (simp_all add: moved_def)

lemma in_rom_address: "in_rom p \<Longrightarrow> unat (of_nat (snd p) :: u32) = snd p"
  by (simp add: in_rom_def vm_sizes unat_of_nat_u32 limits)

lemma overlaps_moved:
  assumes "\<forall>q \<in> set qs. in_rom q" "in_rom (s, a)"
  shows "overlaps (map moved qs) (of_nat a) (section_size s) \<longleftrightarrow> \<not> (\<forall>q \<in> set qs. apart q (s, a))"
  using assms in_rom_address [of "(s, a)"]
  by (auto simp: overlaps_def list_ex_iff apart_def in_rom_address not_le)

lemma layout_section_step:
  assumes "\<forall>q \<in> set qs. in_rom q" "c \<le> ZLVM_ROM_SIZE" "valid_alignment (sec_alignment (ls_image s))"
  defines "p \<equiv> (s, place_at c s)"
  shows "layout_section (map moved qs, of_nat c) s = Inr st \<longleftrightarrow>
    in_rom p \<and> (\<forall>q \<in> set qs. apart q p) \<and>
    st = (map moved (qs @ [p]), of_nat (snd p + section_size s))"
proof -
  have c: "unat (of_nat c :: u32) = c" using assms(2) by (simp add: unat_of_nat_u32 vm_sizes limits)
  have al: "align_address (ucast (of_nat c :: u32)) (sec_alignment (ls_image s)) =
      (let r = round_up c (unat (sec_alignment (ls_image s))) in if r \<le> WORD_MAX then Some (of_nat r) else None)"
    by (simp only: align_address_round_up [OF assms(3)] c Let_def)
  show ?thesis
  proof (cases "place_at c s \<le> WORD_MAX")
    case True
    then have a: "unat (of_nat (place_at c s) :: u32) = place_at c s"
      by (simp add: unat_of_nat_u32)
    have "layout_section (map moved qs, of_nat c) s =
      (if place_at c s + section_size s > ZLVM_ROM_SIZE \<or>
          overlaps (map moved qs) (of_nat (place_at c s)) (section_size s)
       then Inl (if overlaps (map moved qs) (of_nat (place_at c s)) (section_size s)
                 then ZL_LINK_ERROR_OVERLAP else ZL_LINK_ERROR_OVERFLOW)
       else Inr (map moved (qs @ [p]), of_nat (place_at c s + section_size s)))"
    proof (cases "auto_placed s")
      case True
      then show ?thesis using al a \<open>place_at c s \<le> WORD_MAX\<close>
        unfolding layout_section_def p_def by (simp add: place_at_def auto_placed_def moved_def Let_def)
    next
      case False
      then show ?thesis using a
        unfolding layout_section_def p_def by (auto simp: place_at_def auto_placed_def moved_def Let_def)
    qed
    then show ?thesis
      using overlaps_moved [OF assms(1), of s "place_at c s"]
      by (cases "in_rom p") (auto simp: p_def in_rom_def)
  next
    case False
    then have "auto_placed s" by (auto simp: place_at_def split: if_splits)
    with False al have "layout_section (map moved qs, of_nat c) s = Inl ZL_LINK_ERROR_OVERFLOW"
      unfolding layout_section_def by (simp add: place_at_def auto_placed_def)
    moreover have "\<not> in_rom p" using False by (simp add: p_def in_rom_def limits vm_sizes)
    ultimately show ?thesis by simp
  qed
qed

lemma layout_loop:
  assumes "\<forall>s \<in> set ss. valid_alignment (sec_alignment (ls_image s))"
    "\<forall>q \<in> set qs. in_rom q" "c \<le> ZLVM_ROM_SIZE"
  shows "(\<exists>cursor. try_fold layout_section (map moved qs, of_nat c) ss = Inr (res, cursor)) \<longleftrightarrow>
    (\<forall>p \<in> set (place_all c ss). in_rom p \<and> (\<forall>q \<in> set qs. apart q p)) \<and>
    sorted_wrt apart (place_all c ss) \<and> res = map moved (qs @ place_all c ss)"
  using assms
proof (induction ss arbitrary: qs c)
  case Nil
  then show ?case by auto
next
  case (Cons s ss)
  let ?p = "(s, place_at c s)"
  have step: "layout_section (map moved qs, of_nat c) s = Inr st \<longleftrightarrow>
    in_rom ?p \<and> (\<forall>q \<in> set qs. apart q ?p) \<and>
    st = (map moved (qs @ [?p]), of_nat (place_at c s + section_size s))" for st
    using layout_section_step [of qs c s st] Cons.prems by simp
  show ?case
  proof (cases "in_rom ?p \<and> (\<forall>q \<in> set qs. apart q ?p)")
    case True
    then have le: "place_at c s + section_size s \<le> ZLVM_ROM_SIZE" by (simp add: in_rom_def)
    have run: "try_fold layout_section (map moved qs, of_nat c) (s # ss) =
        try_fold layout_section (map moved (qs @ [?p]), of_nat (place_at c s + section_size s)) ss"
      using True step [of "(map moved (qs @ [?p]), of_nat (place_at c s + section_size s))"] by simp
    have rec: "(\<exists>cursor. try_fold layout_section
        (map moved (qs @ [?p]), of_nat (place_at c s + section_size s)) ss = Inr (res, cursor)) \<longleftrightarrow>
      (\<forall>p \<in> set (place_all (place_at c s + section_size s) ss). in_rom p \<and> (\<forall>q \<in> set (qs @ [?p]). apart q p)) \<and>
      sorted_wrt apart (place_all (place_at c s + section_size s) ss) \<and>
      res = map moved ((qs @ [?p]) @ place_all (place_at c s + section_size s) ss)"
      by (rule Cons.IH) (use Cons.prems True le in auto)
    show ?thesis unfolding run rec using True by auto
  next
    case False
    then have "\<nexists>st. layout_section (map moved qs, of_nat c) s = Inr st" using step by auto
    then have "\<nexists>r. try_fold layout_section (map moved qs, of_nat c) (s # ss) = Inr r"
      by (auto split: sum.splits)
    with False show ?thesis by auto
  qed
qed

lemma layout_sections_Inr:
  assumes "\<forall>s \<in> set (all_sections imgs). valid_alignment (sec_alignment (ls_image s))"
  shows "layout_sections imgs = Inr sections \<longleftrightarrow>
    layout_ok (place_all 8 (all_sections imgs)) \<and>
    sections = map moved (place_all 8 (all_sections imgs))"
proof -
  have "layout_sections imgs = Inr sections \<longleftrightarrow>
      (\<exists>cursor. try_fold layout_section (map moved [], of_nat 8) (all_sections imgs) = Inr (sections, cursor))"
    by (auto simp: layout_sections_def split: sum.splits)
  also have "\<dots> \<longleftrightarrow> layout_ok (place_all 8 (all_sections imgs)) \<and>
    sections = map moved (place_all 8 (all_sections imgs))"
    by (subst layout_loop [OF assms]) (auto simp: layout_ok_def vm_sizes)
  finally show ?thesis .
qed

text \<open>C26: laying out sections with valid alignments succeeds exactly when the places they get, packed
  after one another from address 8 with each automatic section at the least multiple of its alignment
  and each fixed section at its own address, lie in the ROM and do not overlap; the result is then the
  sections, otherwise unchanged, at those places.\<close>

theorem link_layout_exact:
  assumes "\<forall>s \<in> set (all_sections imgs). valid_alignment (sec_alignment (ls_image s))"
  shows "layout_sections imgs = Inr sections \<longleftrightarrow>
    layout_ok (place_all 8 (all_sections imgs)) \<and>
    sections = map moved (place_all 8 (all_sections imgs))"
  using assms by (rule layout_sections_Inr)

end
