(* ===== verification/Link_Phases.thy ===== *)
theory Link_Phases
  imports Link_Layout
begin

unbundle bit_operations_syntax

text \<open>
  The symbol and relocation phases of the linker against their specifications, and what they leave of
  the sections.
\<close>

section \<open>Finding sections\<close>

lemma find_section_from_Some:
  "find_section_from ss obj src k = Some i \<Longrightarrow>
     k \<le> i \<and> i - k < length ss \<and> ls_object (ss ! (i - k)) = obj \<and> ls_source (ss ! (i - k)) = src"
proof (induction ss obj src k rule: find_section_from.induct)
  case (2 s ss obj src k)
  show ?case
  proof (cases "ls_object s = obj \<and> ls_source s = src")
    case True
    with 2(2) show ?thesis by auto
  next
    case False
    with 2 have h: "Suc k \<le> i" "i - Suc k < length ss" "ls_object (ss ! (i - Suc k)) = obj"
      "ls_source (ss ! (i - Suc k)) = src" by auto
    then have "i - k = Suc (i - Suc k)" by simp
    then show ?thesis using h by (simp only: nth_Cons_Suc) simp
  qed
qed simp

lemma find_section_Some:
  "find_section ss obj src = Some i \<Longrightarrow>
     i < length ss \<and> ls_object (ss ! i) = obj \<and> ls_source (ss ! i) = src"
  unfolding find_section_def by (drule find_section_from_Some) simp

lemma find_section_from_None:
  "find_section_from ss obj src k = None \<longleftrightarrow>
     (\<forall>s \<in> set ss. \<not> (ls_object s = obj \<and> ls_source s = src))"
  by (induction ss obj src k rule: find_section_from.induct) auto

text \<open>Only the identities of the sections matter.\<close>

lemma find_section_from_cong:
  "map (\<lambda>s. (ls_object s, ls_source s)) ss = map (\<lambda>s. (ls_object s, ls_source s)) ts \<Longrightarrow>
     find_section_from ss obj src k = find_section_from ts obj src k"
proof (induction ss arbitrary: ts k)
  case (Cons s ss)
  then show ?case by (cases ts) auto
qed simp

lemma find_section_cong:
  "map (\<lambda>s. (ls_object s, ls_source s)) ss = map (\<lambda>s. (ls_object s, ls_source s)) ts \<Longrightarrow>
     find_section ss = find_section ts"
  unfolding find_section_def using find_section_from_cong by blast

section \<open>The symbol table\<close>

text \<open>What linking makes of a symbol: a defined one moves with its section, in 32 bits.\<close>

definition linked_symbol :: "link_section list \<Rightarrow> nat \<times> zl_symbol \<Rightarrow> zl_symbol" where
  "linked_symbol sections oy =
     (let (obj, y) = oy in
      if defined y
      then let i = the (find_section sections obj (unat (sym_section_index y)))
           in y\<lparr>sym_value := sym_value y + sec_address (ls_image (sections ! i)),
                sym_section_index := of_nat i\<rparr>
      else y)"

definition placed_symbol :: "link_section list \<Rightarrow> nat \<times> zl_symbol \<Rightarrow> bool" where
  "placed_symbol sections oy \<longleftrightarrow>
     (defined (snd oy) \<longrightarrow> find_section sections (fst oy) (unat (sym_section_index (snd oy))) \<noteq> None)"

definition global_definition :: "zl_symbol \<Rightarrow> bool" where
  "global_definition y \<longleftrightarrow> sym_binding y = ZL_IMAGE_SYMBOL_GLOBAL \<and> defined y"

definition compatible :: "zl_symbol \<Rightarrow> zl_symbol \<Rightarrow> bool" where
  "compatible y z \<longleftrightarrow> \<not> (global_definition y \<and> global_definition z \<and>
     c_name (sym_name y) = c_name (sym_name z))"

lemma linked_symbol_fields [simp]:
  "sym_name (linked_symbol sections oy) = sym_name (snd oy)"
  "sym_binding (linked_symbol sections oy) = sym_binding (snd oy)"
  by (simp_all add: linked_symbol_def Let_def split: prod.split)

lemma link_symbol_Inr:
  "link_symbol sections symbols oy = Inr symbols' \<longleftrightarrow>
     placed_symbol sections oy \<and> (\<forall>y \<in> set symbols. compatible y (linked_symbol sections oy)) \<and>
     symbols' = symbols @ [linked_symbol sections oy]"
proof -
  obtain obj y where oy: "oy = (obj, y)" by fastforce
  show ?thesis
    unfolding oy link_symbol_def
    by (auto simp: placed_symbol_def linked_symbol_def list_ex_iff compatible_def global_definition_def
        Let_def split: option.splits)
qed

lemma link_symbols_Inr:
  "try_fold (link_symbol sections) symbols oys = Inr result \<longleftrightarrow>
     (\<forall>oy \<in> set oys. placed_symbol sections oy \<and>
        (\<forall>y \<in> set symbols. compatible y (linked_symbol sections oy))) \<and>
     sorted_wrt compatible (map (linked_symbol sections) oys) \<and>
     result = symbols @ map (linked_symbol sections) oys"
proof (induction oys arbitrary: symbols)
  case Nil
  then show ?case by auto
next
  case (Cons oy oys)
  show ?case
  proof (cases "link_symbol sections symbols oy")
    case (Inl e)
    then have "\<not> (placed_symbol sections oy \<and> (\<forall>y \<in> set symbols. compatible y (linked_symbol sections oy)))"
      using link_symbol_Inr [of sections symbols oy "symbols @ [linked_symbol sections oy]"] by simp
    then show ?thesis using Inl by auto
  next
    case (Inr s)
    then have h: "placed_symbol sections oy" "\<forall>y \<in> set symbols. compatible y (linked_symbol sections oy)"
      "s = symbols @ [linked_symbol sections oy]" by (simp_all add: link_symbol_Inr)
    then show ?thesis using Inr by (auto simp: Cons.IH)
  qed
qed

section \<open>Relocations\<close>

lemma get32_write32:
  assumes "offset + 4 \<le> length data"
  shows "get32 (write32 data offset value) offset = value"
proof -
  have "get32 (write32 data offset value) offset = ucast (take_bit (4 * 8) value)"
    unfolding get32_def write32_def by (rule buf.le_read_le_write) (use assms in simp)
  then show ?thesis by simp
qed

lemma write32_frame:
  assumes "offset + 4 \<le> length data" "i < length data" "\<not> (offset \<le> i \<and> i < offset + 4)"
  shows "write32 data offset value ! i = data ! i"
  unfolding write32_def by (subst buf.rd_le_write) (use assms in auto)

lemma length_write32 [simp]: "length (write32 data offset value) = length data"
  by (simp add: write32_def)

definition has_data :: "link_section \<Rightarrow> bool" where
  "has_data s \<longleftrightarrow> sec_data_size (ls_image s) = 0 \<or>
     (\<exists>data. sec_data (ls_image s) = Some data \<and> sec_data_size (ls_image s) \<le> length data)"

definition with_data :: "link_section \<Rightarrow> u8 list \<Rightarrow> link_section" where
  "with_data s data = s\<lparr>ls_image := (ls_image s)\<lparr>sec_data := Some data\<rparr>\<rparr>"

lemma with_data_fields [simp]:
  "ls_object (with_data s data) = ls_object s" "ls_source (with_data s data) = ls_source s"
  "sec_data (ls_image (with_data s data)) = Some data"
  "sec_data_size (ls_image (with_data s data)) = sec_data_size (ls_image s)"
  "sec_address (ls_image (with_data s data)) = sec_address (ls_image s)"
  "sec_name (ls_image (with_data s data)) = sec_name (ls_image s)"
  "sec_type (ls_image (with_data s data)) = sec_type (ls_image s)"
  "sec_alignment (ls_image (with_data s data)) = sec_alignment (ls_image s)"
  by (simp_all add: with_data_def)

lemma sint_word_of_int: "SWORD_MIN \<le> v \<Longrightarrow> v \<le> SWORD_MAX \<Longrightarrow> sint (word_of_int v :: u32) = v"
  by (simp add: signed_of_int limits signed_take_bit_int_eq_self_iff)

lemma uint_word_of_int_small: "0 \<le> v \<Longrightarrow> v \<le> int WORD_MAX \<Longrightarrow> uint (word_of_int v :: u32) = v"
  by (simp add: uint_word_of_int limits)

text \<open>The value a relocation stores at \<open>place\<close>.\<close>

definition relocation_value :: "zl_relocation \<Rightarrow> int \<Rightarrow> int \<Rightarrow> int" where
  "relocation_value r target place =
     (if rel_type r = ZL_IMAGE_RELOCATION_PC_RELATIVE32 then target + sint (rel_addend r) - place
      else target + sint (rel_addend r))"

definition relocation_fits :: "zl_relocation \<Rightarrow> int \<Rightarrow> bool" where
  "relocation_fits r v \<longleftrightarrow>
     (if rel_type r = ZL_IMAGE_RELOCATION_PC_RELATIVE32 then SWORD_MIN \<le> v \<and> v \<le> SWORD_MAX
      else 0 \<le> v \<and> v \<le> int WORD_MAX)"

lemma link_relocation_Inr:
  assumes "\<forall>s \<in> set sections. has_data s"
  shows "link_relocation symbols sections (obj, img, r) = Inr sections' \<longleftrightarrow>
    (\<exists>d target data v. find_section sections obj (unat (rel_section_index r)) = Some d \<and>
      symbol_address sections symbols obj (image_symbols img ! unat (rel_symbol_index r)) = Inr target \<and>
      v = relocation_value r target
        (uint (sec_address (ls_image (sections ! d))) + uint (rel_offset r)) \<and> relocation_fits r v \<and>
      sec_data (ls_image (sections ! d)) = Some data \<and>
      unat (rel_offset r) + 4 \<le> sec_data_size (ls_image (sections ! d)) \<and>
      sections' = sections[d := with_data (sections ! d)
        (write32 data (unat (rel_offset r)) (word_of_int v))])"
proof (cases "find_section sections obj (unat (rel_section_index r))")
  case None
  then show ?thesis by (simp add: link_relocation_def)
next
  case (Some d)
  then have d: "d < length sections" using find_section_Some by blast
  have "has_data (sections ! d)" using assms nth_mem [OF d] by blast
  then have data: "sec_data_size (ls_image (sections ! d)) \<noteq> 0 \<Longrightarrow>
      \<exists>data. sec_data (ls_image (sections ! d)) = Some data"
    by (auto simp: has_data_def)
  have sz: "\<not> (unat (rel_offset r) > n \<or> n - unat (rel_offset r) < 4) \<longleftrightarrow> unat (rel_offset r) + 4 \<le> n"
    for n by auto
  show ?thesis
  proof (cases "sec_data_size (ls_image (sections ! d)) = 0")
    case True
    then show ?thesis
      using Some by (auto simp: link_relocation_def Let_def split: sum.splits if_splits)
  next
    case False
    then obtain data where "sec_data (ls_image (sections ! d)) = Some data" using data by blast
    then show ?thesis
      using Some
      by (auto simp: link_relocation_def Let_def with_data_def relocation_fits_def relocation_value_def sz
          split: sum.splits if_splits)
  qed
qed

text \<open>Relocations change the data of sections and nothing else.\<close>

definition rewritten :: "link_section \<Rightarrow> link_section \<Rightarrow> bool" where
  "rewritten s t \<longleftrightarrow> t = s \<or>
     (\<exists>d e. sec_data (ls_image s) = Some d \<and> length e = length d \<and> t = with_data s e)"

lemma rewritten_refl [simp]: "rewritten s s"
  by (simp add: rewritten_def)

lemma rewritten_trans: "rewritten s t \<Longrightarrow> rewritten t u \<Longrightarrow> rewritten s u"
  by (auto simp: rewritten_def with_data_def)

lemma rewritten_fields:
  assumes "rewritten s t"
  shows "ls_object t = ls_object s" "ls_source t = ls_source s"
    "sec_data_size (ls_image t) = sec_data_size (ls_image s)"
    "sec_address (ls_image t) = sec_address (ls_image s)" "sec_name (ls_image t) = sec_name (ls_image s)"
    "sec_type (ls_image t) = sec_type (ls_image s)" "has_data t = has_data s"
    "section_mem_ok (ls_image t) = section_mem_ok (ls_image s)"
  using assms by (auto simp: rewritten_def has_data_def section_mem_ok_def)

lemma link_relocation_rewritten:
  assumes "\<forall>s \<in> set sections. has_data s" "link_relocation symbols sections oir = Inr sections'"
  shows "list_all2 rewritten sections sections'"
proof -
  obtain obj img r where oir: "oir = (obj, img, r)" by (cases oir)
  from assms(2) obtain d data v where
    "find_section sections obj (unat (rel_section_index r)) = Some d"
    "sec_data (ls_image (sections ! d)) = Some data"
    "sections' = sections[d := with_data (sections ! d)
        (write32 data (unat (rel_offset r)) (word_of_int v))]"
    unfolding oir link_relocation_Inr [OF assms(1)] by blast
  moreover from this have "d < length sections" using find_section_Some by blast
  moreover from calculation have "rewritten (sections ! d) (with_data (sections ! d)
      (write32 data (unat (rel_offset r)) (word_of_int v)))"
    unfolding rewritten_def by (metis length_write32)
  ultimately show ?thesis
    by (auto simp: list_all2_conv_all_nth nth_list_update)
qed

lemma link_relocations_rewritten:
  assumes "\<forall>s \<in> set sections. has_data s"
    "try_fold (link_relocation symbols) sections rs = Inr sections'"
  shows "list_all2 rewritten sections sections'"
  using assms
proof (induction rs arbitrary: sections)
  case Nil
  then show ?case by (auto intro: list_all2_refl)
next
  case (Cons r rs)
  then obtain mid where mid: "link_relocation symbols sections r = Inr mid"
    "try_fold (link_relocation symbols) mid rs = Inr sections'" by (auto split: sum.splits)
  have a: "list_all2 rewritten sections mid" using link_relocation_rewritten Cons.prems(1) mid(1) by blast
  then have "\<forall>s \<in> set mid. has_data s"
    using Cons.prems(1) rewritten_fields(7) by (fastforce simp: list_all2_conv_all_nth in_set_conv_nth)
  then have b: "list_all2 rewritten mid sections'" using Cons.IH mid(2) by blast
  show ?case
    by (rule list_all2_trans [OF _ a b]) (rule rewritten_trans)
qed

section \<open>Decoded objects\<close>

lemma read_section_data:
  "read_section can_alloc input n h i = Inr s \<Longrightarrow> n \<le> length input \<Longrightarrow> sec_data_size s = 0 \<or>
     (\<exists>data. sec_data s = Some data \<and> sec_data_size s \<le> length data)"
  by (auto simp: read_section_def Let_def image_in_range_def not_less split: option.splits if_splits)

lemma decode_sections_data:
  assumes "zl_image_decode can_alloc (Some input) n = Inr img" "n \<le> length input"
    "s \<in> set (image_sections img)"
  shows "sec_data_size s = 0 \<or> (\<exists>data. sec_data s = Some data \<and> sec_data_size s \<le> length data)"
proof -
  have "\<exists>h i. read_section can_alloc input n h i = Inr s"
    using assms(1,3) try_map_Inr_set
    by (fastforce simp: zl_image_decode_def Let_def c_array_def split: sum.splits if_splits dest: in_set_takeD)
  then show ?thesis using read_section_data assms(2) by blast
qed

lemma all_sections_image:
  "s \<in> set (all_sections imgs) \<Longrightarrow> \<exists>img \<in> set imgs. ls_image s \<in> set (image_sections img)"
  by (auto simp: all_sections_def in_set_enumerate_eq) (metis nth_mem)

section \<open>Properties\<close>

text \<open>C27: the symbol phase succeeds exactly when every defined symbol's section was placed and no two
  global definitions share a name; the table then holds all symbols in order, the defined ones moved
  by the address of their section.\<close>

theorem link_symbols_exact:
  "try_fold (link_symbol sections) [] oys = Inr result \<longleftrightarrow>
     (\<forall>oy \<in> set oys. placed_symbol sections oy) \<and>
     sorted_wrt compatible (map (linked_symbol sections) oys) \<and>
     result = map (linked_symbol sections) oys"
  by (simp add: link_symbols_Inr)

text \<open>C28: a relocation that succeeds leaves at its offset the word that, read as the relocation type
  says, is the symbol's address plus the addend, minus the place for a PC-relative one, exactly and
  without wrapping; it lies inside its section, and no other byte, section or field changed.\<close>

theorem link_relocation_stores:
  assumes "\<forall>s \<in> set sections. has_data s"
    and "link_relocation symbols sections (obj, img, r) = Inr sections'"
  shows "\<exists>d target data data'.
    find_section sections obj (unat (rel_section_index r)) = Some d \<and> d < length sections \<and>
    symbol_address sections symbols obj (image_symbols img ! unat (rel_symbol_index r)) = Inr target \<and>
    sec_data (ls_image (sections ! d)) = Some data \<and> length data' = length data \<and>
    unat (rel_offset r) + 4 \<le> sec_data_size (ls_image (sections ! d)) \<and>
    sections' = sections[d := with_data (sections ! d) data'] \<and>
    (if rel_type r = ZL_IMAGE_RELOCATION_PC_RELATIVE32
     then sint (get32 data' (unat (rel_offset r))) + uint (sec_address (ls_image (sections ! d))) +
       uint (rel_offset r) = target + sint (rel_addend r)
     else uint (get32 data' (unat (rel_offset r))) = target + sint (rel_addend r)) \<and>
    (\<forall>i < length data. \<not> (unat (rel_offset r) \<le> i \<and> i < unat (rel_offset r) + 4) \<longrightarrow> data' ! i = data ! i)"
proof -
  from assms(2) obtain d target data v where h:
    "find_section sections obj (unat (rel_section_index r)) = Some d"
    "symbol_address sections symbols obj (image_symbols img ! unat (rel_symbol_index r)) = Inr target"
    "v = relocation_value r target (uint (sec_address (ls_image (sections ! d))) + uint (rel_offset r))"
    "relocation_fits r v" "sec_data (ls_image (sections ! d)) = Some data"
    "unat (rel_offset r) + 4 \<le> sec_data_size (ls_image (sections ! d))"
    "sections' = sections[d := with_data (sections ! d)
        (write32 data (unat (rel_offset r)) (word_of_int v))]"
    unfolding link_relocation_Inr [OF assms(1)] by blast
  have d: "d < length sections" using find_section_Some [OF h(1)] by simp
  then have "has_data (sections ! d)" using assms(1) by simp
  then have len: "unat (rel_offset r) + 4 \<le> length data" using h(5,6) by (auto simp: has_data_def)
  let ?w = "write32 data (unat (rel_offset r)) (word_of_int v)"
  have "if rel_type r = ZL_IMAGE_RELOCATION_PC_RELATIVE32
     then sint (get32 ?w (unat (rel_offset r))) + uint (sec_address (ls_image (sections ! d))) +
       uint (rel_offset r) = target + sint (rel_addend r)
     else uint (get32 ?w (unat (rel_offset r))) = target + sint (rel_addend r)"
  proof (cases "rel_type r = ZL_IMAGE_RELOCATION_PC_RELATIVE32")
    case True
    then have "sint (word_of_int v :: u32) = v"
      using h(4) by (intro sint_word_of_int) (simp_all add: relocation_fits_def)
    then show ?thesis
      using True by (simp only: get32_write32 [OF len] if_True) (simp add: h(3) relocation_value_def)
  next
    case False
    then have "uint (word_of_int v :: u32) = v"
      using h(4) by (intro uint_word_of_int_small) (simp_all add: relocation_fits_def)
    then show ?thesis
      using False by (simp only: get32_write32 [OF len] if_False) (simp add: h(3) relocation_value_def)
  qed
  then show ?thesis
    using h(1,2,5,6,7) d write32_frame [OF len] length_write32 by blast
qed

end
