(* ===== verification/Link_Load.thy ===== *)
theory Link_Load
  imports Link_Phases
begin

unbundle bit_operations_syntax

text \<open>
  The linker and the loader together: an executable the linker writes is accepted by the loader, and
  the loaded ROM holds every linked section at its place.
\<close>

section \<open>The phases of a successful link\<close>

lemma zl_link_objects_Inr:
  assumes "zl_link_objects can_alloc (Some objects) entry = Inr out"
  obtains imgs placed symbols sections where
    "try_map (link_decode can_alloc) objects = Inr imgs" "layout_sections imgs = Inr placed"
    "try_fold (link_symbol placed) [] (all_symbols imgs) = Inr symbols"
    "try_fold (link_relocation symbols) placed (all_relocations imgs) = Inr sections"
    "entry_address (selected_entry entry imgs) symbols \<noteq> 0"
    "zl_image_encode can_alloc
       (Some (executable_image (entry_address (selected_entry entry imgs) symbols) sections)) = Inr out"
  using assms
  by (auto simp: zl_link_objects_def Let_def split: if_splits sum.splits image_error.splits)

lemma link_decode_sections:
  assumes "try_map (link_decode can_alloc) objects = Inr imgs"
    "\<forall>(p, n) \<in> set objects. \<forall>bytes. p = Some bytes \<longrightarrow> n \<le> length bytes"
    "s \<in> set (all_sections imgs)"
  shows "has_data s" "section_ok (ls_image s)" "section_mem_ok (ls_image s)"
proof -
  obtain img where img: "img \<in> set imgs" "ls_image s \<in> set (image_sections img)"
    using all_sections_image assms(3) by blast
  then obtain p n where "(p, n) \<in> set objects" "link_decode can_alloc (p, n) = Inr img"
    using try_map_Inr_set [OF assms(1)] by force
  moreover from this obtain bytes where p: "p = Some bytes"
    by (cases p) (auto simp: link_decode_def zl_image_decode_def)
  ultimately have d: "zl_image_decode can_alloc (Some bytes) n = Inr img" "n \<le> length bytes"
    using assms(2) by (auto simp: link_decode_def split: sum.splits if_splits)
  show "has_data s" using decode_sections_data [OF d img(2)] by (simp add: has_data_def)
  show "section_ok (ls_image s)" "section_mem_ok (ls_image s)"
    using zl_image_decode_valid [OF d] img(2) by (simp_all add: valid_image_def image_mem_ok_def)
qed

lemma moved_identity:
  "section_mem_ok (ls_image (moved p)) = section_mem_ok (ls_image (fst p))"
  "has_data (moved p) = has_data (fst p)" "sec_type (ls_image (moved p)) = sec_type (ls_image (fst p))"
  by (simp_all add: section_mem_ok_def has_data_def moved_def cong: option.case_cong)

lemma fst_place_all [simp]: "map fst (place_all c ss) = ss"
  by (induction c ss rule: place_all.induct) simp_all

lemma place_all_fst: "p \<in> set (place_all c ss) \<Longrightarrow> fst p \<in> set ss"
  using fst_place_all [of c ss] by (metis image_eqI list.set_map)

lemma normal_section_mem: "section_mem_ok s \<Longrightarrow> section_ok s \<Longrightarrow>
  section_ok (normal_section s) \<and> section_mem_ok (normal_section s) \<and>
  section_bytes (normal_section s) = section_bytes s"
  by (auto simp: section_ok_def section_mem_ok_def normal_section_def section_bytes_def c_string_ok_def
      c_name_def c_array_def split: option.splits)

definition disjoint_sections :: "zl_section \<Rightarrow> zl_section \<Rightarrow> bool" where
  "disjoint_sections s t \<longleftrightarrow> (\<forall>a. \<not> (covers s a \<and> covers t a))"

lemma apart_disjoint:
  assumes "in_rom p" "in_rom q" "apart p q" "rewritten (moved p) s" "rewritten (moved q) t"
  shows "disjoint_sections (ls_image s) (ls_image t)"
  using assms(3) in_rom_address [OF assms(1)] in_rom_address [OF assms(2)]
  by (auto simp: disjoint_sections_def covers_def apart_def rewritten_fields [OF assms(4)]
      rewritten_fields [OF assms(5)])

lemma sorted_wrt_list_all2:
  assumes "list_all2 R xs ys" "sorted_wrt P xs"
    "\<And>x x' y y'. x \<in> set xs \<Longrightarrow> x' \<in> set xs \<Longrightarrow> P x x' \<Longrightarrow> R x y \<Longrightarrow> R x' y' \<Longrightarrow> Q y y'"
  shows "sorted_wrt Q ys"
proof -
  have len: "length ys = length xs" using assms(1) by (simp add: list_all2_lengthD)
  have "Q (ys ! i) (ys ! j)" if "i < j" "j < length ys" for i j
    using assms(3) [of "xs ! i" "xs ! j" "ys ! i" "ys ! j"] that len assms(1,2)
    by (simp add: list_all2_conv_all_nth sorted_wrt_iff_nth_less)
  then show ?thesis by (simp add: sorted_wrt_iff_nth_less)
qed

lemma link_sections_ok:
  assumes "try_map (link_decode can_alloc) objects = Inr imgs" "layout_sections imgs = Inr placed"
    "try_fold (link_relocation symbols) placed rs = Inr sections"
    "\<forall>(p, n) \<in> set objects. \<forall>bytes. p = Some bytes \<longrightarrow> n \<le> length bytes"
  shows "list_all2 rewritten placed sections"
    "\<forall>s \<in> set sections. section_mem_ok (ls_image s) \<and> \<not> outside_rom (ls_image s)"
    "sorted_wrt disjoint_sections (map ls_image sections)"
proof -
  note ok = link_decode_sections [OF assms(1,4)]
  let ?ps = "place_all 8 (all_sections imgs)"
  have al: "\<forall>s \<in> set (all_sections imgs). valid_alignment (sec_alignment (ls_image s))"
    using ok(2) by (auto simp: section_ok_def)
  have lay: "layout_ok ?ps" "placed = map moved ?ps"
    using assms(2) layout_sections_Inr [OF al] by auto
  have hd: "\<forall>s \<in> set placed. has_data s"
    unfolding lay(2) using ok(1) place_all_fst by (auto simp: moved_identity)
  show rw: "list_all2 rewritten placed sections"
    by (rule link_relocations_rewritten [OF hd assms(3)])
  then have two: "list_all2 (\<lambda>p. rewritten (moved p)) ?ps sections"
    unfolding lay(2) by (simp add: list_all2_map1)
  have in_rom: "\<forall>p \<in> set ?ps. in_rom p" and apart: "sorted_wrt apart ?ps"
    using lay(1) by (simp_all add: layout_ok_def)
  have one: "section_mem_ok (ls_image s) \<and> \<not> outside_rom (ls_image s)"
    if "p \<in> set ?ps" "rewritten (moved p) s" for p s
    using ok(3) [OF place_all_fst [OF that(1)]] in_rom that(1) in_rom_address [of p]
    by (auto simp: rewritten_fields [OF that(2)] moved_identity outside_rom_def in_rom_def)
  show "\<forall>s \<in> set sections. section_mem_ok (ls_image s) \<and> \<not> outside_rom (ls_image s)"
  proof
    fix s assume "s \<in> set sections"
    then obtain i where i: "i < length sections" "s = sections ! i" by (auto simp: in_set_conv_nth)
    then have "rewritten (moved (?ps ! i)) s" "?ps ! i \<in> set ?ps"
      using two by (simp_all add: list_all2_conv_all_nth)
    then show "section_mem_ok (ls_image s) \<and> \<not> outside_rom (ls_image s)" using one by blast
  qed
  show "sorted_wrt disjoint_sections (map ls_image sections)"
    unfolding sorted_wrt_map
  proof (rule sorted_wrt_list_all2 [OF two apart])
    fix p q s t
    assume "p \<in> set ?ps" "q \<in> set ?ps" "apart p q" "rewritten (moved p) s" "rewritten (moved q) t"
    then show "disjoint_sections (ls_image s) (ls_image t)"
      using in_rom by (intro apart_disjoint [of p q]) auto
  qed
qed

section \<open>Loading what was linked\<close>

lemma load_disjoint_sections:
  assumes "\<forall>s \<in> set ss. section_ok s \<and> section_mem_ok s \<and> \<not> outside_rom s"
    "length rom = ZLVM_ROM_SIZE" "sorted_wrt disjoint_sections ss" "s \<in> set ss" "covers s a"
  shows "foldl load_section rom ss ! a = section_bytes s ! (a - unat (sec_address s))"
proof -
  obtain xs ys where ss: "ss = xs @ s # ys" using split_list [OF assms(4)] by blast
  have later: "\<forall>t \<in> set ys. \<not> covers t a"
    using assms(3,5) unfolding ss by (auto simp: sorted_wrt_append disjoint_sections_def)
  have "loadable s" using assms(1,4) valid_section_loadable by blast
  then have "a < ZLVM_ROM_SIZE"
    using assms(1,4,5) by (auto simp: outside_rom_def covers_def)
  from load_sections_last [OF _ this assms(2,5) later] show ?thesis
    using assms(1) unfolding ss by blast
qed

lemma executable_fields [simp]:
  "image_sections (executable_image e sections) = map ls_image sections"
  "img_kind (executable_image e sections) = ZL_IMAGE_EXECUTABLE"
  "img_entry_point (executable_image e sections) = e"
  by (simp_all add: executable_image_def zero_image_def c_array_def)

lemma executable_mem_ok:
  "\<forall>s \<in> set sections. section_mem_ok (ls_image s) \<Longrightarrow> image_mem_ok (executable_image e sections)"
  by (simp add: image_mem_ok_def executable_image_def zero_image_def c_array_def c_string_ok_def c_name_def)

lemma linked_image_loads:
  assumes link: "zl_link_objects can_alloc (Some objects) entry = Inr out"
    and bytes: "\<forall>(p, n) \<in> set objects. \<forall>bytes. p = Some bytes \<longrightarrow> n \<le> length bytes"
    and "wf_vm vm" "\<And>n. can_alloc' n"
  shows "\<exists>imgs placed symbols sections vm'.
    try_map (link_decode can_alloc) objects = Inr imgs \<and> layout_sections imgs = Inr placed \<and>
    try_fold (link_symbol placed) [] (all_symbols imgs) = Inr symbols \<and>
    try_fold (link_relocation symbols) placed (all_relocations imgs) = Inr sections \<and>
    vm_loadImage can_alloc' (Some vm) (Some out) (length out) = (Some vm', ZL_IMAGE_ERROR_NONE) \<and>
    vm_entryPoint vm' = entry_address (selected_entry entry imgs) symbols \<and> vm_entryPoint vm' \<noteq> 0 \<and>
    (\<forall>s \<in> set sections. \<forall>j < section_size s.
       vm_rom vm' ! (unat (sec_address (ls_image s)) + j) = section_bytes (ls_image s) ! j) \<and>
    (\<forall>a < ZLVM_ROM_SIZE. (\<forall>s \<in> set sections. \<not> covers (ls_image s) a) \<longrightarrow> vm_rom vm' ! a = vm_rom vm ! a)"
proof -
  obtain imgs placed symbols sections where ph:
    "try_map (link_decode can_alloc) objects = Inr imgs" "layout_sections imgs = Inr placed"
    "try_fold (link_symbol placed) [] (all_symbols imgs) = Inr symbols"
    "try_fold (link_relocation symbols) placed (all_relocations imgs) = Inr sections"
    "entry_address (selected_entry entry imgs) symbols \<noteq> 0"
    and enc: "zl_image_encode can_alloc
       (Some (executable_image (entry_address (selected_entry entry imgs) symbols) sections)) = Inr out"
    using link by (rule zl_link_objects_Inr)
  let ?e = "entry_address (selected_entry entry imgs) symbols"
  let ?x = "executable_image ?e sections" and ?ss = "map ls_image sections"
  note ok = link_sections_ok [OF ph(1,2,4) bytes]
  have mem: "image_mem_ok ?x" using ok(2) by (simp add: executable_mem_ok)
  have v: "valid_image ?x" "length (image_layout ?x) \<le> WORD_MAX" "out = image_layout ?x"
    using enc unfolding zl_image_encode_Inr [OF mem] by simp_all
  then have dec: "zl_image_decode can_alloc' (Some out) (length out) = Inr (normal_image ?x)"
    using zl_image_decode_layout [OF mem v(1,2), of can_alloc'] assms(4) by simp
  have secs: "image_sections (normal_image ?x) = map normal_section ?ss"
    by (simp add: normal_image_def) (simp add: c_array_def executable_image_def)
  have good: "\<forall>s \<in> set ?ss. section_ok s \<and> section_mem_ok s \<and> \<not> outside_rom s"
    using v(1) ok(2) by (simp add: valid_image_def)
  then have norm: "\<forall>s \<in> set (map normal_section ?ss). section_ok s \<and> section_mem_ok s \<and> \<not> outside_rom s"
    using normal_section_mem by (auto simp: outside_rom_def loadable_def)
  let ?rom = "foldl load_section (vm_rom vm) (map normal_section ?ss)"
  have load: "vm_loadImage can_alloc' (Some vm) (Some out) (length out) =
      (Some (vm\<lparr>vm_rom := ?rom, vm_entryPoint := ?e\<rparr>), ZL_IMAGE_ERROR_NONE)"
    using dec norm
    by (simp add: vm_loadImage_def secs list_ex_iff) (simp add: normal_image_def)
  have len: "length (vm_rom vm) = ZLVM_ROM_SIZE" using assms(3) by (simp add: wf_vm_def)
  have cov: "covers (normal_section s) = covers s" for s by (simp add: covers_def fun_eq_iff)
  have dis: "sorted_wrt disjoint_sections (map normal_section ?ss)"
    using ok(3) by (simp add: sorted_wrt_map disjoint_sections_def cov)
  have inside: "?rom ! (unat (sec_address (ls_image s)) + j) = section_bytes (ls_image s) ! j"
    if "s \<in> set sections" "j < section_size s" for s j
    using load_disjoint_sections [OF norm len dis, of "normal_section (ls_image s)"
        "unat (sec_address (ls_image s)) + j"] that good normal_section_mem [of "ls_image s"]
    by (auto simp: covers_def)
  have outside: "?rom ! a = vm_rom vm ! a"
    if "a < ZLVM_ROM_SIZE" "\<forall>s \<in> set sections. \<not> covers (ls_image s) a" for a
    using load_sections_nth [OF norm that(1) len] that(2) by (simp add: cov)
  show ?thesis
    by (intro exI [of _ imgs] exI [of _ placed] exI [of _ symbols] exI [of _ sections]
        exI [of _ "vm\<lparr>vm_rom := ?rom, vm_entryPoint := ?e\<rparr>"])
      (use ph load inside outside in auto)
qed

text \<open>C3: what the linker writes, the loader loads: from objects whose link succeeds, the loaded
  machine starts at the address of the selected entry symbol, holds in its ROM every byte of every
  section, placed and relocated, and keeps all other ROM bytes.\<close>

theorem link_then_load:
  assumes link: "zl_link_objects can_alloc (Some objects) entry = Inr out"
    and bytes: "\<forall>(p, n) \<in> set objects. \<forall>bytes. p = Some bytes \<longrightarrow> n \<le> length bytes"
    and "wf_vm vm" "\<And>n. can_alloc' n"
  shows "\<exists>imgs placed symbols sections vm'.
    try_map (link_decode can_alloc) objects = Inr imgs \<and> layout_sections imgs = Inr placed \<and>
    try_fold (link_symbol placed) [] (all_symbols imgs) = Inr symbols \<and>
    try_fold (link_relocation symbols) placed (all_relocations imgs) = Inr sections \<and>
    vm_loadImage can_alloc' (Some vm) (Some out) (length out) = (Some vm', ZL_IMAGE_ERROR_NONE) \<and>
    vm_entryPoint vm' = entry_address (selected_entry entry imgs) symbols \<and> vm_entryPoint vm' \<noteq> 0 \<and>
    (\<forall>s \<in> set sections. \<forall>j < section_size s.
       vm_rom vm' ! (unat (sec_address (ls_image s)) + j) = section_bytes (ls_image s) ! j) \<and>
    (\<forall>a < ZLVM_ROM_SIZE. (\<forall>s \<in> set sections. \<not> covers (ls_image s) a) \<longrightarrow> vm_rom vm' ! a = vm_rom vm ! a)"
  using assms by (rule linked_image_loads)

section \<open>Symbol values\<close>

text \<open>C29: with fewer than \<open>2 ^ 32 - 1\<close> sections, linking a global definition, in a section that was
  placed, whose name has no global definition yet always succeeds, even when
  its section's address and its value exceed 32 bits together. From then on, whatever symbols follow, an
  undefined reference of that name from any object stands for the sum modulo \<open>2 ^ 32\<close>, while a reference to the
  definition from within its own object stands for the exact sum.\<close>

theorem global_symbol_address:
  assumes "defined y" "sym_binding y = ZL_IMAGE_SYMBOL_GLOBAL"
    and "find_section sections obj (unat (sym_section_index y)) = Some i" "length sections < 2 ^ 32 - 1"
    and "\<forall>x \<in> set symbols. \<not> resolves (c_name (sym_name y)) x"
    and "\<not> defined ref" "c_name (sym_name ref) = c_name (sym_name y)"
  shows "\<exists>z. link_symbol sections symbols (obj, y) = Inr (symbols @ [z]) \<and>
    symbol_address sections (symbols @ z # later) obj' ref =
      Inr ((uint (sec_address (ls_image (sections ! i))) + uint (sym_value y)) mod 2 ^ 32) \<and>
    symbol_address sections (symbols @ z # later) obj y =
      Inr (uint (sec_address (ls_image (sections ! i))) + uint (sym_value y))"
proof -
  let ?z = "y\<lparr>sym_value := sym_value y + sec_address (ls_image (sections ! i)), sym_section_index := of_nat i\<rparr>"
  have "i < 2 ^ 32 - 1" using find_section_Some [OF assms(3)] assms(4) by simp
  then have "unat (of_nat i :: u32) = i" by (intro unat_of_nat_u32) (simp add: limits)
  then have "(of_nat i :: u32) \<noteq> - 1" using \<open>i < 2 ^ 32 - 1\<close> by (auto simp: unsigned_minus_1_eq_mask mask_eq_exp_minus_1)
  then have z: "resolves (c_name (sym_name y)) ?z"
    using assms(2) by (simp add: resolves_def defined_def ZL_IMAGE_UNDEFINED_SECTION_def)
  have "link_symbol sections symbols (obj, y) = Inr (symbols @ [?z])"
    using assms(1-3,5) by (auto simp: link_symbol_def list_ex_iff resolves_def)
  moreover have "find (resolves (c_name (sym_name y))) (symbols @ ?z # later) = Some ?z"
    using assms(5) z by (induction symbols) simp_all
  ultimately show ?thesis
    using assms by (intro exI [of _ ?z]) (simp add: symbol_address_def uint_word_ariths add.commute)
qed

end
