(* ===== verification/Link_Samples.thy ===== *)
theory Link_Samples
  imports Image_Samples Link_Load
begin

unbundle bit_operations_syntax

text \<open>
  A sample object with a relocated reference to its own entry symbol, what each phase of the linker
  makes of it, and the application of the linker's properties to it.
\<close>

section \<open>A sample object\<close>

text \<open>One text section without an address, the symbol \<open>start\<close> at its beginning, and one relocation
  that stores the symbol's address plus 3 at offset 4.\<close>

definition object_section :: zl_section where
  "object_section = \<lparr>sec_name = Some [46, 116], sec_type = ZL_IMAGE_SECTION_TEXT, sec_flags = 0,
     sec_alignment = 4, sec_address = 0, sec_data = Some [18, 0, 0, 0, 255, 0, 0, 0],
     sec_data_size = 8\<rparr>"

definition start_symbol :: zl_symbol where
  "start_symbol = \<lparr>sym_name = Some (cstr ''start''), sym_section_index = 0, sym_value = 0, sym_size = 0,
     sym_binding = ZL_IMAGE_SYMBOL_GLOBAL, sym_type = 0\<rparr>"

definition start_relocation :: zl_relocation where
  "start_relocation = \<lparr>rel_section_index = 0, rel_offset = 4,
     rel_type = ZL_IMAGE_RELOCATION_ABSOLUTE32, rel_symbol_index = 0, rel_addend = 3\<rparr>"

definition sample_object :: zl_image where
  "sample_object = \<lparr>img_kind = ZL_IMAGE_OBJECT, img_entry_point = 0, img_entry_symbol = None,
     img_sections = Some [object_section], img_section_count = 1,
     img_symbols = Some [start_symbol], img_symbol_count = 1,
     img_relocations = Some [start_relocation], img_relocation_count = 1\<rparr>"

definition object_bytes :: "u8 list" where
  "object_bytes = image_layout sample_object"

lemma sample_object_fields [simp]:
  "img_kind sample_object = ZL_IMAGE_OBJECT" "img_entry_symbol sample_object = None"
  "img_sections sample_object = Some [object_section]" "img_section_count sample_object = Suc 0"
  "img_symbols sample_object = Some [start_symbol]" "img_symbol_count sample_object = Suc 0"
  "img_relocations sample_object = Some [start_relocation]" "img_relocation_count sample_object = Suc 0"
  "img_entry_point sample_object = 0"
  by (simp_all add: sample_object_def)

lemma object_section_ok: "section_ok object_section" "section_mem_ok object_section"
  by (simp_all add: section_ok_def section_mem_ok_def object_section_def valid_alignment_def
      image_consts c_string_ok_def c_name_def limits)

lemma cstr_start: "cstr ''start'' = [115, 116, 97, 114, 116]"
  by (simp add: cstr_def of_char_def)

lemma valid_sample_object: "image_mem_ok sample_object" "valid_image sample_object"
proof -
  show "image_mem_ok sample_object"
    using object_section_ok
    by (simp add: image_mem_ok_def c_string_ok_def c_name_def start_symbol_def cstr_start)
  show "valid_image sample_object"
    using object_section_ok
    by (simp add: valid_image_def null_arrays_def symbol_ok_def relocation_ok_def start_symbol_def
        start_relocation_def image_consts) (simp add: object_section_def image_consts)
qed

lemma length_object_bytes: "length object_bytes = 138"
proof -
  have "arrays_ok sample_object" by (simp add: arrays_ok_def)
  moreover have "length (string_table sample_object) = 10"
    by (simp add: string_table_def entry_name_def section_names_def symbol_names_def name_bytes_def
        object_section_def start_symbol_def cstr_start c_name_def image_consts)
  moreover have "length (payloads [object_section]) = 8"
    by (simp add: payloads_def section_payload_def object_section_def image_consts c_array_def)
  ultimately show ?thesis by (simp add: object_bytes_def length_image_layout)
qed

lemma normal_object: "normal_image sample_object = sample_object"
  by (simp add: normal_image_def normal_section_def normal_symbol_def)
   (simp add: sample_object_def object_section_def start_symbol_def image_consts c_array_def c_name_def)

lemma decode_object: "zl_image_decode (\<lambda>n. True) (Some object_bytes) 138 = Inr sample_object"
  using zl_image_decode_layout [OF valid_sample_object, of "\<lambda>n. True"] length_object_bytes
  by (simp add: object_bytes_def normal_object limits)

text \<open>The sections, symbols and executable the phases make of it.\<close>

definition object_link_section :: link_section where
  "object_link_section = \<lparr>ls_image = object_section, ls_object = 0, ls_source = 0\<rparr>"

definition placed_section :: link_section where
  "placed_section = moved (object_link_section, 8)"

definition relocated_section :: link_section where
  "relocated_section = with_data placed_section [18, 0, 0, 0, 11, 0, 0, 0]"

lemma object_decoded: "try_map (link_decode (\<lambda>n. True)) [(Some object_bytes, 138)] = Inr [sample_object]"
  by (simp add: link_decode_def decode_object)

lemma object_all_sections: "all_sections [sample_object] = [object_link_section]"
  by (simp add: all_sections_def object_link_section_def)

lemma object_placed: "layout_sections [sample_object] = Inr [placed_section]"
proof -
  have "place_at 8 object_link_section = 8"
    by (simp add: place_at_def auto_placed_def object_link_section_def object_section_def round_up_def)
  then show ?thesis
    by (subst layout_sections_Inr)
      (simp_all add: object_all_sections layout_ok_def in_rom_def placed_section_def,
        simp_all add: object_link_section_def object_section_def valid_alignment_def vm_sizes)
qed

lemma object_find: "find_section [placed_section] 0 0 = Some 0"
  by (simp add: find_section_def placed_section_def object_link_section_def)

lemma object_symbols: "all_symbols [sample_object] = [(0, start_symbol)]"
  by (simp add: all_symbols_def)

lemma start_symbol_fields [simp]:
  "defined start_symbol" "sym_section_index start_symbol = 0" "sym_value start_symbol = 0"
  "sym_binding start_symbol = ZL_IMAGE_SYMBOL_GLOBAL" "sym_name start_symbol = Some (cstr ''start'')"
  by (simp_all add: start_symbol_def defined_def image_consts)

lemma placed_section_fields [simp]:
  "sec_address (ls_image placed_section) = 8" "sec_data_size (ls_image placed_section) = 8"
  "sec_data (ls_image placed_section) = Some [18, 0, 0, 0, 255, 0, 0, 0]"
  by (simp_all add: placed_section_def object_link_section_def object_section_def)

lemma object_linked: "linked_symbol [placed_section] (0, start_symbol) = start_symbol\<lparr>sym_value := 8\<rparr>"
proof -
  have "start_symbol\<lparr>sym_value := 8, sym_section_index := 0\<rparr> = start_symbol\<lparr>sym_value := 8\<rparr>"
    by (simp add: start_symbol_def)
  then show ?thesis by (simp add: linked_symbol_def object_find)
qed

lemma object_symbol_table:
  "try_fold (link_symbol [placed_section]) [] [(0, start_symbol)] = Inr [start_symbol\<lparr>sym_value := 8\<rparr>]"
  by (subst link_symbols_Inr) (simp add: object_linked placed_symbol_def object_find)

lemma object_has_data: "has_data placed_section"
  by (simp add: has_data_def placed_section_def object_link_section_def object_section_def)

lemma object_relocation:
  "link_relocation symbols [placed_section] (0, sample_object, start_relocation) = Inr [relocated_section]"
proof -
  have t: "symbol_address [placed_section] symbols 0 start_symbol = Inr 8"
    by (simp add: symbol_address_def object_find)
  have w: "write32 [18, 0, 0, 0, 255, 0, 0, 0] 4 11 = [18, 0, 0, 0, 11, 0, 0, 0]"
  proof -
    have n: "4 = Suc (Suc (Suc (Suc 0)))" by simp
    have four: "le_write wr 4 a v s =
        wr (wr (wr (wr s a (le_byte v 0)) (a + 1) (le_byte v 1)) (a + 2) (le_byte v 2)) (a + 3) (le_byte v 3)"
      for wr :: "u8 list \<Rightarrow> nat \<Rightarrow> u8 \<Rightarrow> u8 list" and a v s
      unfolding n le_write_Suc le_write_0 by (simp add: numeral_2_eq_2 numeral_3_eq_3)
    show ?thesis by (simp add: write32_def four le_byte_def)
  qed
  show ?thesis
    using object_has_data
    by (subst link_relocation_Inr, simp)
      (simp add: start_relocation_def object_find t relocation_value_def relocation_fits_def limits
        relocated_section_def w image_consts)
qed

lemma relocated_section_fields [simp]:
  "sec_address (ls_image relocated_section) = 8" "sec_data_size (ls_image relocated_section) = 8"
  "sec_type (ls_image relocated_section) = ZL_IMAGE_SECTION_TEXT"
  "sec_data (ls_image relocated_section) = Some [18, 0, 0, 0, 11, 0, 0, 0]"
  "sec_name (ls_image relocated_section) = Some [46, 116]"
  "sec_alignment (ls_image relocated_section) = 4"
  by (simp_all add: relocated_section_def placed_section_def moved_def object_link_section_def object_section_def)

abbreviation linked_executable :: zl_image where
  "linked_executable \<equiv> executable_image 8 [relocated_section]"

lemma valid_linked_executable: "image_mem_ok linked_executable" "valid_image linked_executable"
proof -
  have s: "section_ok (ls_image relocated_section)" "section_mem_ok (ls_image relocated_section)"
    by (simp_all add: section_ok_def section_mem_ok_def valid_alignment_def image_consts c_string_ok_def
        c_name_def limits)
  then show "image_mem_ok linked_executable" by (simp add: executable_mem_ok)
  show "valid_image linked_executable"
    using s by (simp add: valid_image_def entry_found_def image_consts)
     (simp add: executable_image_def zero_image_def null_arrays_def)
qed

lemma length_linked_layout: "length (image_layout linked_executable) = 92"
proof -
  have "arrays_ok linked_executable"
    by (simp add: arrays_ok_def) (simp add: executable_image_def zero_image_def c_array_def)
  moreover have "length (string_table linked_executable) = 4"
    by (simp add: string_table_def entry_name_def section_names_def name_bytes_def c_name_def image_consts)
      (simp add: symbol_names_def executable_image_def zero_image_def c_array_def)
  moreover have "length (payloads [ls_image relocated_section]) = 8"
    by (simp add: payloads_def section_payload_def image_consts c_array_def)
  ultimately show ?thesis
    by (simp add: length_image_layout) (simp add: executable_image_def zero_image_def)
qed

lemma object_link:
  "zl_link_objects (\<lambda>n. True) (Some [(Some object_bytes, 138)]) None = Inr (image_layout linked_executable)"
proof -
  have r: "all_relocations [sample_object] = [(0, sample_object, start_relocation)]"
    by (simp add: all_relocations_def)
  have e: "entry_address (selected_entry None [sample_object]) [start_symbol\<lparr>sym_value := 8\<rparr>] = 8"
    by (simp add: entry_address_def selected_entry_def c_name_def) (simp add: defined_def image_consts)
  have x: "zl_image_encode (\<lambda>n. True) (Some linked_executable) = Inr (image_layout linked_executable)"
    by (simp add: zl_image_encode_Inr valid_linked_executable length_linked_layout limits)
  show ?thesis
    by (simp add: zl_link_objects_def object_decoded object_placed object_symbols object_symbol_table r
        object_relocation e x del: try_fold.simps(2) try_map.simps) (simp add: object_relocation e x)
qed

section \<open>Witnesses\<close>

theorem link_layout_exact_witness: "layout_ok (place_all 8 (all_sections [sample_object]))"
  using link_layout_exact [of "[sample_object]" "[placed_section]"] object_placed
  by (simp add: object_all_sections) (simp add: object_link_section_def object_section_def valid_alignment_def)

theorem link_symbols_exact_witness:
  "try_fold (link_symbol [placed_section]) [] [(0, start_symbol), (0, start_symbol)] \<noteq>
    Inr [start_symbol\<lparr>sym_value := 8\<rparr>, start_symbol\<lparr>sym_value := 8\<rparr>]"
  using link_symbols_exact [of "[placed_section]" "[(0, start_symbol), (0, start_symbol)]"
      "[start_symbol\<lparr>sym_value := 8\<rparr>, start_symbol\<lparr>sym_value := 8\<rparr>]"]
  by (simp add: object_linked compatible_def global_definition_def defined_def)
    (simp add: start_symbol_def image_consts)

theorem link_relocation_stores_witness:
  "\<exists>data'. relocated_section = with_data placed_section data' \<and> uint (get32 data' 4) = 11"
  using link_relocation_stores [OF _ object_relocation [of "[]"]] object_has_data
  by (simp add: start_relocation_def object_find symbol_address_def image_consts) blast

theorem link_then_load_witness:
  "\<exists>vm'. vm_loadImage (\<lambda>n. True) (Some sample_vm) (Some (image_layout linked_executable))
      (length (image_layout linked_executable)) = (Some vm', ZL_IMAGE_ERROR_NONE)"
  using link_then_load [OF object_link, of sample_vm "\<lambda>n. True"] length_object_bytes by auto

theorem global_symbol_address_witness:
  "\<exists>z. link_symbol [placed_section] [] (0, start_symbol\<lparr>sym_value := 0xFFFFFFFF\<rparr>) = Inr [z] \<and>
     symbol_address [placed_section] [z] 1
       (start_symbol\<lparr>sym_section_index := ZL_IMAGE_UNDEFINED_SECTION\<rparr>) = Inr 7 \<and>
     symbol_address [placed_section] [z] 0 (start_symbol\<lparr>sym_value := 0xFFFFFFFF\<rparr>) = Inr 0x100000007"
  using global_symbol_address [of "start_symbol\<lparr>sym_value := 0xFFFFFFFF\<rparr>" "[placed_section]" 0 0 "[]"
      "start_symbol\<lparr>sym_section_index := ZL_IMAGE_UNDEFINED_SECTION\<rparr>" "[]" 1]
  by (simp add: object_find) (simp add: start_symbol_def defined_def image_consts)

end
