(* ===== verification/Lexer_Facts.thy ===== *)
theory Lexer_Facts
  imports Lexer
begin

text \<open>
  Properties of the lexer: integer literals mean what their digits say, and the tokens of a source
  cover it, in order, at the positions they report.
\<close>

section \<open>Integer values\<close>

text \<open>The number a list of digits stands for, in a base.\<close>

fun digits_value :: "nat \<Rightarrow> nat \<Rightarrow> string \<Rightarrow> nat option" where
  "digits_value base v [] = Some v"
| "digits_value base v (c # cs) =
     (case digit_of c of
        None \<Rightarrow> None
      | Some d \<Rightarrow> if d < base then digits_value base (v * base + d) cs else None)"

lemma digits_value_mono: "digits_value base v cs = Some r \<Longrightarrow> 1 \<le> base \<Longrightarrow> v \<le> r"
proof (induction cs arbitrary: v)
  case (Cons c cs)
  then obtain d where d: "digit_of c = Some d" "d < base" "digits_value base (v * base + d) cs = Some r"
    by (auto split: option.splits if_splits)
  have "v \<le> v * base + d" using Cons.prems(2) by (simp add: trans_le_add1)
  also have "\<dots> \<le> r" using Cons.IH d(3) Cons.prems(2) by blast
  finally show ?case .
qed simp

lemma overflow_check:
  fixes base d :: nat
  assumes "v < 2 ^ 64" "d < base" "2 \<le> base" "base \<le> 16"
  shows "(of_nat v :: u64) > (- 1 - of_nat d) div of_nat base \<longleftrightarrow> v * base + d \<ge> 2 ^ 64"
proof -
  have b: "unat (of_nat base :: u64) = base" using assms by (simp add: unat_of_nat)
  have "(- 1 - of_nat d :: u64) = of_nat (2 ^ 64 - 1 - d)"
    using assms by (simp add: of_nat_diff)
  then have d: "unat (- 1 - of_nat d :: u64) = 2 ^ 64 - 1 - d"
    using assms by (simp add: unat_of_nat del: of_nat_diff)
  have v: "unat (of_nat v :: u64) = v" using assms by (simp add: unat_of_nat)
  have "(of_nat v :: u64) > (- 1 - of_nat d) div of_nat base \<longleftrightarrow> v > (2 ^ 64 - 1 - d) div base"
    by (simp only: word_less_nat_alt unat_div b d v)
  also have "\<dots> \<longleftrightarrow> 2 ^ 64 - 1 - d < v * base"
    using assms by (subst div_less_iff_less_mult) simp_all
  also have "\<dots> \<longleftrightarrow> v * base + d \<ge> 2 ^ 64" using assms by auto
  finally show ?thesis .
qed

lemma int_value_loop_exact:
  assumes "v < 2 ^ 64" "2 \<le> base" "base \<le> 16"
  shows "int_value_loop tok base (of_nat v) cs = Inr w \<longleftrightarrow>
    (\<exists>r. digits_value base v cs = Some r \<and> r < 2 ^ 64 \<and> w = of_nat r)"
  using assms
proof (induction cs arbitrary: v)
  case Nil
  then show ?case by auto
next
  case (Cons c cs)
  show ?case
  proof (cases "digit_of c")
    case None
    then show ?thesis by simp
  next
    case (Some d)
    show ?thesis
    proof (cases "d < base \<and> v * base + d < 2 ^ 64")
      case True
      then have "int_value_loop tok base (of_nat v) (c # cs) = int_value_loop tok base (of_nat (v * base + d)) cs"
        using overflow_check [of v d base] Cons.prems Some by simp
      then show ?thesis using Cons.IH [of "v * base + d"] Cons.prems True Some by simp
    next
      case False
      show ?thesis
      proof (cases "d < base")
        case True
        with False have "2 ^ 64 \<le> v * base + d" by simp
        then have "digits_value base (v * base + d) cs = Some r \<Longrightarrow> 2 ^ 64 \<le> r" for r
          using digits_value_mono [of base "v * base + d" cs r] Cons.prems by linarith
        then show ?thesis
          using True overflow_check [of v d base] Cons.prems Some \<open>2 ^ 64 \<le> v * base + d\<close>
          by (fastforce simp: not_less)
      qed (simp add: Some)
    qed
  qed
qed

lemma token_base_bounds: "token_base ty = Some base \<Longrightarrow> 2 \<le> base \<and> base \<le> 16"
  by (cases ty) auto

lemma token_int_value_Inr:
  assumes "token_base (tok_type t) = Some base"
  shows "token_get_int_value t = Inr w \<longleftrightarrow>
    tok_value t \<noteq> [] \<and> (\<exists>r. digits_value base 0 (tok_value t) = Some r \<and> r < 2 ^ 64 \<and> w = of_nat r)"
  using int_value_loop_exact [of 0 base t "tok_value t" w] token_base_bounds [OF assms] assms
  by (simp add: token_get_int_value_def)

text \<open>The digits of a number, most significant first.\<close>

fun digits :: "nat \<Rightarrow> nat \<Rightarrow> nat list" where
  "digits base n = (if n < base \<or> base < 2 then [n] else digits base (n div base) @ [n mod base])"

declare digits.simps [simp del]

definition digit_char :: "nat \<Rightarrow> char" where
  "digit_char d = (if d < 10 then char_of (d + 48) else char_of (d + 87))"

definition number_string :: "nat \<Rightarrow> nat \<Rightarrow> string" where
  "number_string base n = map digit_char (digits base n)"

lemma digit_of_char: "d < 16 \<Longrightarrow> digit_of (digit_char d) = Some d"
  by (auto simp: digit_of_def digit_char_def Let_def)

lemma digits_value_append:
  "digits_value base v (xs @ ys) = Option.bind (digits_value base v xs) (\<lambda>v. digits_value base v ys)"
  by (induction xs arbitrary: v) (simp_all split: option.split)

lemma digits_value_number_string:
  "2 \<le> base \<Longrightarrow> base \<le> 16 \<Longrightarrow> digits_value base 0 (number_string base n) = Some n"
proof (induction base n rule: digits.induct)
  case (1 base n)
  show ?case
  proof (cases "n < base")
    case True
    then have "number_string base n = [digit_char n]" by (simp add: number_string_def digits.simps [of base n])
    then show ?thesis using True 1(3) by (simp add: digit_of_char)
  next
    case False
    then have "number_string base n = number_string base (n div base) @ [digit_char (n mod base)]"
      using 1(2) by (simp add: number_string_def digits.simps [of base n])
    moreover have "digit_of (digit_char (n mod base)) = Some (n mod base)" "n mod base < base"
      using 1(2,3) by (auto intro!: digit_of_char intro: less_le_trans [OF mod_less_divisor])
    ultimately show ?thesis
      using 1 False by (simp add: digits_value_append)
  qed
qed

lemma token_int_value_cases:
  assumes "token_base (tok_type t) = Some base" "tok_value t \<noteq> []"
  shows "token_get_int_value t =
    (case digits_value base 0 (tok_value t) of
       Some r \<Rightarrow> if r < 2 ^ 64 then Inr (of_nat r)
                 else asm_token_fail ZLASM_DIAGNOSTIC_NUMBER_OVERFLOW (Some t)
     | None \<Rightarrow> token_get_int_value t) \<and>
    (digits_value base 0 (tok_value t) = None \<longrightarrow> (\<exists>d. token_get_int_value t = Inl d))"
proof -
  note b = token_base_bounds [OF assms(1)]
  have over: "digits_value base v cs = Some r \<Longrightarrow> 2 ^ 64 \<le> r \<Longrightarrow> v < 2 ^ 64 \<Longrightarrow>
      int_value_loop t base (of_nat v) cs = asm_token_fail ZLASM_DIAGNOSTIC_NUMBER_OVERFLOW (Some t)" for v cs r
  proof (induction cs arbitrary: v)
    case (Cons c cs)
    then obtain d where d: "digit_of c = Some d" "d < base" "digits_value base (v * base + d) cs = Some r"
      by (auto split: option.splits if_splits)
    then show ?case
      using overflow_check [of v d base] Cons.prems Cons.IH [of "v * base + d"] b
      by (cases "v * base + d < 2 ^ 64") simp_all
  qed simp
  show ?thesis
  proof (cases "digits_value base 0 (tok_value t)")
    case None
    then have "\<nexists>w. token_get_int_value t = Inr w" using token_int_value_Inr [OF assms(1)] by simp
    then show ?thesis using None by (cases "token_get_int_value t") auto
  next
    case (Some r)
    then show ?thesis
      using token_int_value_Inr [OF assms(1), of "of_nat r"] over [OF Some] assms
      by (cases "r < 2 ^ 64") (auto simp: token_get_int_value_def)
  qed
qed

section \<open>Positions in the source\<close>

text \<open>The line and column of a position, counted from 1.\<close>

definition line_of :: "string \<Rightarrow> nat \<Rightarrow> nat" where
  "line_of s p = 1 + length (filter (\<lambda>c. c = CHR 0x0A) (take p s))"

definition col_of :: "string \<Rightarrow> nat \<Rightarrow> nat" where
  "col_of s p = 1 + length (takeWhile (\<lambda>c. c \<noteq> CHR 0x0A) (rev (take p s)))"

definition located :: "lexer \<Rightarrow> bool" where
  "located st \<longleftrightarrow> lx_pos st \<le> length (lx_source st) \<and>
     lx_line st = line_of (lx_source st) (lx_pos st) \<and> lx_col st = col_of (lx_source st) (lx_pos st)"

lemma located_init: "located (lexer_init source)"
  by (simp add: located_def lexer_init_def line_of_def col_of_def)

lemma located_next: "located st \<Longrightarrow> located (lexer_nextChar st)"
  by (auto simp: located_def lexer_nextChar_def line_of_def col_of_def take_Suc_conv_app_nth)

lemma located_scans: "located st \<Longrightarrow> scans st e \<Longrightarrow> located e"
proof -
  assume "located st" "scans st e"
  then obtain n where "e = (lexer_nextChar ^^ n) st" by (auto simp: scans_def)
  moreover have "located ((lexer_nextChar ^^ n) st)"
    using \<open>located st\<close> by (induction n) (simp_all add: located_next)
  ultimately show "located e" by simp
qed

lemma lexer_while_all:
  "lx_pos st \<le> i \<Longrightarrow> i < lx_pos (lexer_while P st) \<Longrightarrow> P (lx_source st ! i)"
proof (induction P st rule: lexer_while.induct)
  case (1 P st)
  show ?case
  proof (cases "lx_pos st < length (lx_source st) \<and> P (lexer_peekChar st)")
    case True
    then have w: "lexer_while P st = lexer_while P (lexer_nextChar st)" by (subst lexer_while.simps) simp
    show ?thesis
    proof (cases "i = lx_pos st")
      case True
      then show ?thesis using \<open>lx_pos st < _ \<and> _\<close> by (auto simp: lexer_peekChar_def)
    next
      case False
      then show ?thesis using "1.IH" True "1.prems" w by (simp add: lexer_nextChar_pos)
    qed
  next
    case False
    then have "lexer_while P st = st" by (subst lexer_while.simps) auto
    then show ?thesis using "1.prems" by simp
  qed
qed


section \<open>The tokens of a source\<close>

text \<open>The source text a token stands for: its value is a stretch of its range, without the digit
  separators for a number, and a number has a value.\<close>

definition token_end :: "token \<Rightarrow> nat" where
  "token_end t = tok_pos t + tok_source_size t"

definition token_ok :: "string \<Rightarrow> token \<Rightarrow> bool" where
  "token_ok src t \<longleftrightarrow> tok_pos t < token_end t \<and> token_end t \<le> length src \<and>
     tok_line t = line_of src (tok_pos t) \<and> tok_col t = col_of src (tok_pos t) \<and>
     (\<exists>a b. tok_pos t \<le> a \<and> a \<le> b \<and> b \<le> token_end t \<and>
        tok_value t = (if token_base (tok_type t) = None then source_slice src a b
                       else remove_digit_delimiters (source_slice src a b))) \<and>
     (token_base (tok_type t) \<noteq> None \<longrightarrow> (\<exists>v. token_get_int_value t = Inr v))"

text \<open>The tokens up to a position: in order, apart, and nothing but blanks between them.\<close>

definition tokens_cover :: "string \<Rightarrow> nat \<Rightarrow> token list \<Rightarrow> bool" where
  "tokens_cover src p ts \<longleftrightarrow>
     (\<forall>t \<in> set ts. token_ok src t \<and> token_end t \<le> p) \<and>
     sorted_wrt (\<lambda>t u. token_end t \<le> tok_pos u) ts \<and>
     (\<forall>i < p. (\<exists>t \<in> set ts. tok_pos t \<le> i \<and> i < token_end t) \<or> is_ignored_char (src ! i))"

lemma finish_token_fields:
  assumes "finish_token t = Inr t'"
  shows "t' = t\<lparr>tok_value := (if token_base (tok_type t) = None then tok_value t
      else remove_digit_delimiters (tok_value t))\<rparr>"
    "token_base (tok_type t) \<noteq> None \<Longrightarrow> \<exists>v. token_get_int_value t' = Inr v"
  using assms by (auto simp: finish_token_def sbind_Inr Let_def split: option.splits)

definition top_level :: "lexer \<Rightarrow> bool" where
  "top_level st \<longleftrightarrow> lx_source_pos st = 0 \<and> lx_source_line st = 1 \<and> lx_source_col st = 1"

lemma make_token_ok:
  assumes "located s" "top_level s" "scan_ok s (ty, a, b, e)" "lx_pos s < length (lx_source s)"
    "finish_token (make_token s e ty (source_slice (lx_source s) a b)) = Inr t"
  shows "token_ok (lx_source s) t \<and> tok_pos t = lx_pos s \<and> token_end t = lx_pos e"
proof -
  note f = finish_token_fields [OF assms(5)]
  have se: "lx_pos s < lx_pos e" "lx_pos s \<le> a" "a \<le> b" "b \<le> lx_pos e" "lx_pos e \<le> length (lx_source s)"
    using assms(3,4) by (auto simp: scan_ok_def scans_def)
  have line: "lx_line s \<ge> 1" "lx_col s \<ge> 1" "lx_line s = line_of (lx_source s) (lx_pos s)"
    "lx_col s = col_of (lx_source s) (lx_pos s)"
    using assms(1) by (simp_all add: located_def line_of_def col_of_def)
  have pos: "tok_pos t = lx_pos s" "token_end t = lx_pos e" "tok_type t = ty"
    using se assms(2) by (simp_all add: f(1) make_token_def token_end_def top_level_def)
  have loc: "tok_line t = lx_line s" "tok_col t = lx_col s"
    using line(1,2) assms(2) by (simp_all add: f(1) make_token_def top_level_def)
  have val: "tok_value t = (if token_base ty = None then source_slice (lx_source s) a b
      else remove_digit_delimiters (source_slice (lx_source s) a b))"
    by (simp add: f(1) make_token_def)
  have num: "token_base ty \<noteq> None \<Longrightarrow> \<exists>v. token_get_int_value t = Inr v"
    using f(2) by (simp add: make_token_def)
  have "\<exists>x y. tok_pos t \<le> x \<and> x \<le> y \<and> y \<le> token_end t \<and>
      tok_value t = (if token_base (tok_type t) = None then source_slice (lx_source s) x y
        else remove_digit_delimiters (source_slice (lx_source s) x y))"
    using se pos val by (intro exI [of _ a] exI [of _ b]) simp
  then show ?thesis
    unfolding token_ok_def using se line(3,4) pos loc num by simp
qed

lemma readToken_cover:
  assumes "lexer_readToken st = Inr (st', Some t)" "located st" "top_level st"
    "tokens_cover (lx_source st) (lx_pos st) (lx_tokens st)"
  shows "located st' \<and> top_level st' \<and> lx_source st' = lx_source st \<and>
    tokens_cover (lx_source st) (lx_pos st') (lx_tokens st')"
proof -
  obtain s ty a b e where h: "s = lexer_while is_ignored_char st" "lexer_scan s = Inr (ty, a, b, e)"
    "scan_ok s (ty, a, b, e)" "lx_pos s < length (lx_source s)"
    "finish_token (make_token s e ty (source_slice (lx_source st) a b)) = Inr t"
    "st' = e\<lparr>lx_tokens := lx_tokens st @ [t]\<rparr>"
    using lexer_readToken_Some [OF assms(1)] by metis
  have ss: "scans st s" by (simp add: h(1))
  have se: "scans s e" using h(3) by (simp add: scan_ok_def)
  have src: "lx_source s = lx_source st" "lx_source e = lx_source st" "lx_pos st \<le> lx_pos s" "lx_pos s \<le> lx_pos e"
    using ss se by (auto simp: scans_def)
  have s: "located s" "top_level s"
    using located_scans [OF assms(2) ss] ss assms(3) by (auto simp: scans_def top_level_def)
  have e: "located e" "top_level e"
    using located_scans [OF s(1) se] se s(2) by (auto simp: scans_def top_level_def)
  have t: "token_ok (lx_source st) t" "tok_pos t = lx_pos s" "token_end t = lx_pos e"
    using make_token_ok [OF s h(3,4)] h(5) src by auto
  have gap: "is_ignored_char (lx_source st ! i)" if "lx_pos st \<le> i" "i < lx_pos s" for i
    using lexer_while_all that unfolding h(1) by blast
  have "tokens_cover (lx_source st) (lx_pos e) (lx_tokens st @ [t])"
    unfolding tokens_cover_def
  proof (intro conjI ballI allI impI)
    fix u assume "u \<in> set (lx_tokens st @ [t])"
    then show "token_ok (lx_source st) u" "token_end u \<le> lx_pos e"
      using assms(4) t src by (auto simp: tokens_cover_def)
  next
    show "sorted_wrt (\<lambda>t u. token_end t \<le> tok_pos u) (lx_tokens st @ [t])"
      using assms(4) t src by (auto simp: tokens_cover_def sorted_wrt_append)
  next
    fix i assume "i < lx_pos e"
    then consider "i < lx_pos st" | "lx_pos st \<le> i" "i < lx_pos s" | "lx_pos s \<le> i" by linarith
    then show "(\<exists>t \<in> set (lx_tokens st @ [t]). tok_pos t \<le> i \<and> i < token_end t) \<or>
        is_ignored_char (lx_source st ! i)"
    proof cases
      case 1
      then show ?thesis using assms(4) by (auto simp: tokens_cover_def)
    next
      case 2
      then show ?thesis using gap by blast
    next
      case 3
      then show ?thesis using t \<open>i < lx_pos e\<close> by auto
    qed
  qed
  then show ?thesis using e src by (simp add: h(6) located_def top_level_def)
qed

lemma readAll_cover:
  "lexer_readAll st = Inr st' \<Longrightarrow> located st \<Longrightarrow> top_level st \<Longrightarrow>
     tokens_cover (lx_source st) (lx_pos st) (lx_tokens st) \<Longrightarrow>
     tokens_cover (lx_source st) (length (lx_source st)) (lx_tokens st')"
proof (induction st rule: lexer_readAll.induct)
  case (1 st)
  show ?case
  proof (cases "lexer_readToken st")
    case (Inl d)
    then show ?thesis using "1.prems" by (subst (asm) lexer_readAll.simps) simp
  next
    case (Inr r)
    then obtain s tok where r: "lexer_readToken st = Inr (s, tok)" by (cases r) simp
    show ?thesis
    proof (cases tok)
      case None
      then have s: "st' = s" "s = lexer_while is_ignored_char st" "is_eof (lexer_peekChar s)"
        using "1.prems"(1) r
        by (subst (asm) lexer_readAll.simps, auto simp: lexer_readToken_def Let_def sbind_Inr split: if_splits)+
      have sc: "scans st s" by (simp add: s(2))
      then have src: "lx_source s = lx_source st" "lx_tokens s = lx_tokens st" "lx_pos st \<le> lx_pos s"
        "lx_pos s \<le> length (lx_source st)"
        using "1.prems"(2) by (auto simp: scans_def located_def)
      have gap: "is_ignored_char (lx_source st ! i)" if "lx_pos st \<le> i" "i < length (lx_source st)" for i
      proof (cases "i < lx_pos s")
        case True
        then show ?thesis using lexer_while_all that(1) unfolding s(2) by blast
      next
        case False
        then have "lx_pos s < length (lx_source st)" using that by simp
        moreover from this have "\<not> is_ignored_char (lexer_peekChar s)"
          using lexer_while_stops [of is_ignored_char st] src(1) unfolding s(2) by simp
        ultimately show ?thesis using s(3) by (simp add: is_ignored_char_def)
      qed
      show ?thesis
        using "1.prems"(2,4) gap unfolding s(1) src(2) tokens_cover_def located_def
        by (meson le_trans not_le)
    next
      case (Some t)
      then have "lexer_readAll s = Inr st'"
        using "1.prems"(1) r by (subst (asm) lexer_readAll.simps) simp
      then show ?thesis
        using "1.IH" [OF r [unfolded Some] refl] readToken_cover [of st s t] "1.prems" r Some by simp
    qed
  qed
qed

section \<open>Properties\<close>

text \<open>C17: An integer literal has the value its digits stand for in its base when that fits in 64 bits,
  and is refused as an overflow when it does not; a character that is no digit of the base is refused;
  and the digits of any number, printed in the base, are read back as that number.\<close>

theorem integer_literals_exact:
  assumes "token_base (tok_type t) = Some base" "tok_value t \<noteq> []"
  shows "(digits_value base 0 (tok_value t) = Some r \<longrightarrow> token_get_int_value t =
      (if r < 2 ^ 64 then Inr (of_nat r) else asm_token_fail ZLASM_DIAGNOSTIC_NUMBER_OVERFLOW (Some t))) \<and>
    (digits_value base 0 (tok_value t) = None \<longrightarrow> (\<exists>d. token_get_int_value t = Inl d)) \<and>
    digits_value base 0 (number_string base n) = Some n"
  using token_int_value_cases [OF assms] token_base_bounds [OF assms(1)]
    digits_value_number_string [of base n] by auto

text \<open>C16: The lexer terminates on every source; when it accepts, its tokens lie in the source in order
  and apart, each at the line and column it reports, every other character is a blank, the value of
  each is text of its range, and every number token has a 64-bit value.\<close>

theorem lexer_tokens_cover:
  assumes "lexer_readAll (lexer_init source) = Inr st"
  shows "tokens_cover source (length source) (lx_tokens st)"
proof -
  have "tokens_cover source 0 []" by (simp add: tokens_cover_def)
  then show ?thesis
    using readAll_cover [OF assms located_init] by (simp add: lexer_init_def top_level_def)
qed

end
