(* ===== verification/Asm_Layout.thy ===== *)
theory Asm_Layout
  imports Assembler Loader
begin

text \<open>
  The raw translation: where the bytes of each line end up, what the label table holds, what a
  statement's eight bytes mean, and that the machine executes a statement as what it says.
\<close>

section \<open>Sizes and addresses\<close>

text \<open>The bytes a list of lines emits.\<close>

definition lines_size :: "line list \<Rightarrow> nat" where
  "lines_size ls = sum_list (map (\<lambda>l. content_size (ln_content l)) ls)"

lemma lines_size_simps [simp]:
  "lines_size [] = 0" "lines_size (l # ls) = content_size (ln_content l) + lines_size ls"
  "lines_size (ls @ ks) = lines_size ls + lines_size ks"
  by (simp_all add: lines_size_def)

text \<open>The lines that define a label, with the addresses of their first bytes.\<close>

fun label_addresses :: "nat \<Rightarrow> line list \<Rightarrow> (string \<times> nat) list" where
  "label_addresses address [] = []"
| "label_addresses address (l # ls) =
     (case ln_label l of None \<Rightarrow> [] | Some name \<Rightarrow> [(name, address)]) @
     label_addresses (address + content_size (ln_content l)) ls"

lemma setOrCreate_new:
  "map_of table name = None \<Longrightarrow> labelTable_setOrCreate table name address = table @ [(name, address)]"
  by (induction table name address rule: labelTable_setOrCreate.induct) (auto split: if_splits)

lemma process_labels_eq:
  "try_fold process_label (table, address) ls = Inr (table', address') \<Longrightarrow>
     distinct (map fst table) \<Longrightarrow>
     table' = table @ label_addresses address ls \<and> address' = address + lines_size ls \<and>
     distinct (map fst table')"
proof (induction ls arbitrary: table address)
  case (Cons l ls)
  from Cons.prems(1) obtain st where st: "process_label (table, address) l = Inr st"
    "try_fold process_label st ls = Inr (table', address')"
    by (auto simp only: try_fold_Cons_Inr)
  from st(1) obtain t where "st = (t, address + content_size (ln_content l))"
    by (auto simp: process_label_def sbind_Inr)
  with st have t: "try_fold process_label (t, address + content_size (ln_content l)) ls = Inr (table', address')"
    and step: "process_label (table, address) l = Inr (t, address + content_size (ln_content l))"
    by simp_all
  have "t = table @ (case ln_label l of None \<Rightarrow> [] | Some name \<Rightarrow> [(name, address)])" "distinct (map fst t)"
    using step Cons.prems(2)
    by (auto simp: process_label_def sbind_Inr labelInfo_getIfExist_def setOrCreate_new map_of_eq_None_iff
        split: option.splits if_splits)
  moreover from Cons.IH [OF t this(2)] have "table' = t @ label_addresses (address + content_size (ln_content l)) ls"
    "address' = address + content_size (ln_content l) + lines_size ls" "distinct (map fst table')" by blast+
  ultimately show ?case by simp
qed simp

lemma labels_of_lines:
  assumes "asm_processLabels c = Inr c'"
  shows "ac_labels c' = label_addresses 0 (ac_lines c)" "distinct (map fst (label_addresses 0 (ac_lines c)))"
    "ac_lines c' = ac_lines c"
  using assms process_labels_eq [of "[]" 0 "ac_lines c"]
  by (auto simp: asm_processLabels_def sbind_Inr)

lemma label_addresses_append:
  "label_addresses a (ls @ ks) = label_addresses a ls @ label_addresses (a + lines_size ls) ks"
  by (induction ls arbitrary: a) (simp_all add: add.assoc)

lemma split_Cons:
  "(\<exists>pre l post. k # ls = pre @ l # post \<and> P pre l) \<longleftrightarrow>
     P [] k \<or> (\<exists>pre l post. ls = pre @ l # post \<and> P (k # pre) l)"
  by (simp add: Cons_eq_append_conv) blast

lemma label_addresses_set:
  "(name, address) \<in> set (label_addresses a ls) \<longleftrightarrow>
     (\<exists>pre l post. ls = pre @ l # post \<and> ln_label l = Some name \<and> address = a + lines_size pre)"
proof (induction ls arbitrary: a)
  case (Cons k ls)
  show ?case
    unfolding split_Cons using Cons.IH [of "a + content_size (ln_content k)"]
    by (cases "ln_label k") (auto simp: add.assoc)
qed simp

text \<open>A label's table entry is the address of the line that defines it.\<close>

lemma label_address:
  assumes "asm_processLabels c = Inr c'"
  shows "labelInfo_getIfExist (ac_labels c') name = Some address \<longleftrightarrow>
    (\<exists>pre l post. ac_lines c = pre @ l # post \<and> ln_label l = Some name \<and> address = lines_size pre)"
  using labels_of_lines [OF assms] label_addresses_set [of name address 0 "ac_lines c"]
  by (simp add: labelInfo_getIfExist_def)

section \<open>The bytes of a line\<close>

lemma make_instruction_encodes:
  "instruction_encode (Some (replicate 8 0)) 8 (Some (make_instruction op cond r1 r2 imm)) =
     Some (encoded (make_instruction op cond r1 r2 imm))"
  "length (encoded (make_instruction op cond r1 r2 imm)) = 8"
  using index_of_less [OF in_opcodes, of op] index_of_less [OF in_conditions, of cond]
  by (simp_all add: encoded_def instruction_encode_def ZLVM_INSTRUCTION_SIZE_def make_instruction_def
      opcode_code_def condition_code_def length_opcodes length_conditions unsigned_of_nat
      take_bit_nat_eq_self OPCODE_TOTAL_def C_TOTAL_def)

lemma encode_or_fail_eq [simp]:
  "encode_or_fail (make_instruction op cond r1 r2 imm) = Inr (encoded (make_instruction op cond r1 r2 imm))"
  by (simp add: encode_or_fail_def ZLVM_INSTRUCTION_SIZE_def make_instruction_encodes)

text \<open>What a statement says: its opcode, condition, registers and immediate.\<close>

definition says ::
  "(string \<times> nat) list \<Rightarrow> statement \<Rightarrow> opcode \<Rightarrow> condition \<Rightarrow> register \<Rightarrow> register \<Rightarrow> u32 \<Rightarrow> bool" where
  "says labels s op cond r1 r2 imm \<longleftrightarrow>
     opcode_of (string_to_opcode (line_to_upper (tok_value (st_opcode s)))) = Some op \<and>
     validate_operands op s = Inr () \<and>
     parse_optional parse_condition C_UNCONDITIONAL (st_cond s) = Inr cond \<and>
     parse_optional parse_register R_ZERO (st_reg1 s) = Inr r1 \<and>
     parse_optional parse_register R_ZERO (st_reg2 s) = Inr r2 \<and> raw_immediate labels (st_imm s) = Inr imm"

lemma translate_statement_Inr:
  "translate_statement labels s = Inr bs \<longleftrightarrow>
     (\<exists>op cond r1 r2 imm. says labels s op cond r1 r2 imm \<and> bs = encoded (make_instruction op cond r1 r2 imm))"
  by (auto simp: translate_statement_def says_def sbind_Inr split: option.splits)

lemma translate_content_size:
  "translate_content labels k = Inr bs \<Longrightarrow> length bs = content_size k"
  by (auto simp: translate_content_def content_size_def translate_statement_Inr make_instruction_encodes
      ZLVM_INSTRUCTION_SIZE_def split: line_content.splits)

lemma translate_lines:
  "try_fold (translate_line labels) result ls = Inr code \<Longrightarrow>
     \<exists>bss. list_all2 (\<lambda>l bs. translate_content labels (ln_content l) = Inr bs) ls bss \<and>
        code = result @ concat bss"
proof (induction ls arbitrary: result)
  case (Cons l ls)
  from Cons.prems obtain r where r: "translate_line labels result l = Inr r"
    "try_fold (translate_line labels) r ls = Inr code"
    by (auto simp only: try_fold_Cons_Inr)
  from r(1) obtain bs where "translate_content labels (ln_content l) = Inr bs" "r = result @ bs"
    by (auto simp: translate_line_def sbind_Inr split: if_splits)
  with r(2) have bs: "translate_content labels (ln_content l) = Inr bs"
    "try_fold (translate_line labels) (result @ bs) ls = Inr code" by simp_all
  then show ?case using Cons.IH [OF bs(2)] by (auto simp: list_all2_Cons1)
qed simp

lemma translated_size:
  "list_all2 (\<lambda>l bs. translate_content labels (ln_content l) = Inr bs) ls bss \<Longrightarrow>
     length (concat bss) = lines_size ls"
  by (induction ls bss rule: list_all2_induct) (simp_all add: translate_content_size)

text \<open>The translation is the lines' bytes one after another.\<close>

lemma asm_translate_line:
  assumes "asm_translate c = Inr code" "ac_lines c = pre @ l # post"
  obtains bs where "translate_content (ac_labels c) (ln_content l) = Inr bs"
    "length bs = content_size (ln_content l)" "take (length bs) (drop (lines_size pre) code) = bs"
    "length code = lines_size (ac_lines c)"
proof -
  from assms(1) obtain bss where
    b: "list_all2 (\<lambda>l bs. translate_content (ac_labels c) (ln_content l) = Inr bs) (pre @ l # post) bss"
      "code = concat bss"
    using translate_lines unfolding asm_translate_def assms(2) by fastforce
  then obtain xs bs ys where x: "bss = xs @ bs # ys"
    "list_all2 (\<lambda>l bs. translate_content (ac_labels c) (ln_content l) = Inr bs) pre xs"
    "translate_content (ac_labels c) (ln_content l) = Inr bs"
    by (auto simp: list_all2_append1 list_all2_Cons1)
  then show thesis
    using that [of bs] b translated_size [OF x(2)] translated_size [OF b(1)] translate_content_size
    by (simp add: assms(2))
qed

text \<open>C12: A raw translation lays the lines out one after another with nothing between: each line's
  bytes, the encoding of its statement or its data, stand where the sizes of the lines before it add
  up to; the label table holds exactly the labels of the lines, each with that address of its line;
  and the code is as long as the lines together.\<close>

theorem asm_translate_layout:
  assumes "asm_processLabels c = Inr c'" "asm_translate c' = Inr code"
  shows "length code = lines_size (ac_lines c) \<and>
    (\<forall>pre l post. ac_lines c = pre @ l # post \<longrightarrow>
       (\<exists>bs. translate_content (ac_labels c') (ln_content l) = Inr bs \<and>
          take (content_size (ln_content l)) (drop (lines_size pre) code) = bs)) \<and>
    (\<forall>name address. labelInfo_getIfExist (ac_labels c') name = Some address \<longleftrightarrow>
       (\<exists>pre l post. ac_lines c = pre @ l # post \<and> ln_label l = Some name \<and> address = lines_size pre))"
proof (intro conjI allI impI)
  note ls = labels_of_lines(3) [OF assms(1)]
  obtain bss where
    b: "list_all2 (\<lambda>l bs. translate_content (ac_labels c') (ln_content l) = Inr bs) (ac_lines c) bss"
      "code = concat bss"
    using translate_lines assms(2) unfolding asm_translate_def ls by fastforce
  then show "length code = lines_size (ac_lines c)" using translated_size by blast
  show "\<exists>bs. translate_content (ac_labels c') (ln_content l) = Inr bs \<and>
      take (content_size (ln_content l)) (drop (lines_size pre) code) = bs"
    if "ac_lines c = pre @ l # post" for pre l post
    using asm_translate_line [OF assms(2), of pre l post] that ls by metis
  show "labelInfo_getIfExist (ac_labels c') name = Some address \<longleftrightarrow>
      (\<exists>pre l post. ac_lines c = pre @ l # post \<and> ln_label l = Some name \<and> address = lines_size pre)"
    for name address
    by (rule label_address [OF assms(1)])
qed

section \<open>Execution\<close>

lemma statement_executes:
  assumes "asm_processLabels c = Inr c'" "asm_translate c' = Inr code" "ac_lines c = pre @ l # post"
    and "ln_content l = L_STMT s" "length code \<le> ZLVM_ROM_SIZE" "take (length code) (vm_rom vm) = code"
    and "wf_vm vm" "vm_has_no_error vm" "memory_end vm \<le> WORD_MAX" "unat (reg vm R_PC) = lines_size pre"
  shows "\<exists>op cond r1 r2 imm. says (ac_labels c') s op cond r1 r2 imm \<and>
    vm_step vm = vm_run_instruction (set_reg R_PC (reg vm R_PC + 8) vm) (make_instruction op cond r1 r2 imm) \<and>
    (\<forall>t. st_imm s = Some t \<and> tok_type t = TOK_LABEL_USE \<longrightarrow>
       (\<exists>pre l post. ac_lines c = pre @ l # post \<and> ln_label l = Some (tok_value t) \<and>
          unat imm = lines_size pre))"
proof -
  note ls = labels_of_lines(3) [OF assms(1)]
  obtain bs where bs: "translate_content (ac_labels c') (ln_content l) = Inr bs"
    "take (length bs) (drop (lines_size pre) code) = bs" "length bs = 8" "length code = lines_size (ac_lines c)"
    using asm_translate_line [OF assms(2), of pre l post] ls assms(3,4)
    by (metis content_size_def line_content.simps(11) ZLVM_INSTRUCTION_SIZE_def)
  then obtain op cond r1 r2 imm where s: "says (ac_labels c') s op cond r1 r2 imm"
    and e: "bs = encoded (make_instruction op cond r1 r2 imm)"
    using assms(4) by (auto simp: translate_content_def translate_statement_Inr)
  have fits: "lines_size pre + 8 \<le> length code"
    using bs(4) assms(3,4) by (simp add: content_size_def ZLVM_INSTRUCTION_SIZE_def)
  have "take 8 (drop (lines_size pre) (vm_rom vm)) = bs"
    using bs(2,3) fits arg_cong [OF assms(6), of "\<lambda>x. take 8 (drop (lines_size pre) x)"]
    by (simp add: drop_take min_absorb1)
  then have "vm_step vm = vm_run_instruction (set_reg R_PC (reg vm R_PC + 8) vm) (make_instruction op cond r1 r2 imm)"
    using assms(5,7-10) fits e by (intro rom_code_step [OF make_instruction_encodes(1)]) simp_all
  moreover have "\<exists>pre l post. ac_lines c = pre @ l # post \<and> ln_label l = Some (tok_value t) \<and>
      unat imm = lines_size pre" if use: "st_imm s = Some t" "tok_type t = TOK_LABEL_USE" for t
  proof -
    obtain address where a: "labelInfo_getIfExist (ac_labels c') (tok_value t) = Some address"
      "address \<le> WORD_MAX" "imm = of_nat address"
      using s use by (auto simp: says_def raw_immediate_def split: option.splits if_splits)
    then have "unat imm = address" by (simp add: unat_of_nat_u32 limits)
    then show ?thesis using label_address [OF assms(1)] a(1) by metis
  qed
  ultimately show ?thesis using s by blast
qed

text \<open>A machine whose ROM starts with a raw translation and whose \<open>$pc\<close> is the address of a
  statement's line fetches the statement: its next step executes the instruction with the opcode of
  the mnemonic, the condition, the registers and the immediate that the statement says, a label being
  the address of the line that defines it.\<close>

theorem assembled_statement_executes:
  assumes "asm_processLabels c = Inr c'" "asm_translate c' = Inr code" "ac_lines c = pre @ l # post"
    and "ln_content l = L_STMT s" "length code \<le> ZLVM_ROM_SIZE" "take (length code) (vm_rom vm) = code"
    and "wf_vm vm" "vm_has_no_error vm" "memory_end vm \<le> WORD_MAX" "unat (reg vm R_PC) = lines_size pre"
  shows "\<exists>op cond r1 r2 imm. says (ac_labels c') s op cond r1 r2 imm \<and>
    vm_step vm = vm_run_instruction (set_reg R_PC (reg vm R_PC + 8) vm) (make_instruction op cond r1 r2 imm) \<and>
    (\<forall>t. st_imm s = Some t \<and> tok_type t = TOK_LABEL_USE \<longrightarrow>
       (\<exists>pre l post. ac_lines c = pre @ l # post \<and> ln_label l = Some (tok_value t) \<and>
          unat imm = lines_size pre))"
  using assms by (rule statement_executes)

end
