(* ===== verification/Asm_Sections.thy ===== *)
theory Asm_Sections
  imports Asm_Layout Link_Layout
begin

text \<open>
  What \<^verbatim>\<open>asm_processDirectives\<close> guarantees: the sections it builds fit the ROM, are aligned to powers
  of two and told apart by their names, and the lines it records lie in their sections, in order and
  apart. The guarantee is an invariant of the context that every step of the loop keeps.
\<close>

unbundle bit_operations_syntax

section \<open>The invariant\<close>

definition section_fits :: "asm_section \<Rightarrow> bool" where
  "section_fits s \<longleftrightarrow> unat (as_address s) + as_size s \<le> ZLVM_ROM_SIZE \<and> valid_alignment (as_alignment s) \<and>
     as_type s = section_type_of (as_name s) \<and> is_supported_section (as_name s) \<and> as_flags s AND 1 = as_flags s"

text \<open>A line lies in its section, at the offset it was given.\<close>

definition line_end_offset :: "line \<Rightarrow> nat" where
  "line_end_offset l = ln_section_offset l + ln_size l"

definition line_fits :: "asm_section list \<Rightarrow> line \<Rightarrow> bool" where
  "line_fits sections l \<longleftrightarrow> ln_section_index l < length sections \<and>
     line_end_offset l \<le> as_size (sections ! ln_section_index l) \<and>
     ln_size l = content_size (ln_content l) \<and> (\<forall>d. ln_content l \<noteq> L_DIR d)"

definition before :: "line \<Rightarrow> line \<Rightarrow> bool" where
  "before l k \<longleftrightarrow> (ln_section_index l = ln_section_index k \<longrightarrow> line_end_offset l \<le> ln_section_offset k)"

definition context_ok :: "assembler \<Rightarrow> bool" where
  "context_ok c \<longleftrightarrow> ac_current c < length (ac_sections c) \<and> distinct (map as_name (ac_sections c)) \<and>
     (\<forall>s \<in> set (ac_sections c). section_fits s) \<and>
     (\<forall>l \<in> set (ac_lines c). line_fits (ac_sections c) l) \<and> sorted_wrt before (ac_lines c)"

lemma validate_section_range_Inr:
  "validate_section_range s tok = Inr () \<longleftrightarrow> unat (as_address s) + as_size s \<le> ZLVM_ROM_SIZE"
  by (auto simp: validate_section_range_def)

lemma context_ok_init: "context_ok asm_init"
  by (simp add: context_ok_def asm_init_def select_section_def section_fits_def valid_alignment_def
      is_supported_section_def)

text \<open>Replacing the current section by one that keeps its name and does not shrink.\<close>

lemma context_ok_set_current:
  assumes "context_ok c" "section_fits s" "as_name s = as_name (current_section c)"
    "as_size (current_section c) \<le> as_size s"
  shows "context_ok (set_current_section c s)"
proof -
  let ?i = "ac_current c" and ?ss = "ac_sections c"
  have "map as_name (?ss[?i := s]) = map as_name ?ss"
    using assms(1,3) by (simp add: map_update context_ok_def list_update_same_conv)
  moreover have "line_fits (?ss[?i := s]) l" if "line_fits ?ss l" for l
    using that assms(4) by (cases "ln_section_index l = ?i") (auto simp: line_fits_def)
  ultimately show ?thesis
    using assms(1,2) set_update_subset_insert [of ?ss ?i s]
    by (auto simp: context_ok_def set_current_section_def)
qed

lemma current_fits: "context_ok c \<Longrightarrow> section_fits (current_section c)"
  by (simp add: context_ok_def)

section \<open>Lines\<close>

lemma record_line_ok:
  assumes "context_ok c" "record_line c l = Inr c'" "\<And>d. ln_content l \<noteq> L_DIR d"
  shows "context_ok c'"
proof -
  let ?s = "current_section c" and ?n = "content_size (ln_content l)"
  let ?l = "l\<lparr>ln_section_index := ac_current c, ln_section_offset := as_size ?s, ln_size := ?n\<rparr>"
  let ?c = "set_current_section c (?s\<lparr>as_size := as_size ?s + ?n\<rparr>)"
  have r: "unat (as_address ?s) + (as_size ?s + ?n) \<le> ZLVM_ROM_SIZE"
    and c': "c' = ?c\<lparr>ac_lines := ac_lines c @ [?l]\<rparr>"
    using assms(2) by (auto simp: record_line_def Let_def sbind_Inr validate_section_range_Inr split: if_splits)
  have ok: "context_ok ?c"
    using current_fits [OF assms(1)] r
    by (intro context_ok_set_current [OF assms(1)]) (simp_all add: section_fits_def)
  have i: "ac_current c < length (ac_sections c)" using assms(1) by (simp add: context_ok_def)
  have "line_fits (ac_sections ?c) ?l"
    using i assms(3) by (simp add: line_fits_def set_current_section_def line_end_offset_def)
  moreover have "before k ?l" if "k \<in> set (ac_lines c)" for k
    using that assms(1) by (auto simp: context_ok_def before_def line_fits_def line_end_offset_def)
  ultimately show ?thesis
    using ok unfolding c'
    by (auto simp: context_ok_def sorted_wrt_append set_current_section_def)
qed

section \<open>Directives\<close>

lemma and_pred_mod:
  fixes m n :: nat
  assumes "n AND (n - 1) = 0" "0 < n"
  shows "m AND (n - 1) = m mod n"
proof -
  obtain k where k: "n = 2 ^ k" using assms and_pred_power by blast
  have "m AND (2 ^ k - 1) = take_bit k m" by (simp add: take_bit_eq_mask mask_eq_exp_minus_1)
  then show ?thesis by (simp add: k take_bit_eq_mod)
qed

lemma literal_alignment_iff:
  fixes a :: u64
  shows "a = 0 \<or> unat a > WORD_MAX \<or> a AND (a - 1) \<noteq> 0 \<longleftrightarrow> \<not> (\<exists>k < 32. unat a = 2 ^ k)"
proof (cases "a = 0")
  case False
  then have pos: "0 < unat a" by (simp add: unat_gt_0)
  have "unat (a AND (a - 1)) = unat a AND (unat a - 1)"
    using unat_minus_one [OF False] by (simp add: unsigned_and_eq)
  then have "a AND (a - 1) = 0 \<longleftrightarrow> (\<exists>k. unat a = 2 ^ k)"
    using and_pred_power [OF pos] by (metis unsigned_0 unsigned_eq_0_iff)
  moreover have "(2 :: nat) ^ k \<le> WORD_MAX \<longleftrightarrow> k < 32" for k
    using power_strict_increasing_iff [of "2 :: nat" k 32] by (auto simp: limits)
  ultimately show ?thesis using False by (metis not_le)
qed simp

lemma alignment_of_literal:
  fixes a :: u64
  assumes "\<exists>k < 32. unat a = 2 ^ k"
  shows "unat (ucast a :: u32) = unat a" "valid_alignment (ucast a)" "unat a AND (unat a - 1) = 0" "0 < unat a"
proof -
  obtain k :: nat where k: "k < 32" "unat a = 2 ^ k" using assms by blast
  have "unat a \<le> WORD_MAX" using assms literal_alignment_iff [of a] by (meson not_le)
  then show u: "unat (ucast a :: u32) = unat a"
    by (simp add: unsigned_ucast_eq take_bit_nat_eq_self limits)
  show p: "0 < unat a" using k by simp
  then show "unat a AND (unat a - 1) = 0" using k(2) and_pred_power by blast
  show "valid_alignment (ucast a)" using k(2) u unfolding valid_alignment_power by auto
qed

lemma round_up_padding:
  assumes "0 < a"
  shows "(if v mod a \<noteq> 0 then v + (a - v mod a) else v) = round_up v a"
proof -
  define q r where "q = v div a" and "r = v mod a"
  have v: "v = q * a + r" "r < a" using assms by (simp_all add: q_def r_def)
  have "(r + a - 1) div a = (if r = 0 then 0 else 1)"
    using v(2) by (auto simp: div_nat_eqI)
  moreover have "v + a - 1 = (r + a - 1) + q * a" using v assms by linarith
  then have "(v + a - 1) div a = q + (r + a - 1) div a"
    using div_mult_self1 [of a "r + a - 1" q] assms by (simp only: neq0_conv simp_thms)
  ultimately have "round_up v a = (if r = 0 then q * a else q * a + a)"
    by (simp add: round_up_def)
  then show ?thesis using v by (auto simp flip: r_def)
qed

lemma align_section_Inr:
  assumes "token_get_int_value arg = Inr a" "unat (as_address s) + as_size s \<le> ZLVM_ROM_SIZE"
  shows "align_section s arg = Inr s' \<longleftrightarrow>
    (\<exists>k < 32. unat a = 2 ^ k) \<and>
    unat (as_address s) + round_up (as_size s) (unat a) \<le> ZLVM_ROM_SIZE \<and>
    s' = s\<lparr>as_size := round_up (as_size s) (unat a),
           as_alignment := (if unat (as_alignment s) < unat a then ucast a else as_alignment s)\<rparr>"
proof (cases "\<exists>k < 32. unat a = 2 ^ k")
  case False
  then show ?thesis
    using assms(1) by (simp add: align_section_def literal_alignment_iff section_fail_def)
next
  case True
  note a = alignment_of_literal [OF True]
  let ?rem = "as_size s AND (unat a - 1)" and ?r = "round_up (as_size s) (unat a)"
  have rem: "?rem = as_size s mod unat a" by (rule and_pred_mod [OF a(3,4)])
  have pad: "(if ?rem \<noteq> 0 then s\<lparr>as_size := as_size s + (unat a - ?rem)\<rparr> else s) = s\<lparr>as_size := ?r\<rparr>"
    using round_up_padding [OF a(4), of "as_size s"] unfolding rem by (cases s) auto
  have small: "\<not> (unat a - ?rem > SIZE_T_MAX - as_size s)"
  proof -
    have "unat a \<le> WORD_MAX" using True literal_alignment_iff [of a] by (meson not_le)
    then show ?thesis using assms(2) by (simp add: limits vm_sizes)
  qed
  have "align_section s arg =
    sbind (validate_section_range (s\<lparr>as_size := ?r, as_alignment := (if unat (as_alignment s) < unat a
      then ucast a else as_alignment s)\<rparr>) (Some arg)) (\<lambda>_. Inr (s\<lparr>as_size := ?r,
      as_alignment := (if unat (as_alignment s) < unat a then ucast a else as_alignment s)\<rparr>))"
    using small
    by (simp only: align_section_def assms(1) sbind.simps literal_alignment_iff [of a] True Let_def pad
        simp_thms if_False) simp
  then show ?thesis
    using True by (auto simp: sbind_Inr validate_section_range_Inr)
qed

lemma align_section_ok:
  assumes "align_section s arg = Inr s'" "section_fits s"
  shows "section_fits s' \<and> as_name s' = as_name s \<and> as_size s \<le> as_size s'"
proof -
  obtain a where a: "token_get_int_value arg = Inr a"
    using assms(1) by (auto simp: align_section_def sbind_Inr)
  have "unat (as_address s) + as_size s \<le> ZLVM_ROM_SIZE" using assms(2) by (simp add: section_fits_def)
  note e = align_section_Inr [OF a this, THEN iffD1, OF assms(1)]
  then show ?thesis
    using assms(2) alignment_of_literal [of a] round_up_least(1) [of "unat a" "as_size s"]
    by (auto simp: section_fits_def)
qed

text \<open>An alignment directive is accepted exactly when its value is a nonzero power of two of 32
  bits and the padded section still fits the ROM; it pads the section to the least multiple of the
  alignment that holds its content, and raises the section's own alignment when that is smaller.\<close>

theorem align_section_exact:
  assumes "token_get_int_value arg = Inr a" "unat (as_address s) + as_size s \<le> ZLVM_ROM_SIZE"
  shows "align_section s arg = Inr s' \<longleftrightarrow>
    (\<exists>k < 32. unat a = 2 ^ k) \<and>
    unat (as_address s) + round_up (as_size s) (unat a) \<le> ZLVM_ROM_SIZE \<and>
    s' = s\<lparr>as_size := round_up (as_size s) (unat a),
           as_alignment := (if unat (as_alignment s) < unat a then ucast a else as_alignment s)\<rparr>"
  using assms by (rule align_section_Inr)

lemma locate_section_ok:
  assumes "locate_section s arg = Inr s'" "section_fits s"
  shows "section_fits s' \<and> as_name s' = as_name s \<and> as_size s \<le> as_size s'"
proof -
  have "f OR 1 = 1" if "f AND 1 = f" for f :: u32
  proof (rule bit_word_eqI)
    fix n
    have "bit f n \<Longrightarrow> n = 0" using that by (metis bit_1_iff bit_and_iff)
    then show "bit (f OR 1) n = bit 1 n" by (auto simp: bit_simps)
  qed
  then show ?thesis
    using assms
    by (auto simp: locate_section_def section_fits_def sbind_Inr section_fail_def validate_section_range_Inr
        split: if_splits)
qed

lemma select_section_ok:
  assumes "context_ok c" "is_supported_section name" "select_section (ac_sections c) name = (sections, index)"
  shows "context_ok (c\<lparr>ac_sections := sections, ac_current := index\<rparr>)"
proof -
  let ?ss = "ac_sections c"
  let ?new = "\<lparr>as_name = name, as_type = section_type_of name, as_flags = 0, as_address = 0,
    as_alignment = 1, as_size = 0\<rparr>"
  have i: "index = length (takeWhile (\<lambda>s. as_name s \<noteq> name) ?ss)"
    using assms(3) by (auto simp: select_section_def Let_def split: if_splits)
  show ?thesis
  proof (cases "index < length ?ss")
    case True
    then show ?thesis using assms(1,3) i by (auto simp: select_section_def context_ok_def Let_def)
  next
    case False
    then have all: "takeWhile (\<lambda>s. as_name s \<noteq> name) ?ss = ?ss"
      unfolding i using length_takeWhile_le [of "\<lambda>s. as_name s \<noteq> name" ?ss]
      by (metis le_antisym not_less takeWhile_eq_take take_all)
    then have "name \<notin> as_name ` set ?ss" by (auto simp: takeWhile_eq_all_conv)
    moreover have "sections = ?ss @ [?new]" "index = length ?ss"
      using assms(3) by (simp_all add: select_section_def all)
    moreover have "section_fits ?new"
      using assms(2) by (simp add: section_fits_def valid_alignment_def)
    moreover have "line_fits (?ss @ [?new]) l" if "line_fits ?ss l" for l
      using that by (auto simp: line_fits_def nth_append)
    ultimately show ?thesis using assms(1) by (auto simp: context_ok_def)
  qed
qed

lemma process_directive_ok:
  assumes "process_directive c d = Inr c'" "context_ok c"
  shows "context_ok c'"
proof -
  have "\<And>s. align_section (current_section c) a = Inr s \<Longrightarrow> context_ok (set_current_section c s)"
    "\<And>s. locate_section (current_section c) a = Inr s \<Longrightarrow> context_ok (set_current_section c s)" for a
    using align_section_ok locate_section_ok current_fits [OF assms(2)] context_ok_set_current [OF assms(2)]
    by blast+
  moreover have "context_ok (asm_addGlobal c n)" "context_ok (asm_addExternal c n)" "context_ok (c\<lparr>ac_entry := e\<rparr>)" for n e
    using assms(2) by (simp_all add: context_ok_def asm_addGlobal_def asm_addExternal_def)
  ultimately show ?thesis
    using assms select_section_ok [OF assms(2)]
    by (auto simp: process_directive_def Let_def sbind_Inr section_fail_def directive_fail_def
        split: directive_type.splits if_splits prod.splits)
qed

text \<open>What every step of the loop keeps, the loop keeps: \<open>I\<close> of the context, \<open>L\<close> of the lines, \<open>N\<close> of the
  procedure's name.\<close>

lemma process_lines_invariant:
  assumes "process_lines can_alloc c proc ls = Inr c'"
    and "I c" "\<forall>l \<in> set ls. L l" "\<forall>p. proc = Some p \<longrightarrow> N p"
    and recorded: "\<And>c l c'. record_line c l = Inr c' \<Longrightarrow> I c \<Longrightarrow> L l \<Longrightarrow> (\<And>d. ln_content l \<noteq> L_DIR d) \<Longrightarrow> I c'"
    and relabel: "\<And>proc l. L l \<Longrightarrow> \<forall>p. proc = Some p \<longrightarrow> N p \<Longrightarrow> L (relabel proc l)"
    and data: "\<And>l bytes. L l \<Longrightarrow> L (l\<lparr>ln_content := L_RAW bytes\<rparr>)"
    and label: "\<And>l. L l \<Longrightarrow> L (l\<lparr>ln_label := Some []\<rparr>)"
    and name: "\<And>l d. L l \<Longrightarrow> ln_content l = L_DIR d \<Longrightarrow> validate_directive d = Inr () \<Longrightarrow> dir_type d = DIR_PROC \<Longrightarrow>
      N (tok_value (dir_argv d ! 0))"
    and directive: "\<And>l d c c'. L l \<Longrightarrow> ln_content l = L_DIR d \<Longrightarrow> validate_directive d = Inr () \<Longrightarrow>
      process_directive c d = Inr c' \<Longrightarrow> I c \<Longrightarrow> I c'"
  shows "I c'"
  using assms(1-4)
proof (induction can_alloc c proc ls rule: process_lines.induct)
  case (2 can_alloc c proc l rest)
  let ?l = "relabel proc l"
  have l: "L l" "L ?l" "\<forall>l \<in> set rest. L l" using "2.prems"(3,4) relabel by simp_all
  show ?case
  proof (cases "ln_content l")
    case (L_DIR d)
    then have d: "ln_content ?l = L_DIR d" by simp
    have u: "validate_directive d = Inr ()" using "2.prems"(1) L_DIR by (auto simp: process_lines.simps(2) sbind_Inr)
    note IH = "2.IH"(1-4) [OF refl d u]
    consider (data) bytes c2 where "is_data_directive (dir_type d)" "directive_get_raw_data can_alloc d = Inr bytes"
        "record_line c (?l\<lparr>ln_content := L_RAW bytes\<rparr>) = Inr c2" "process_lines can_alloc c2 proc rest = Inr c'"
      | (proc) l' after where "\<not> is_data_directive (dir_type d)" "dir_type d = DIR_PROC" "rest = l' # after"
        "process_lines can_alloc c (Some (tok_value (dir_argv d ! 0))) (l'\<lparr>ln_label := Some []\<rparr> # after) = Inr c'"
      | (endproc) "\<not> is_data_directive (dir_type d)" "dir_type d = DIR_ENDPROC" "process_lines can_alloc c None rest = Inr c'"
      | (other) c2 where "\<not> is_data_directive (dir_type d)" "dir_type d \<noteq> DIR_PROC" "dir_type d \<noteq> DIR_ENDPROC"
        "process_directive c d = Inr c2" "process_lines can_alloc c2 proc rest = Inr c'"
      using "2.prems"(1) L_DIR u
      by (auto simp: process_lines.simps(2) sbind_Inr directive_fail_def split: if_splits list.splits)
    then show ?thesis
    proof cases
      case data
      show ?thesis
        using IH(1) [OF data(1,2,3,4) recorded [OF data(3) "2.prems"(2) assms(7) [OF l(2)]] l(3) "2.prems"(4)] by simp
    next
      case proc
      then show ?thesis using IH(2) [OF proc(1,2,3,4) "2.prems"(2)] l(3) label name [OF l(1) L_DIR u] by simp
    next
      case endproc
      then show ?thesis using IH(3) [OF endproc(1) _ endproc(2,3) "2.prems"(2) l(3)] by simp
    next
      case other
      show ?thesis
        using IH(4) [OF other directive [OF l(1) L_DIR u other(4) "2.prems"(2)] l(3) "2.prems"(4)] .
    qed
  next
    case (L_STMT s)
    then obtain c2 where r: "record_line c ?l = Inr c2" "process_lines can_alloc c2 proc rest = Inr c'"
      using "2.prems"(1) by (auto simp: process_lines.simps(2) sbind_Inr)
    have "ln_content ?l = L_STMT s" using L_STMT by simp
    from "2.IH"(5) [OF refl this r recorded [OF r(1) "2.prems"(2) l(2)] l(3) "2.prems"(4)] L_STMT show ?thesis by simp
  next
    case (L_RAW data)
    then obtain c2 where r: "record_line c ?l = Inr c2" "process_lines can_alloc c2 proc rest = Inr c'"
      using "2.prems"(1) by (auto simp: process_lines.simps(2) sbind_Inr)
    have "ln_content ?l = L_RAW data" using L_RAW by simp
    from "2.IH"(6) [OF refl this r recorded [OF r(1) "2.prems"(2) l(2)] l(3) "2.prems"(4)] L_RAW show ?thesis by simp
  qed
qed simp

lemma process_lines_ok: "process_lines can_alloc c proc ls = Inr c' \<Longrightarrow> context_ok c \<Longrightarrow> context_ok c'"
  by (erule process_lines_invariant [where I = context_ok and L = "\<lambda>_. True" and N = "\<lambda>_. True"])
    (rule TrueI | erule (1) record_line_ok process_directive_ok | simp)+

text \<open>The statements among lines.\<close>

definition statements :: "line list \<Rightarrow> statement list" where
  "statements ls = concat (map (\<lambda>l. case ln_content l of L_STMT s \<Rightarrow> [s] | _ \<Rightarrow> []) ls)"

lemma statements_simps [simp]:
  "statements [] = []" "statements (ls @ ks) = statements ls @ statements ks"
  "statements (l # ls) = (case ln_content l of L_STMT s \<Rightarrow> [s] | _ \<Rightarrow> []) @ statements ls"
  by (simp_all add: statements_def)

lemma record_line_statements:
  "record_line c l = Inr c' \<Longrightarrow> statements (ac_lines c') = statements (ac_lines c) @ statements [l]"
  by (auto simp: record_line_def Let_def sbind_Inr set_current_section_def split: if_splits)

lemma process_directive_lines: "process_directive c d = Inr c' \<Longrightarrow> ac_lines c' = ac_lines c"
  by (auto simp: process_directive_def Let_def sbind_Inr section_fail_def directive_fail_def
      set_current_section_def asm_addGlobal_def asm_addExternal_def
      split: directive_type.splits if_splits prod.splits)

lemma process_lines_statements:
  "process_lines can_alloc c proc ls = Inr c' \<Longrightarrow>
     statements (ac_lines c') = statements (ac_lines c) @ statements ls"
proof (induction can_alloc c proc ls rule: process_lines.induct)
  case (2 can_alloc c proc l rest)
  let ?l = "relabel proc l"
  show ?case
  proof (cases "ln_content l")
    case (L_DIR d)
    then show ?thesis
      using "2.prems" "2.IH"(1) [OF refl] "2.IH"(2) [OF refl] "2.IH"(3) [OF refl] "2.IH"(4) [OF refl]
        record_line_statements [of c] process_directive_lines [of c d]
      by (auto simp: process_lines.simps(2) sbind_Inr directive_fail_def split: if_splits list.splits)
  next
    case (L_STMT s)
    then show ?thesis
      using "2.prems" "2.IH"(5) [OF refl] record_line_statements [of c ?l]
      by (auto simp: process_lines.simps(2) sbind_Inr)
  next
    case (L_RAW data)
    then show ?thesis
      using "2.prems" "2.IH"(6) [OF refl] record_line_statements [of c ?l]
      by (auto simp: process_lines.simps(2) sbind_Inr)
  qed
qed simp

text \<open>C15: When the directives are accepted, every section fits the ROM behind its address, has a
  power of two as alignment and a name and type that belong together, no two have the same name, and
  every recorded line lies in its section behind the lines recorded there before it; the statements
  recorded are those of the program, in order.\<close>

theorem asm_processDirectives_invariant:
  assumes "asm_processDirectives can_alloc lines = Inr c"
  shows "context_ok c \<and> statements (ac_lines c) = statements lines"
  using assms process_lines_ok [OF _ context_ok_init] process_lines_statements
  by (fastforce simp: asm_processDirectives_def asm_init_def)

end
