(* ===== verification/Object_Facts.thy ===== *)
theory Object_Facts
  imports Object Asm_Sections
begin

unbundle bit_operations_syntax

text \<open>
  What the object translation produces: for every program the directives accepted, a valid object
  image that decodes, whose sections hold the bytes of every line at its offset, whose symbols are the
  labels and the externals, and whose relocations lie inside the code they patch.
\<close>

section \<open>Emission\<close>

text \<open>The bytes and relocations of a line.\<close>

definition object_line ::
  "line list \<Rightarrow> zl_symbol list \<Rightarrow> line \<Rightarrow> diagnostic + u8 list \<times> zl_relocation list" where
  "object_line ls symbols l =
     (case ln_content l of
        L_RAW data \<Rightarrow> Inr (data, [])
      | L_STMT s \<Rightarrow> object_statement ls symbols l s
      | L_DIR d \<Rightarrow> asm_fail ZLASM_DIAGNOSTIC_INTERNAL_ERROR)"

lemma emit_line_Inr:
  "emit_line ls symbols (sections, relocations) l = Inr (sections', relocations') \<longleftrightarrow>
     sec_type (sections ! ln_section_index l) \<noteq> ZL_IMAGE_SECTION_BSS \<and>
     (\<exists>bytes new. object_line ls symbols l = Inr (bytes, new) \<and>
        sections' = emit sections l bytes \<and> relocations' = relocations @ new)"
  by (auto simp: emit_line_def object_line_def sbind_Inr split: line_content.splits)

lemma object_statement_Inr:
  assumes "object_statement ls symbols l s = Inr (bytes, new)"
  obtains op cond r1 r2 imm where
    "opcode_of (string_to_opcode (line_to_upper (tok_value (st_opcode s)))) = Some op"
    "validate_operands op s = Inr ()"
    "parse_optional parse_condition C_UNCONDITIONAL (st_cond s) = Inr cond"
    "parse_optional parse_register R_ZERO (st_reg1 s) = Inr r1"
    "parse_optional parse_register R_ZERO (st_reg2 s) = Inr r2"
    "object_immediate ls symbols l (st_imm s) = Inr (imm, new)"
    "bytes = encoded (make_instruction op cond r1 r2 imm)"
  using assms by (auto simp: object_statement_def sbind_Inr split: option.splits)

text \<open>A relocation patches the immediate of the statement it belongs to.\<close>

definition patches :: "line \<Rightarrow> nat \<Rightarrow> zl_relocation \<Rightarrow> bool" where
  "patches l symbol_count r \<longleftrightarrow> rel_section_index r = of_nat (ln_section_index l) \<and>
     rel_offset r = of_nat (ln_section_offset l + 4) \<and> rel_type r = ZL_IMAGE_RELOCATION_ABSOLUTE32 \<and>
     unat (rel_symbol_index r) < symbol_count \<and> rel_addend r = 0 \<and> (\<exists>s. ln_content l = L_STMT s)"

lemma first_index:
  "length (takeWhile (\<lambda>x. \<not> Q x) xs) = i \<and> i < length xs \<longleftrightarrow>
     i < length xs \<and> Q (xs ! i) \<and> (\<forall>j < i. \<not> Q (xs ! j))"
proof (induction xs arbitrary: i)
  case (Cons x xs)
  then show ?case by (cases i) (auto simp: All_less_Suc2)
qed simp

lemma find_image_symbol_Some:
  "find_image_symbol symbols name = Some i \<longleftrightarrow>
     i < length symbols \<and> c_name (sym_name (symbols ! i)) = cstr name \<and>
     (\<forall>j < i. c_name (sym_name (symbols ! j)) \<noteq> cstr name)"
  using first_index [of "\<lambda>y. c_name (sym_name y) = cstr name" symbols i]
  by (auto simp: find_image_symbol_def Let_def)

lemma object_line_facts:
  assumes "object_line ls symbols l = Inr (bytes, new)"
  shows "length bytes = content_size (ln_content l)" "\<forall>r \<in> set new. patches l (length symbols) r"
proof -
  show "length bytes = content_size (ln_content l)"
    using assms make_instruction_encodes(2)
    by (auto simp: object_line_def content_size_def ZLVM_INSTRUCTION_SIZE_def
        elim!: object_statement_Inr split: line_content.splits)
  have "unat (of_nat i :: u32) < n" if "i < n" for i n
    using that by (simp add: unsigned_of_nat) (meson le_less_trans take_bit_nat_less_eq_self)
  then show "\<forall>r \<in> set new. patches l (length symbols) r"
    using assms
    by (auto simp: object_line_def object_immediate_def patches_def find_image_symbol_Some sbind_Inr
        elim!: object_statement_Inr split: line_content.splits option.splits if_splits)
qed

section \<open>The data of the sections\<close>

text \<open>The content of a section of an object: zeros to write on.\<close>

definition same_frame :: "zl_section \<Rightarrow> zl_section \<Rightarrow> bool" where
  "same_frame s t \<longleftrightarrow>
     (\<exists>d. s = t\<lparr>sec_data := d\<rparr> \<and> map_option length d = map_option length (sec_data t))"

lemma same_frame_refl [simp]: "same_frame s s"
  by (simp add: same_frame_def) (rule exI [of _ "sec_data s"], simp)

lemma same_frame_trans: "same_frame r s \<Longrightarrow> same_frame s t \<Longrightarrow> same_frame r t"
  by (auto simp: same_frame_def)

lemma same_frame_fields:
  assumes "same_frame s t"
  shows "sec_type s = sec_type t" "sec_data_size s = sec_data_size t" "sec_name s = sec_name t"
    "sec_address s = sec_address t" "sec_alignment s = sec_alignment t" "sec_flags s = sec_flags t"
    "map_option length (sec_data s) = map_option length (sec_data t)"
  using assms by (auto simp: same_frame_def)

lemma emit_frame: "list_all2 same_frame (emit sections l bytes) sections"
proof (intro list_all2_all_nthI)
  fix i assume "i < length (emit sections l bytes)"
  then show "same_frame (emit sections l bytes ! i) (sections ! i)"
    by (cases "i = ln_section_index l")
      (auto simp: emit_def Let_def same_frame_def option.map_comp comp_def)
qed (simp add: emit_def Let_def)

text \<open>The bytes of a line in the sections.\<close>

definition holds :: "zl_section list \<Rightarrow> line \<Rightarrow> u8 list \<Rightarrow> bool" where
  "holds sections l bytes \<longleftrightarrow>
     (\<exists>data. sec_data (sections ! ln_section_index l) = Some data \<and>
        take (length bytes) (drop (ln_section_offset l) data) = bytes)"

text \<open>The space of a line in the data of its section.\<close>

definition has_room :: "zl_section list \<Rightarrow> line \<Rightarrow> bool" where
  "has_room sections l \<longleftrightarrow> ln_section_index l < length sections \<and>
     ln_size l = content_size (ln_content l) \<and>
     (sec_type (sections ! ln_section_index l) \<noteq> ZL_IMAGE_SECTION_BSS \<longrightarrow>
       (\<exists>data. sec_data (sections ! ln_section_index l) = Some data \<and> line_end_offset l \<le> length data))"

lemma has_room_frame:
  assumes "list_all2 same_frame sections sections'" "has_room sections' l"
  shows "has_room sections l"
proof -
  let ?i = "ln_section_index l"
  have "length sections = length sections'" "same_frame (sections ! ?i) (sections' ! ?i)"
    using assms by (auto simp: list_all2_conv_all_nth has_room_def)
  then show ?thesis
    using assms(2) same_frame_fields(1,7) [of "sections ! ?i" "sections' ! ?i"]
    by (auto simp: has_room_def map_option_eq_Some)
qed

lemma emit_holds:
  assumes "has_room sections l" "sec_type (sections ! ln_section_index l) \<noteq> ZL_IMAGE_SECTION_BSS"
    "length bytes = content_size (ln_content l)"
  shows "holds (emit sections l bytes) l bytes"
  using assms
  by (auto simp: holds_def has_room_def emit_def Let_def bytes_write_eq line_end_offset_def)

lemma bytes_write_below: "i < a \<Longrightarrow> bytes_write list_update a bs b ! i = b ! i"
  by (induction bs arbitrary: a b) simp_all

lemma emit_keeps:
  assumes "holds sections k ks" "before k l" "length ks = ln_size k" "has_room sections k"
  shows "holds (emit sections l bytes) k ks"
proof (cases "ln_section_index l = ln_section_index k")
  case True
  obtain data where d: "sec_data (sections ! ln_section_index k) = Some data"
    "take (length ks) (drop (ln_section_offset k) data) = ks"
    using assms(1) by (auto simp: holds_def)
  have apart: "ln_section_offset k + length ks \<le> ln_section_offset l"
    using assms(2,3) True by (simp add: before_def line_end_offset_def)
  have fits: "ln_section_offset k + length ks \<le> length data \<or> ks = []"
    using arg_cong [OF d(2), of length] by (cases ks) (auto simp: min_def split: if_splits)
  have "take (length ks) (drop (ln_section_offset k) (bytes_write list_update (ln_section_offset l) bytes data)) =
      take (length ks) (drop (ln_section_offset k) data)"
    using fits apart by (intro nth_equalityI) (auto simp: bytes_write_below)
  then show ?thesis
    using d True assms(4) by (simp add: holds_def emit_def Let_def has_room_def)
next
  case False
  then show ?thesis using assms(1) by (simp add: holds_def emit_def Let_def)
qed

text \<open>The emission loop: the frame of the sections stays, each line's bytes are in place at the end, and
  the relocations are those of the lines, in order.\<close>

lemma emit_lines:
  "try_fold (emit_line all symbols) (sections, []) ls = Inr (sections', relocations) \<Longrightarrow>
     sorted_wrt before ls \<Longrightarrow> \<forall>l \<in> set ls. has_room sections l \<Longrightarrow>
     list_all2 same_frame sections' sections \<and>
     (\<exists>out. list_all2 (\<lambda>l (bytes, new). object_line all symbols l = Inr (bytes, new) \<and>
         sec_type (sections ! ln_section_index l) \<noteq> ZL_IMAGE_SECTION_BSS \<and> holds sections' l bytes) ls out \<and>
       relocations = concat (map snd out))"
proof (induction ls arbitrary: sections' relocations rule: rev_induct)
  case Nil
  then show ?case by (auto intro: list.rel_refl)
next
  case (snoc l ls)
  from snoc.prems(1) obtain st where st: "try_fold (emit_line all symbols) (sections, []) ls = Inr st"
    "try_fold (emit_line all symbols) st [l] = Inr (sections', relocations)"
    by (auto simp: try_fold_append sbind_Inr)
  obtain ss rs where ss: "st = (ss, rs)" by (cases st)
  have "emit_line all symbols (ss, rs) l = Inr (sections', relocations)"
    using st(2) by (auto simp: ss try_fold_Cons_Inr simp del: try_fold.simps(2))
  then obtain bytes new where e: "object_line all symbols l = Inr (bytes, new)"
    "sec_type (ss ! ln_section_index l) \<noteq> ZL_IMAGE_SECTION_BSS" "sections' = emit ss l bytes"
    "relocations = rs @ new"
    by (auto simp: emit_line_Inr)
  obtain out where out: "list_all2 same_frame ss sections" "rs = concat (map snd out)"
    "list_all2 (\<lambda>l (bytes, new). object_line all symbols l = Inr (bytes, new) \<and>
       sec_type (sections ! ln_section_index l) \<noteq> ZL_IMAGE_SECTION_BSS \<and> holds ss l bytes) ls out"
    using snoc.IH [OF st(1) [unfolded ss]] snoc.prems(2,3) by (auto simp: sorted_wrt_append)
  have frame: "list_all2 same_frame sections' sections"
    unfolding e(3) by (rule list_all2_trans [OF _ emit_frame out(1)]) (rule same_frame_trans)
  have room: "has_room ss k" if "k \<in> set (ls @ [l])" for k
    using that snoc.prems(3) has_room_frame [OF out(1)] by blast
  have "list_all2 (\<lambda>l (bytes, new). object_line all symbols l = Inr (bytes, new) \<and>
      sec_type (sections ! ln_section_index l) \<noteq> ZL_IMAGE_SECTION_BSS \<and> holds sections' l bytes) ls out"
  proof (rule list.rel_mono_strong [OF out(3)])
    show "case y of (bytes, new) \<Rightarrow> object_line all symbols x = Inr (bytes, new) \<and>
        sec_type (sections ! ln_section_index x) \<noteq> ZL_IMAGE_SECTION_BSS \<and> holds sections' x bytes" if "x \<in> set ls" "y \<in> set out"
        "case y of (bytes, new) \<Rightarrow> object_line all symbols x = Inr (bytes, new) \<and>
          sec_type (sections ! ln_section_index x) \<noteq> ZL_IMAGE_SECTION_BSS \<and> holds ss x bytes" for x y
      using that room [of x] snoc.prems(2) object_line_facts(1) [of all symbols x] emit_keeps [of ss x _ l bytes]
      by (auto simp: e(3) sorted_wrt_append has_room_def)
  qed
  moreover have "holds sections' l bytes"
    using emit_holds [OF room [of l] e(2)] object_line_facts(1) [OF e(1)] e(3) by simp
  moreover have "sec_type (sections ! ln_section_index l) \<noteq> ZL_IMAGE_SECTION_BSS"
    using e(2) out(1) room [of l] same_frame_fields(1) by (auto simp: list_all2_conv_all_nth has_room_def)
  ultimately show ?case
    using frame e(1,4) out(2) by (intro conjI exI [of _ "out @ [(bytes, new)]"]) (auto intro: list_all2_appendI)
qed

section \<open>Names\<close>

lemma unat_of_char: "unat (of_char c :: u8) = of_char c"
proof -
  have "(of_char c :: nat) < 256" using of_char_mod_256 [of c, where ?'a = nat] mod_less_divisor by (metis zero_less_numeral)
  moreover have "(of_char c :: u8) = of_nat (of_char c)" by (simp add: of_nat_of_char)
  ultimately show ?thesis by (simp only: unsigned_of_nat) (simp add: take_bit_nat_eq_self)
qed

lemma of_char_u8_inject [simp]: "(of_char c :: u8) = of_char d \<longleftrightarrow> c = d"
  by (metis unat_of_char of_char_eq_iff)

lemma cstr_inject [simp]: "cstr m = cstr n \<longleftrightarrow> m = n"
  by (simp add: cstr_def inj_map_eq_map inj_def)

text \<open>A name without the terminator, as every name of a C source is.\<close>

definition nul_free :: "string \<Rightarrow> bool" where
  "nul_free n \<longleftrightarrow> CHR 0x00 \<notin> set n"

lemma c_string_ok_cstr [simp]: "c_string_ok (Some (cstr n)) \<longleftrightarrow> nul_free n"
proof -
  have "(of_char CHR 0x00 :: u8) = 0" by (simp add: of_char_def)
  moreover have "inj (of_char :: char \<Rightarrow> u8)" by (simp add: inj_def)
  ultimately have "(0 :: u8) \<in> of_char ` set n \<longleftrightarrow> CHR 0x00 \<in> set n"
    by (metis inj_image_mem_iff)
  then show ?thesis by (simp add: c_string_ok_def c_name_def cstr_def nul_free_def)
qed

section \<open>The symbol table\<close>

text \<open>What the table says of a name: section, offset and binding.\<close>

definition lookup_symbol :: "zl_symbol list \<Rightarrow> string \<Rightarrow> (u32 \<times> u32 \<times> u8) option" where
  "lookup_symbol symbols n =
     map_option (\<lambda>i. (sym_section_index (symbols ! i), sym_value (symbols ! i), sym_binding (symbols ! i)))
       (find_image_symbol symbols n)"

lemma find_symbol_append:
  "find_image_symbol (symbols @ [y]) n =
     (case find_image_symbol symbols n of
        Some i \<Rightarrow> Some i
      | None \<Rightarrow> if c_name (sym_name y) = cstr n then Some (length symbols) else None)"
proof -
  let ?P = "\<lambda>y. c_name (sym_name y) \<noteq> cstr n"
  show ?thesis
  proof (cases "\<exists>x \<in> set symbols. \<not> ?P x")
    case True
    then have "takeWhile ?P (symbols @ [y]) = takeWhile ?P symbols" by (auto simp: takeWhile_append1)
    moreover have "length (takeWhile ?P symbols) < length symbols"
    proof -
      have "dropWhile ?P symbols \<noteq> []" using True by (simp add: dropWhile_eq_Nil_conv)
      then show ?thesis
        using arg_cong [OF takeWhile_dropWhile_id [of ?P symbols], of length]
        by (simp only: length_append flip: length_greater_0_conv)
    qed
    ultimately show ?thesis by (simp add: find_image_symbol_def)
  next
    case False
    then have all: "takeWhile ?P symbols = symbols" by (simp add: takeWhile_eq_all_conv)
    from False have end1: "takeWhile ?P (symbols @ [y]) = symbols @ takeWhile ?P [y]"
      by (simp add: takeWhile_append2)
    show ?thesis unfolding find_image_symbol_def all end1 Let_def by simp
  qed
qed

lemma find_symbol_bound: "find_image_symbol symbols n = Some i \<Longrightarrow> i < length symbols"
  by (simp add: find_image_symbol_Some)

lemma lookup_append:
  "lookup_symbol (symbols @ [y]) n =
     (case lookup_symbol symbols n of
        Some p \<Rightarrow> Some p
      | None \<Rightarrow> if c_name (sym_name y) = cstr n
                then Some (sym_section_index y, sym_value y, sym_binding y) else None)"
  using find_symbol_bound [of symbols n]
  by (auto simp: lookup_symbol_def find_symbol_append nth_append split: option.splits)

lemma lookup_None: "lookup_symbol symbols n = None \<longleftrightarrow> find_image_symbol symbols n = None"
  by (simp add: lookup_symbol_def)

lemma lookup_add_label:
  "lookup_symbol (add_label_symbol sections symbols l) n =
     (case lookup_symbol symbols n of
        Some p \<Rightarrow> Some p
      | None \<Rightarrow> if ln_label l = Some n
                then Some (of_nat (ln_section_index l), of_nat (ln_section_offset l), ZL_IMAGE_SYMBOL_LOCAL)
                else None)"
proof (cases "ln_label l")
  case (Some name)
  show ?thesis
  proof (cases "find_image_symbol symbols name = None")
    case True
    then show ?thesis
      using lookup_None [of symbols name]
      by (cases "lookup_symbol symbols n") (auto simp: add_label_symbol_def Some lookup_append c_name_def)
  next
    case False
    then show ?thesis
      using lookup_None [of symbols name]
      by (cases "lookup_symbol symbols n") (auto simp: add_label_symbol_def Some)
  qed
qed (simp add: add_label_symbol_def split: option.split)

lemma lookup_labels:
  "lookup_symbol (foldl (add_label_symbol sections) symbols ls) n =
     (case lookup_symbol symbols n of
        Some p \<Rightarrow> Some p
      | None \<Rightarrow> map_option (\<lambda>l. (of_nat (ln_section_index l), of_nat (ln_section_offset l), ZL_IMAGE_SYMBOL_LOCAL))
                  (find (\<lambda>l. ln_label l = Some n) ls))"
  by (induction ls arbitrary: symbols) (auto simp: lookup_add_label split: option.split)

lemma find_symbol_names:
  assumes "map sym_name xs = map sym_name ys"
  shows "find_image_symbol xs n = find_image_symbol ys n"
proof -
  let ?P = "\<lambda>m. c_name m \<noteq> cstr n"
  have tw: "length (takeWhile (\<lambda>y. ?P (sym_name y)) zs) = length (takeWhile ?P (map sym_name zs))"
    for zs :: "zl_symbol list"
    by (simp add: takeWhile_map comp_def)
  show ?thesis
    unfolding find_image_symbol_def Let_def tw assms map_eq_imp_length_eq [OF assms] ..
qed

lemma lookup_make_global:
  assumes "make_global symbols g = Inr symbols'"
  shows "lookup_symbol symbols' n =
    (if n = g then map_option (\<lambda>(s, v, b). (s, v, ZL_IMAGE_SYMBOL_GLOBAL)) (lookup_symbol symbols n)
     else lookup_symbol symbols n)" "lookup_symbol symbols g \<noteq> None"
proof -
  obtain i where i: "find_image_symbol symbols g = Some i"
    "symbols' = symbols[i := (symbols ! i)\<lparr>sym_binding := ZL_IMAGE_SYMBOL_GLOBAL\<rparr>]"
    using assms by (auto simp: make_global_def split: option.splits)
  then have "map sym_name symbols' = map sym_name symbols"
    by (simp add: map_update list_update_same_conv find_symbol_bound)
  then have f: "find_image_symbol symbols' n = find_image_symbol symbols n" for n by (rule find_symbol_names)
  have "j \<noteq> i" if "find_image_symbol symbols n = Some j" "n \<noteq> g" for j
    using that i(1) by (auto simp: find_image_symbol_Some)
  then show "lookup_symbol symbols' n =
    (if n = g then map_option (\<lambda>(s, v, b). (s, v, ZL_IMAGE_SYMBOL_GLOBAL)) (lookup_symbol symbols n)
     else lookup_symbol symbols n)"
    unfolding lookup_symbol_def f using i(1) find_symbol_bound [OF i(1)]
    by (cases "find_image_symbol symbols n") (auto simp: i(2))
  show "lookup_symbol symbols g \<noteq> None" using i(1) by (simp add: lookup_symbol_def)
qed

lemma lookup_globals:
  "try_fold make_global symbols gs = Inr symbols' \<Longrightarrow>
     lookup_symbol symbols' n =
       (if n \<in> set gs then map_option (\<lambda>(s, v, b). (s, v, ZL_IMAGE_SYMBOL_GLOBAL)) (lookup_symbol symbols n)
        else lookup_symbol symbols n) \<and>
     (\<forall>g \<in> set gs. lookup_symbol symbols g \<noteq> None)"
proof (induction gs arbitrary: symbols)
  case (Cons g gs)
  then obtain s where s: "make_global symbols g = Inr s" "try_fold make_global s gs = Inr symbols'"
    by (auto simp: try_fold_Cons_Inr simp del: try_fold.simps(2))
  show ?case
    using Cons.IH [OF s(2)] lookup_make_global [OF s(1)]
    by (auto simp: option.map_comp comp_def case_prod_beta split: if_splits)
qed simp

lemma lookup_externals:
  "lookup_symbol (foldl add_external_symbol symbols es) n =
     (case lookup_symbol symbols n of
        Some p \<Rightarrow> Some p
      | None \<Rightarrow> if n \<in> set es then Some (ZL_IMAGE_UNDEFINED_SECTION, 0, ZL_IMAGE_SYMBOL_GLOBAL) else None)"
proof (induction es arbitrary: symbols)
  case (Cons e es)
  have "lookup_symbol (add_external_symbol symbols e) n =
      (case lookup_symbol symbols n of
         Some p \<Rightarrow> Some p
       | None \<Rightarrow> if n = e then Some (ZL_IMAGE_UNDEFINED_SECTION, 0, ZL_IMAGE_SYMBOL_GLOBAL) else None)"
    using lookup_None [of symbols e]
    by (auto simp: add_external_symbol_def lookup_append c_name_def split: option.splits)
  then show ?case by (auto simp: Cons split: option.splits)
qed (simp split: option.split)

text \<open>The symbol table says of a label the place of the first line that has it, exported when the
  program says so, and of an external name that it is undefined.\<close>

lemma object_symbols_lookup:
  assumes "object_symbols c = Inr symbols"
  shows "lookup_symbol symbols n =
    (case find (\<lambda>l. ln_label l = Some n) (ac_lines c) of
       Some l \<Rightarrow> Some (of_nat (ln_section_index l), of_nat (ln_section_offset l),
                  if n \<in> set (ac_globals c) then ZL_IMAGE_SYMBOL_GLOBAL else ZL_IMAGE_SYMBOL_LOCAL)
     | None \<Rightarrow> if n \<in> set (ac_externals c) then Some (ZL_IMAGE_UNDEFINED_SECTION, 0, ZL_IMAGE_SYMBOL_GLOBAL)
               else None)"
proof -
  let ?labels = "foldl (add_label_symbol (ac_sections c)) [] (ac_lines c)"
  have empty: "lookup_symbol [] n = None" for n
    by (simp add: lookup_symbol_def find_image_symbol_def)
  obtain s where s: "try_fold make_global ?labels (ac_globals c) = Inr s"
    "symbols = foldl add_external_symbol s (ac_externals c)"
    using assms by (auto simp: object_symbols_def sbind_Inr)
  show ?thesis
    using lookup_globals [OF s(1), of n]
    by (auto simp: s(2) lookup_externals lookup_labels empty split: option.splits)
qed

section \<open>The image\<close>

definition names_ok :: "assembler \<Rightarrow> bool" where
  "names_ok c \<longleftrightarrow> (\<forall>l \<in> set (ac_lines c). \<forall>n. ln_label l = Some n \<longrightarrow> nul_free n) \<and>
     list_all nul_free (ac_globals c) \<and> list_all nul_free (ac_externals c) \<and>
     (\<forall>n. ac_entry c = Some n \<longrightarrow> nul_free n)"

text \<open>What the encoder asks of a symbol.\<close>

definition symbol_good :: "nat \<Rightarrow> zl_symbol \<Rightarrow> bool" where
  "symbol_good n y \<longleftrightarrow> symbol_ok n y \<and> c_string_ok (sym_name y)"

lemma unat_of_nat_le: "unat (of_nat i :: u32) \<le> i"
  by (simp add: unsigned_of_nat take_bit_nat_less_eq_self)

lemma label_symbols_good:
  "\<forall>l \<in> set ls. line_fits sections l \<and> (\<forall>n. ln_label l = Some n \<longrightarrow> nul_free n) \<Longrightarrow>
     \<forall>y \<in> set symbols. symbol_good (length sections) y \<Longrightarrow>
     \<forall>y \<in> set (foldl (add_label_symbol sections) symbols ls). symbol_good (length sections) y"
proof (induction ls arbitrary: symbols)
  case (Cons l ls)
  have "\<forall>y \<in> set (add_label_symbol sections symbols l). symbol_good (length sections) y"
    using Cons.prems le_less_trans [OF unat_of_nat_le]
    by (auto simp: add_label_symbol_def symbol_good_def symbol_ok_def line_fits_def image_consts not_le
        split: option.splits)
  then show ?case using Cons by simp
qed simp

lemma global_symbols_good:
  "try_fold make_global symbols gs = Inr symbols' \<Longrightarrow>
     \<forall>y \<in> set symbols. symbol_good n y \<Longrightarrow> \<forall>y \<in> set symbols'. symbol_good n y"
proof (induction gs arbitrary: symbols)
  case (Cons g gs)
  then obtain s where s: "make_global symbols g = Inr s" "try_fold make_global s gs = Inr symbols'"
    by (auto simp: try_fold_Cons_Inr simp del: try_fold.simps(2))
  obtain i where i: "find_image_symbol symbols g = Some i"
    "s = symbols[i := (symbols ! i)\<lparr>sym_binding := ZL_IMAGE_SYMBOL_GLOBAL\<rparr>]"
    using s(1) by (auto simp: make_global_def split: option.splits)
  then have "symbol_good n (symbols ! i)" using Cons.prems(2) find_symbol_bound by simp
  then have "symbol_good n ((symbols ! i)\<lparr>sym_binding := ZL_IMAGE_SYMBOL_GLOBAL\<rparr>)"
    by (simp add: symbol_good_def symbol_ok_def image_consts)
  then have "\<forall>y \<in> set s. symbol_good n y"
    using Cons.prems(2) set_update_subset_insert [of symbols i] by (auto simp: i(2))
  then show ?case using Cons.IH s(2) by blast
qed simp

lemma external_symbols_good:
  "list_all nul_free es \<Longrightarrow> \<forall>y \<in> set symbols. symbol_good n y \<Longrightarrow>
     \<forall>y \<in> set (foldl add_external_symbol symbols es). symbol_good n y"
proof (induction es arbitrary: symbols)
  case (Cons e es)
  have "\<forall>y \<in> set (add_external_symbol symbols e). symbol_good n y"
    using Cons.prems by (simp add: add_external_symbol_def symbol_good_def symbol_ok_def image_consts)
  then show ?case using Cons by simp
qed simp

lemma object_symbols_good:
  assumes "object_symbols c = Inr symbols" "context_ok c" "names_ok c"
  shows "\<forall>y \<in> set symbols. symbol_good (length (ac_sections c)) y"
proof -
  obtain s where s: "try_fold make_global (foldl (add_label_symbol (ac_sections c)) [] (ac_lines c))
      (ac_globals c) = Inr s" "symbols = foldl add_external_symbol s (ac_externals c)"
    using assms(1) by (auto simp: object_symbols_def sbind_Inr)
  have "\<forall>y \<in> set (foldl (add_label_symbol (ac_sections c)) [] (ac_lines c)). symbol_good (length (ac_sections c)) y"
    using assms(2,3) by (intro label_symbols_good) (auto simp: context_ok_def names_ok_def)
  then have "\<forall>y \<in> set s. symbol_good (length (ac_sections c)) y" by (rule global_symbols_good [OF s(1)])
  then show ?thesis
    using assms(3) unfolding s(2) names_ok_def by (intro external_symbols_good) simp_all
qed

lemma section_good:
  assumes "section_fits a" "same_frame s (object_image_section a)"
  shows "section_ok s" "section_mem_ok s"
proof -
  have names: "nul_free (as_name a)"
    using assms(1) by (auto simp: section_fits_def is_supported_section_def nul_free_def)
  have f: "sec_name s = Some (cstr (as_name a))" "sec_type s = as_type a" "sec_alignment s = as_alignment a"
    "sec_address s = as_address a" "sec_data_size s = as_size a"
    "map_option length (sec_data s) = (if as_type a = ZL_IMAGE_SECTION_BSS then None else Some (as_size a))"
    using same_frame_fields [OF assms(2)] by (simp_all add: object_image_section_def)
  have t: "as_type a \<in> {ZL_IMAGE_SECTION_TEXT, ZL_IMAGE_SECTION_DATA, ZL_IMAGE_SECTION_BSS}"
    using assms(1) by (simp add: section_fits_def section_type_of_def)
  show "section_ok s"
    using assms(1) f t by (auto simp: section_ok_def section_fits_def image_consts limits vm_sizes split: if_splits)
  show "section_mem_ok s"
    using f names by (auto simp: section_mem_ok_def split: option.splits if_splits)
qed

lemma few_sections:
  assumes "context_ok c"
  shows "length (ac_sections c) \<le> 6"
proof -
  have "set (map as_name (ac_sections c)) \<subseteq> {''.text'', ''text'', ''.data'', ''data'', ''.bss'', ''bss''}"
    using assms by (auto simp: context_ok_def section_fits_def is_supported_section_def)
  then have "card (set (map as_name (ac_sections c))) \<le> card {''.text'', ''text'', ''.data'', ''data'', ''.bss'', ''bss''}"
    by (rule card_mono [rotated]) simp
  then show ?thesis using distinct_card [of "map as_name (ac_sections c)"] assms by (simp add: context_ok_def)
qed

lemma relocation_good:
  assumes "patches l n r" "context_ok c" "l \<in> set (ac_lines c)"
    and "list_all2 same_frame sections (map object_image_section (ac_sections c))"
    and "sec_type (sections ! ln_section_index l) \<noteq> ZL_IMAGE_SECTION_BSS"
  shows "relocation_ok sections (length (ac_sections c)) n r"
proof -
  let ?i = "ln_section_index l"
  have l: "?i < length (ac_sections c)" "ln_section_offset l + 8 \<le> as_size (ac_sections c ! ?i)"
    using assms(1-3)
    by (auto simp: context_ok_def line_fits_def line_end_offset_def patches_def content_size_def ZLVM_INSTRUCTION_SIZE_def)
  then have "section_fits (ac_sections c ! ?i)" using assms(2) by (simp add: context_ok_def)
  then have size: "as_size (ac_sections c ! ?i) \<le> 4096" by (simp add: section_fits_def vm_sizes)
  have "same_frame (sections ! ?i) (object_image_section (ac_sections c ! ?i))"
    using list_all2_nthD2 [OF assms(4), of ?i] l(1) by simp
  then have d: "sec_data_size (sections ! ?i) = as_size (ac_sections c ! ?i)"
    using same_frame_fields(2) by (simp add: object_image_section_def)
  have "unat (of_nat ?i :: u32) = ?i" "unat (of_nat (ln_section_offset l + 4) :: u32) = ln_section_offset l + 4"
    using l size few_sections [OF assms(2)] by (auto intro!: unat_of_nat_u32 simp: limits simp del: of_nat_add)
  then show ?thesis
    using assms(1,5) l d by (simp add: relocation_ok_def patches_def Let_def image_consts)
qed

lemma case_fail_Inr: "(case x of Inl e \<Rightarrow> asm_fail code | Inr b \<Rightarrow> Inr b) = Inr y \<longleftrightarrow> x = Inr y"
  by (cases x) simp_all

text \<open>The image that the translation builds, before encoding.\<close>

lemma translated_image:
  assumes "context_ok c" "names_ok c" "asm_translate_object can_alloc c = Inr bytes"
  obtains symbols sections relocations out where "object_symbols c = Inr symbols"
    "list_all2 same_frame sections (map object_image_section (ac_sections c))"
    "list_all2 (\<lambda>l (bytes, new). object_line (ac_lines c) symbols l = Inr (bytes, new) \<and>
       as_type (ac_sections c ! ln_section_index l) \<noteq> ZL_IMAGE_SECTION_BSS \<and> holds sections l bytes)
       (ac_lines c) out" "relocations = concat (map snd out)"
    "zl_image_encode can_alloc (Some (object_image c symbols sections relocations)) = Inr bytes"
    "valid_image (object_image c symbols sections relocations)"
    "image_mem_ok (object_image c symbols sections relocations)"
proof -
  let ?sections = "map object_image_section (ac_sections c)"
  obtain symbols sections relocations where t: "object_symbols c = Inr symbols"
    "try_fold (emit_line (ac_lines c) symbols) (?sections, []) (ac_lines c) = Inr (sections, relocations)"
    "zl_image_encode can_alloc (Some (object_image c symbols sections relocations)) = Inr bytes"
    using assms(3) by (auto simp: asm_translate_object_def sbind_Inr case_fail_Inr)
  have "\<forall>l \<in> set (ac_lines c). has_room ?sections l"
    using assms(1) by (auto simp: context_ok_def line_fits_def has_room_def object_image_section_def)
  then obtain out where frame: "list_all2 same_frame sections ?sections"
    and out: "list_all2 (\<lambda>l (bytes, new). object_line (ac_lines c) symbols l = Inr (bytes, new) \<and>
       sec_type (?sections ! ln_section_index l) \<noteq> ZL_IMAGE_SECTION_BSS \<and> holds sections l bytes) (ac_lines c) out"
    and rels: "relocations = concat (map snd out)"
    using emit_lines [OF t(2)] assms(1) by (auto simp: context_ok_def)
  have n: "length sections = length (ac_sections c)" using frame by (auto dest: list_all2_lengthD)
  let ?img = "object_image c symbols sections relocations"
  have good: "section_ok s \<and> section_mem_ok s" if s: "s \<in> set sections" for s
  proof -
    obtain i where "i < length sections" "s = sections ! i" using s by (metis in_set_conv_nth)
    then show ?thesis
      using section_good [of "ac_sections c ! i" s] frame assms(1) n
      by (simp add: list_all2_conv_all_nth context_ok_def)
  qed
  have reloc: "relocation_ok sections (length (ac_sections c)) (length symbols) r" if r: "r \<in> set relocations" for r
  proof -
    obtain x where "x \<in> set out" "r \<in> set (snd x)" using r rels by auto
    then obtain i where i: "i < length out" "r \<in> set (snd (out ! i))" by (metis in_set_conv_nth)
    let ?l = "ac_lines c ! i"
    have l: "?l \<in> set (ac_lines c)" using i(1) out by (auto dest: list_all2_lengthD)
    have o: "object_line (ac_lines c) symbols ?l = Inr (out ! i)"
      "sec_type (?sections ! ln_section_index ?l) \<noteq> ZL_IMAGE_SECTION_BSS"
      using list_all2_nthD2 [OF out i(1)] by (auto simp: case_prod_beta)
    have "ln_section_index ?l < length (ac_sections c)"
      using l assms(1) by (auto simp: context_ok_def line_fits_def)
    then have "sec_type (sections ! ln_section_index ?l) \<noteq> ZL_IMAGE_SECTION_BSS"
      using o(2) frame same_frame_fields(1) n by (metis list_all2_nthD)
    then show ?thesis
      using relocation_good [OF _ assms(1) l frame] object_line_facts(2) [of _ symbols ?l "fst (out ! i)" "snd (out ! i)"]
        o(1) i(2) by auto
  qed
  have names: "c_string_ok (map_option cstr (ac_entry c))"
    using assms(2) by (cases "ac_entry c") (simp add: c_string_ok_def c_name_def, simp add: names_ok_def)
  have arrays: "c_array (Some sections) (length sections) = sections"
    "c_array (Some sections) (length (ac_sections c)) = sections"
    "c_array (if symbols = [] then None else Some symbols) (length symbols) = symbols"
    "c_array (if relocations = [] then None else Some relocations) (length relocations) = relocations"
    using n by (auto simp: c_array_def)
  have "image_mem_ok ?img"
    using good object_symbols_good [OF t(1) assms(1,2)] names
    by (auto simp: image_mem_ok_def object_image_def arrays symbol_good_def)
  moreover have "valid_image ?img"
    using good object_symbols_good [OF t(1) assms(1,2)] reloc n
    by (auto simp: valid_image_def null_arrays_def object_image_def arrays symbol_good_def)
  moreover have "list_all2 (\<lambda>l (bytes, new). object_line (ac_lines c) symbols l = Inr (bytes, new) \<and>
       as_type (ac_sections c ! ln_section_index l) \<noteq> ZL_IMAGE_SECTION_BSS \<and> holds sections l bytes)
       (ac_lines c) out"
    using assms(1) by (intro list.rel_mono_strong [OF out])
      (auto simp: context_ok_def line_fits_def object_image_section_def)
  ultimately show thesis using that t(1,3) frame rels by blast
qed

section \<open>Properties\<close>

lemma context_ok_labels: "asm_processLabels c = Inr c' \<Longrightarrow> context_ok c \<Longrightarrow> context_ok c'"
  by (auto simp: asm_processLabels_def sbind_Inr context_ok_def)

lemma program_context_ok:
  "asm_processDirectives can_alloc lines = Inr c \<Longrightarrow> asm_processLabels c = Inr c' \<Longrightarrow> context_ok c'"
  using context_ok_labels process_lines_ok [OF _ context_ok_init] by (auto simp: asm_processDirectives_def)

text \<open>The object of an accepted program is a valid image that decodes to what was assembled: its
  sections are those of the program with their types, flags, addresses, alignments and sizes, and hold
  the bytes of every line at the line's offset; its symbols are the table of the program; and its
  relocations are those of the statements, in order.\<close>

theorem asm_object_decodes:
  assumes "asm_processDirectives can_alloc lines = Inr c\<^sub>0" "asm_processLabels c\<^sub>0 = Inr c"
    and "names_ok c" "asm_translate_object can_alloc c = Inr bytes" "\<And>n. can_alloc' n"
  shows "\<exists>symbols sections relocations out. let img = object_image c symbols sections relocations in
    zl_image_decode can_alloc' (Some bytes) (length bytes) = Inr (normal_image img) \<and> valid_image img \<and>
    object_symbols c = Inr symbols \<and>
    list_all2 same_frame sections (map object_image_section (ac_sections c)) \<and>
    list_all2 (\<lambda>l (bytes, new). object_line (ac_lines c) symbols l = Inr (bytes, new) \<and>
      holds sections l bytes \<and> (\<forall>r \<in> set new. patches l (length symbols) r)) (ac_lines c) out \<and>
    relocations = concat (map snd out)"
proof -
  note ok = program_context_ok [OF assms(1,2)]
  obtain symbols sections relocations out where t: "object_symbols c = Inr symbols"
    "list_all2 same_frame sections (map object_image_section (ac_sections c))"
    "list_all2 (\<lambda>l (bytes, new). object_line (ac_lines c) symbols l = Inr (bytes, new) \<and>
       as_type (ac_sections c ! ln_section_index l) \<noteq> ZL_IMAGE_SECTION_BSS \<and> holds sections l bytes)
       (ac_lines c) out" "relocations = concat (map snd out)"
    and img: "zl_image_encode can_alloc (Some (object_image c symbols sections relocations)) = Inr bytes"
    "valid_image (object_image c symbols sections relocations)"
    "image_mem_ok (object_image c symbols sections relocations)"
    by (rule translated_image [OF ok assms(3,4)])
  have "zl_image_decode can_alloc' (Some bytes) (length bytes) =
      Inr (normal_image (object_image c symbols sections relocations))"
    using img(1) zl_image_decode_layout [OF img(3,2), where can_alloc = can_alloc'] assms(5)
    unfolding zl_image_encode_Inr [OF img(3)] by blast
  moreover have "list_all2 (\<lambda>l (bytes, new). object_line (ac_lines c) symbols l = Inr (bytes, new) \<and>
      holds sections l bytes \<and> (\<forall>r \<in> set new. patches l (length symbols) r)) (ac_lines c) out"
    using object_line_facts(2) by (intro list.rel_mono_strong [OF t(3)]) blast
  ultimately show ?thesis using t img unfolding Let_def by blast
qed

text \<open>C14: The symbol table of an object gives every label the section and offset of the line that
  defines it, exported exactly when the program declares it global, and every other declared external
  name as undefined; and a global name without a label is refused.\<close>

theorem object_symbols_exact:
  "(\<forall>symbols n. object_symbols c = Inr symbols \<longrightarrow> lookup_symbol symbols n =
     (case find (\<lambda>l. ln_label l = Some n) (ac_lines c) of
        Some l \<Rightarrow> Some (of_nat (ln_section_index l), of_nat (ln_section_offset l),
                   if n \<in> set (ac_globals c) then ZL_IMAGE_SYMBOL_GLOBAL else ZL_IMAGE_SYMBOL_LOCAL)
      | None \<Rightarrow> if n \<in> set (ac_externals c) then Some (ZL_IMAGE_UNDEFINED_SECTION, 0, ZL_IMAGE_SYMBOL_GLOBAL)
                else None)) \<and>
   ((\<exists>symbols. object_symbols c = Inr symbols) \<longleftrightarrow>
     (\<forall>g \<in> set (ac_globals c). \<exists>l \<in> set (ac_lines c). ln_label l = Some g))"
proof (intro conjI allI impI)
  let ?labels = "foldl (add_label_symbol (ac_sections c)) [] (ac_lines c)"
  have known: "lookup_symbol ?labels g \<noteq> None \<longleftrightarrow> (\<exists>l \<in> set (ac_lines c). ln_label l = Some g)" for g
  proof -
    have "lookup_symbol ?labels g = None \<longleftrightarrow> find (\<lambda>l. ln_label l = Some g) (ac_lines c) = None"
      by (simp add: lookup_labels) (simp add: lookup_symbol_def find_image_symbol_def)
    then show ?thesis by (auto simp: find_None_iff)
  qed
  have total: "\<exists>s. try_fold make_global symbols gs = Inr s"
    if "\<forall>g \<in> set gs. lookup_symbol symbols g \<noteq> None" for gs symbols
    using that
  proof (induction gs arbitrary: symbols)
    case (Cons g gs)
    then obtain i where "find_image_symbol symbols g = Some i" by (auto simp: lookup_symbol_def)
    then obtain s where s: "make_global symbols g = Inr s" by (simp add: make_global_def)
    have "\<forall>g \<in> set gs. lookup_symbol s g \<noteq> None"
      using Cons.prems lookup_make_global(1) [OF s] by simp
    then show ?case using Cons.IH [of s] s by simp
  qed simp
  show "(\<exists>symbols. object_symbols c = Inr symbols) \<longleftrightarrow>
     (\<forall>g \<in> set (ac_globals c). \<exists>l \<in> set (ac_lines c). ln_label l = Some g)"
    unfolding known [symmetric]
    using lookup_globals [of ?labels "ac_globals c"] total [of "ac_globals c" ?labels]
    by (auto simp: object_symbols_def sbind_Inr)
qed (rule object_symbols_lookup)

text \<open>A section of type BSS takes neither code nor data, reserved space included: the object of a
  program with a line in such a section is refused.\<close>

theorem bss_takes_no_line:
  assumes "asm_processDirectives can_alloc lines = Inr c\<^sub>0" "asm_processLabels c\<^sub>0 = Inr c"
    and "l \<in> set (ac_lines c)" "as_type (ac_sections c ! ln_section_index l) = ZL_IMAGE_SECTION_BSS"
  shows "\<exists>d. asm_translate_object can_alloc c = Inl d"
proof (rule ccontr)
  assume "\<nexists>d. asm_translate_object can_alloc c = Inl d"
  then obtain bytes where bytes: "asm_translate_object can_alloc c = Inr bytes"
    by (cases "asm_translate_object can_alloc c") auto
  note ok = program_context_ok [OF assms(1,2)]
  let ?sections = "map object_image_section (ac_sections c)"
  obtain symbols st where
    t: "try_fold (emit_line (ac_lines c) symbols) (?sections, []) (ac_lines c) = Inr (fst st, snd st)"
    using bytes by (auto simp: asm_translate_object_def sbind_Inr)
  have "\<forall>l \<in> set (ac_lines c). has_room ?sections l"
    using ok by (auto simp: context_ok_def line_fits_def has_room_def object_image_section_def)
  then obtain out where "list_all2 (\<lambda>l (bytes, new). object_line (ac_lines c) symbols l = Inr (bytes, new) \<and>
       sec_type (?sections ! ln_section_index l) \<noteq> ZL_IMAGE_SECTION_BSS \<and> holds (fst st) l bytes) (ac_lines c) out"
    using emit_lines [OF t] ok by (auto simp: context_ok_def)
  then have "sec_type (?sections ! ln_section_index l) \<noteq> ZL_IMAGE_SECTION_BSS"
    using assms(3) by (auto simp: in_set_conv_nth list_all2_conv_all_nth case_prod_beta)
  moreover have "ln_section_index l < length (ac_sections c)"
    using ok assms(3) by (simp add: context_ok_def line_fits_def)
  ultimately show False using assms(4) by (simp add: object_image_section_def)
qed

section \<open>References to labels\<close>

lemma encoded_immediate:
  "le_read ((!) (encoded (make_instruction op cond r1 r2 imm))) 4 4 = imm"
proof -
  have "instruction_decode (Some undefined) (Some (encoded (make_instruction op cond r1 r2 imm))) 8 =
      Some (make_instruction op cond r1 r2 imm)"
    using instruction_decode_of_encode [OF make_instruction_encodes(1), of 8] by simp
  then show ?thesis
    by (auto simp: instruction_decode_def ZLVM_INSTRUCTION_SIZE_def make_instruction_def)
qed

lemma held_immediate:
  assumes "take 8 (drop a data) = bytes" "length bytes = 8"
  shows "(le_read ((!) data) 4 (a + 4) :: u32) = le_read ((!) bytes) 4 4"
proof (rule le_read_cong)
  fix i :: nat assume "i < 4"
  then have "bytes ! (4 + i) = drop a data ! (4 + i)" using assms(1) [symmetric] by simp
  moreover have "a + 8 \<le> length data"
    using assms(2) arg_cong [OF assms(1), of length] by (simp add: min_def split: if_splits)
  ultimately show "data ! (a + 4 + i) = bytes ! (4 + i)" by (simp add: add.assoc)
qed

text \<open>The statement lines of a translated image, with what they left in it.\<close>

lemma statement_in_image:
  assumes ok: "context_ok c" and l: "l \<in> set (ac_lines c)" "ln_content l = L_STMT s"
    and out: "list_all2 (\<lambda>l (bytes, new). object_line (ac_lines c) symbols l = Inr (bytes, new) \<and>
      holds sections l bytes \<and> (\<forall>r \<in> set new. patches l n r)) (ac_lines c) out"
  obtains data imm new where "sec_data (sections ! ln_section_index l) = Some data"
    "le_read ((!) data) 4 (ln_section_offset l + 4) = imm"
    "object_immediate (ac_lines c) symbols l (st_imm s) = Inr (imm, new)" "new \<in> set (map snd out)"
    "\<forall>r \<in> set (concat (map snd out)). rel_section_index r = of_nat (ln_section_index l) \<longrightarrow>
       rel_offset r = of_nat (ln_section_offset l + 4) \<longrightarrow> r \<in> set new"
proof -
  obtain i where i: "i < length (ac_lines c)" "l = ac_lines c ! i" using l(1) by (metis in_set_conv_nth)
  have len: "length out = length (ac_lines c)" using out by (auto dest: list_all2_lengthD)
  note nth = list_all2_nthD [OF out]
  obtain bytes new where o: "out ! i = (bytes, new)" by (cases "out ! i") simp
  have oi: "object_line (ac_lines c) symbols l = Inr (bytes, new)" "holds sections l bytes"
    using nth [OF i(1)] i(2) o by auto
  then obtain op cond r1 r2 imm where e: "object_immediate (ac_lines c) symbols l (st_imm s) = Inr (imm, new)"
    "bytes = encoded (make_instruction op cond r1 r2 imm)"
    by (auto simp: object_line_def l(2) elim: object_statement_Inr)
  obtain data where d: "sec_data (sections ! ln_section_index l) = Some data"
    "take 8 (drop (ln_section_offset l) data) = bytes" "length bytes = 8"
    using oi(2) e(2) make_instruction_encodes(2) by (auto simp: holds_def)
  have imm: "le_read ((!) data) 4 (ln_section_offset l + 4) = imm"
    using held_immediate [OF d(2,3)] encoded_immediate e(2) by simp
  have "r \<in> set new" if r: "r \<in> set (concat (map snd out))" "rel_section_index r = of_nat (ln_section_index l)"
    "rel_offset r = of_nat (ln_section_offset l + 4)" for r
  proof -
    obtain x where "x \<in> set out" "r \<in> set (snd x)" using r(1) by auto
    then obtain j where j: "j < length (ac_lines c)" "r \<in> set (snd (out ! j))" by (metis in_set_conv_nth len)
    let ?k = "ac_lines c ! j"
    have p: "patches ?k n r" using nth [OF j(1)] j(2) by (auto simp: case_prod_beta)
    have fit: "ln_section_index k < length (ac_sections c) \<and> ln_section_offset k + 8 \<le> 4096"
      if k: "k \<in> set (ac_lines c)" "ln_content k = L_STMT t" for k t
    proof -
      have "line_fits (ac_sections c) k" using ok k(1) by (simp add: context_ok_def)
      moreover from this have "section_fits (ac_sections c ! ln_section_index k)"
        using ok by (simp add: context_ok_def line_fits_def)
      ultimately show ?thesis
        using k(2) by (auto simp: line_fits_def line_end_offset_def content_size_def ZLVM_INSTRUCTION_SIZE_def
            section_fits_def vm_sizes)
    qed
    obtain t where t: "ln_content ?k = L_STMT t" using p by (auto simp: patches_def)
    note fits = fit [OF l] fit [OF nth_mem [OF j(1)] t] few_sections [OF ok]
    have "unat (of_nat (ln_section_index k) :: u32) = ln_section_index k \<and>
        unat (of_nat (ln_section_offset k + 4) :: u32) = ln_section_offset k + 4" if "k = l \<or> k = ?k" for k
      using that fits by (auto intro!: unat_of_nat_u32 simp: limits simp del: of_nat_add)
    then have same: "ln_section_index ?k = ln_section_index l" "ln_section_offset ?k = ln_section_offset l"
      using p r(2,3) unfolding patches_def by (metis add_right_cancel)+
    have size: "ln_size l = 8" "ln_size ?k = 8"
      using ok l t nth_mem [OF j(1)]
      by (auto simp: context_ok_def line_fits_def content_size_def ZLVM_INSTRUCTION_SIZE_def)
    have "j = i"
    proof (rule ccontr)
      assume "j \<noteq> i"
      then have "before l ?k \<or> before ?k l"
        using ok i j(1) unfolding context_ok_def by (metis linorder_neqE_nat sorted_wrt_nth_less)
      then show False using same size by (auto simp: before_def line_end_offset_def)
    qed
    then show ?thesis using j(2) o by simp
  qed
  moreover have "new \<in> set (map snd out)" using o i(1) len by (force simp: in_set_conv_nth)
  ultimately show thesis using that d(1) imm e(1) by blast
qed

lemma image_arrays [simp]:
  "length sections = length (ac_sections c) \<Longrightarrow>
     image_sections (normal_image (object_image c symbols sections relocations)) = map normal_section sections"
  "image_symbols (normal_image (object_image c symbols sections relocations)) = map normal_symbol symbols"
  "image_relocations (normal_image (object_image c symbols sections relocations)) = relocations"
  by (simp_all add: normal_image_def) (simp_all add: object_image_def c_array_def)

lemma find_normal_symbol: "find_image_symbol (map normal_symbol symbols) n = find_image_symbol symbols n"
proof -
  have "length (takeWhile (\<lambda>y. c_name (sym_name y) \<noteq> cstr n) (map normal_symbol symbols)) =
      length (takeWhile (\<lambda>y. c_name (sym_name y) \<noteq> cstr n) symbols)"
    by (simp add: takeWhile_map comp_def normal_symbol_def c_name_def)
  then show ?thesis by (simp add: find_image_symbol_def)
qed

text \<open>In an object, a reference to a label of its own section holds the label's offset in the
  section and no relocation applies to it, so that it stays as it is wherever the section is placed; a
  reference to any other name holds zero and has one relocation, absolute and against the symbol of
  that name.\<close>

theorem object_label_references:
  assumes "asm_processDirectives can_alloc lines = Inr c\<^sub>0" "asm_processLabels c\<^sub>0 = Inr c"
    and "names_ok c" "asm_translate_object can_alloc c = Inr bytes" "\<And>n. can_alloc' n"
    and "l \<in> set (ac_lines c)" "ln_content l = L_STMT s" "st_imm s = Some t" "tok_type t = TOK_LABEL_USE"
  shows "\<exists>img data. zl_image_decode can_alloc' (Some bytes) (length bytes) = Inr img \<and>
    sec_data (image_sections img ! ln_section_index l) = Some data \<and>
    (let place = {r \<in> set (image_relocations img). rel_section_index r = of_nat (ln_section_index l) \<and>
       rel_offset r = of_nat (ln_section_offset l + 4)};
         field = (le_read ((!) data) 4 (ln_section_offset l + 4) :: u32)
     in case find_symbol_line (ac_lines c) (tok_value t) (ln_section_index l) of
          Some offset \<Rightarrow> field = of_nat offset \<and> place = {}
        | None \<Rightarrow> field = 0 \<and>
            (\<exists>i. find_image_symbol (image_symbols img) (tok_value t) = Some i \<and> place =
              {\<lparr>rel_section_index = of_nat (ln_section_index l), rel_offset = of_nat (ln_section_offset l + 4),
                rel_type = ZL_IMAGE_RELOCATION_ABSOLUTE32, rel_symbol_index = of_nat i, rel_addend = 0\<rparr>}))"
proof -
  note ok = program_context_ok [OF assms(1,2)]
  obtain symbols sections relocations out where t: "object_symbols c = Inr symbols"
    "list_all2 same_frame sections (map object_image_section (ac_sections c))"
    "list_all2 (\<lambda>l (bytes, new). object_line (ac_lines c) symbols l = Inr (bytes, new) \<and>
       as_type (ac_sections c ! ln_section_index l) \<noteq> ZL_IMAGE_SECTION_BSS \<and> holds sections l bytes)
       (ac_lines c) out" "relocations = concat (map snd out)"
    and img: "zl_image_encode can_alloc (Some (object_image c symbols sections relocations)) = Inr bytes"
    "valid_image (object_image c symbols sections relocations)"
    "image_mem_ok (object_image c symbols sections relocations)"
    by (rule translated_image [OF ok assms(3,4)])
  let ?img = "normal_image (object_image c symbols sections relocations)"
  have dec: "zl_image_decode can_alloc' (Some bytes) (length bytes) = Inr ?img"
    using img(1) zl_image_decode_layout [OF img(3,2), where can_alloc = can_alloc'] assms(5)
    unfolding zl_image_encode_Inr [OF img(3)] by blast
  have "list_all2 (\<lambda>l (bytes, new). object_line (ac_lines c) symbols l = Inr (bytes, new) \<and>
      holds sections l bytes \<and> (\<forall>r \<in> set new. patches l (length symbols) r)) (ac_lines c) out"
    using object_line_facts(2) by (intro list.rel_mono_strong [OF t(3)]) blast
  then obtain data imm new where d: "sec_data (sections ! ln_section_index l) = Some data"
    "le_read ((!) data) 4 (ln_section_offset l + 4) = imm"
    "object_immediate (ac_lines c) symbols l (st_imm s) = Inr (imm, new)" "new \<in> set (map snd out)"
    "\<forall>r \<in> set (concat (map snd out)). rel_section_index r = of_nat (ln_section_index l) \<longrightarrow>
       rel_offset r = of_nat (ln_section_offset l + 4) \<longrightarrow> r \<in> set new"
    by (rule statement_in_image [OF ok assms(6,7)])
  have i: "ln_section_index l < length (ac_sections c)" "length sections = length (ac_sections c)"
    using ok assms(6) t(2) by (auto simp: context_ok_def line_fits_def dest: list_all2_lengthD)
  have data: "sec_data (image_sections ?img ! ln_section_index l) = Some data"
  proof -
    let ?s = "sections ! ln_section_index l" and ?a = "ac_sections c ! ln_section_index l"
    have f: "same_frame ?s (object_image_section ?a)"
      using list_all2_nthD2 [OF t(2), of "ln_section_index l"] i by simp
    have "sec_type ?s \<noteq> ZL_IMAGE_SECTION_BSS" "sec_data_size ?s = length data"
      using same_frame_fields(1,2,7) [OF f] d(1) by (auto simp: object_image_section_def split: if_splits)
    moreover have "c_array (Some data) (length data) = data" by (simp add: c_array_def)
    ultimately show ?thesis using d(1) i by (simp add: image_arrays(1) [OF i(2)] normal_section_def)
  qed
  have "set new \<subseteq> set relocations" using d(4) by (auto simp: t(4))
  then have place: "{r \<in> set relocations. rel_section_index r = of_nat (ln_section_index l) \<and>
       rel_offset r = of_nat (ln_section_offset l + 4)} =
      {r \<in> set new. rel_section_index r = of_nat (ln_section_index l) \<and> rel_offset r = of_nat (ln_section_offset l + 4)}"
    using d(5) unfolding t(4) [symmetric] by blast
  show ?thesis
    using d(3) assms(8,9)
    by (intro exI [of _ ?img] exI [of _ data] conjI dec data)
      (auto simp: Let_def place [simplified] d(2) find_normal_symbol object_immediate_def split: option.splits)
qed

end
