(* ===== verification/Macro_Facts.thy ===== *)
theory Macro_Facts
  imports Macros
begin

text \<open>
  What macro expansion leaves: no definition and no invocation, so that expanding again changes
  nothing; tokens without macros pass unchanged; and every token of the result reports the place of a
  token outside the definitions, which for a token of a macro's body is the invocation.
\<close>

section \<open>Tokens without macros\<close>

definition at_name :: "token \<Rightarrow> bool" where
  "at_name t \<longleftrightarrow> tok_type t = TOK_ID \<and> (case tok_value t of c # _ \<Rightarrow> c = CHR ''@'' | [] \<Rightarrow> False)"

text \<open>The line-start flag of \<^verbatim>\<open>expand_range\<close> after a token.\<close>

definition starts_line :: "bool \<Rightarrow> token \<Rightarrow> bool" where
  "starts_line s t \<longleftrightarrow> tok_type t = TOK_NEWLINE \<or> (s \<and> tok_type t = TOK_LABEL_INIT)"

text \<open>No definition begins and no line begins with an explicit invocation.\<close>

fun macro_free :: "bool \<Rightarrow> token list \<Rightarrow> bool" where
  "macro_free s [] \<longleftrightarrow> True"
| "macro_free s (t # ts) \<longleftrightarrow>
     \<not> is_directive t ''macro'' \<and> \<not> (s \<and> at_name t) \<and> macro_free (starts_line s t) ts"

lemma macro_free_mono: "macro_free True ts \<Longrightarrow> macro_free s ts"
proof (induction ts arbitrary: s)
  case (Cons t ts)
  have "starts_line s t \<longrightarrow> starts_line True t" by (auto simp: starts_line_def)
  with Cons show ?case by (cases "starts_line True t") auto
qed simp

lemma macro_free_append: "macro_free s xs \<Longrightarrow> macro_free True ys \<Longrightarrow> macro_free s (xs @ ys)"
  by (induction s xs rule: macro_free.induct) (auto intro: macro_free_mono)

lemma clone_token_same [simp]:
  "is_directive (clone_token t l) name = is_directive t name" "tok_type (clone_token t l) = tok_type t"
  "at_name (clone_token t l) = at_name t" "starts_line s (clone_token t l) = starts_line s t"
  "clone_token t None = t" "tok_value (clone_token t l) = tok_value t"
  by (auto simp: clone_token_def is_directive_def at_name_def starts_line_def split: option.splits)

lemma clone_token_location: "token_location (clone_token t (Some l)) = token_location l"
  by (simp add: clone_token_def token_location_def)

lemma invokes_at: "\<not> invokes macros s t \<Longrightarrow> \<not> (s \<and> at_name t)"
  by (auto simp: invokes_def at_name_def split: list.splits)

lemma invokes_none: "invokes [] s t \<longleftrightarrow> s \<and> at_name t"
  by (auto simp: invokes_def at_name_def find_macro_def)

lemma expand_range_Inr:
  assumes "expand_range macros stack location s (t # ts) = Inr out"
  obtains (skip) "is_directive t ''macro''"
      "expand_range macros stack location True (skip_macro_definition (t # ts)) = Inr out"
    | (call) m body expanded rest where "\<not> is_directive t ''macro''" "invokes macros s t"
      "find_macro macros (invoked_name t) = Some m" "enter_macro m (line_tokens ts) stack t = Inr body"
      "expand_range macros (stack @ [m]) (Some t) True body = Inr expanded"
      "expand_range macros stack location True (tl (line_end ts)) = Inr rest" "out = expanded @ rest"
    | (keep) rest where "\<not> is_directive t ''macro''" "\<not> invokes macros s t"
      "expand_range macros stack location (starts_line s t) ts = Inr rest"
      "out = clone_token t location # rest"
  using assms
  by (auto simp: expand_range.simps(2) sbind_Inr starts_line_def split: if_splits option.splits)

text \<open>Successful expansion as a relation.\<close>

inductive expands ::
  "macro list \<Rightarrow> macro list \<Rightarrow> token option \<Rightarrow> bool \<Rightarrow> token list \<Rightarrow> token list \<Rightarrow> bool" for macros where
  nothing: "expands macros stack location s [] []"
| skip: "is_directive t ''macro'' \<Longrightarrow>
     expands macros stack location True (skip_macro_definition (t # ts)) out \<Longrightarrow>
     expands macros stack location s (t # ts) out"
| call: "\<not> is_directive t ''macro'' \<Longrightarrow> invokes macros s t \<Longrightarrow>
     find_macro macros (invoked_name t) = Some m \<Longrightarrow> enter_macro m (line_tokens ts) stack t = Inr body \<Longrightarrow>
     expands macros (stack @ [m]) (Some t) True body expanded \<Longrightarrow>
     expands macros stack location True (tl (line_end ts)) rest \<Longrightarrow>
     expands macros stack location s (t # ts) (expanded @ rest)"
| keep: "\<not> is_directive t ''macro'' \<Longrightarrow> \<not> invokes macros s t \<Longrightarrow>
     expands macros stack location (starts_line s t) ts rest \<Longrightarrow>
     expands macros stack location s (t # ts) (clone_token t location # rest)"

lemma expand_range_expands:
  "expand_range macros stack location s ts = Inr out \<Longrightarrow> expands macros stack location s ts out"
proof (induction macros stack location s ts arbitrary: out rule: expand_range.induct)
  case (2 macros stack location s t ts)
  from "2.prems" show ?case
  proof (cases rule: expand_range_Inr)
    case skip
    then show ?thesis using "2.IH"(1) expands.skip by blast
  next
    case (call m body expanded rest)
    then show ?thesis
      using "2.IH"(2) [OF call(1-4) call(5)] "2.IH"(3) [OF call(1-5) call(6)] expands.call by blast
  next
    case (keep rest)
    then show ?thesis
      using "2.IH"(4) [OF keep(1,2) keep(3) [unfolded starts_line_def]] expands.keep
      by (simp add: starts_line_def)
  qed
qed (simp add: expands.nothing)

lemma expands_free: "expands macros stack location s ts out \<Longrightarrow> macro_free s out"
proof (induction rule: expands.induct)
  case (keep t s stack location ts rest)
  then show ?case using invokes_at [of macros s t] by simp
qed (simp_all add: macro_free_append macro_free_mono)

lemma expand_range_id:
  "macro_free s ts \<Longrightarrow> expand_range [] stack None s ts = Inr ts"
  by (induction s ts rule: macro_free.induct)
    (auto simp: expand_range.simps(2) invokes_none starts_line_def)

lemma capture_macros_none:
  "macro_free s ts \<Longrightarrow> list_all (\<lambda>t. \<not> is_directive t ''endmacro'') ts \<Longrightarrow> capture_macros macros ts = Inr macros"
  by (induction s ts rule: macro_free.induct) simp_all

lemma macros_expand_id:
  "macro_free True ts \<Longrightarrow> list_all (\<lambda>t. \<not> is_directive t ''endmacro'') ts \<Longrightarrow> macros_expand ts = Inr ts"
  by (simp add: macros_expand_def capture_macros_none expand_range_id)

section \<open>Locations\<close>

lemma expand_body_location: "u \<in> set (expand_body m values t) \<Longrightarrow> token_location u = token_location t"
  by (auto simp: expand_body_def clone_token_location Let_def)
    (simp add: clone_token_def token_location_def)

lemma enter_macro_Inr:
  "enter_macro m args stack t = Inr body \<longleftrightarrow>
     \<not> is_expanding m stack \<and> length stack < 64 \<and>
     (\<exists>values. read_arguments m args t = Inr values \<and> body = expand_body m values t)"
  by (auto simp: enter_macro_def sbind_Inr)

lemma set_tl_line_end: "set (tl (line_end ts)) \<subseteq> set ts"
proof -
  have "set (tl (line_end ts)) \<subseteq> set (line_end ts)" by (cases "line_end ts") auto
  also have "\<dots> \<subseteq> set ts" using set_dropWhileD by (fastforce simp: line_end_def)
  finally show ?thesis .
qed

lemma set_skip_macro_definition: "set (skip_macro_definition ts) \<subseteq> set ts"
proof -
  have "set (dropWhile P ts) \<subseteq> set ts" for P using set_dropWhileD by fastforce
  then show ?thesis using set_tl_line_end unfolding skip_macro_definition_def by blast
qed

lemma expands_location:
  "expands macros stack location s ts out \<Longrightarrow> location = Some l \<Longrightarrow>
     \<forall>u \<in> set ts. token_location u = token_location l \<Longrightarrow>
     \<forall>u \<in> set out. token_location u = token_location l"
proof (induction arbitrary: l rule: expands.induct)
  case (skip t stack location ts out s)
  then show ?case using set_skip_macro_definition by blast
next
  case (call t s m ts stack body expanded location rest)
  have "\<forall>u \<in> set body. token_location u = token_location t"
    using call.hyps(4) expand_body_location by (auto simp: enter_macro_Inr)
  then have "\<forall>u \<in> set expanded. token_location u = token_location t"
    by (rule call.IH(1) [OF refl])
  moreover have "token_location t = token_location l" using call.prems(2) by (meson list.set_intros(1))
  moreover have "\<forall>u \<in> set rest. token_location u = token_location l"
    using call.prems set_tl_line_end [of ts] by (intro call.IH(2)) (meson list.set_intros(2) subsetD)+
  ultimately show ?case unfolding set_append by (metis Un_iff)
next
  case (keep t s stack location ts rest)
  then show ?case by (simp add: clone_token_location)
qed simp

section \<open>Calls\<close>

text \<open>Positional arguments: no comment, line end or named argument among the tokens.\<close>

definition positional :: "token \<Rightarrow> bool" where
  "positional t \<longleftrightarrow> tok_type t \<noteq> TOK_COMMENT \<and> tok_type t \<noteq> TOK_NEWLINE \<and>
     \<not> (tok_type t = TOK_ID \<and> CHR ''='' \<in> set (tok_value t))"

abbreviation values_of :: "token list \<Rightarrow> token list" where
  "values_of args \<equiv> filter (\<lambda>t. tok_type t \<noteq> TOK_COMMA) args"

lemma read_positional:
  "list_all positional args \<Longrightarrow> length pre + length (values_of args) \<le> length (mac_parameters m) \<Longrightarrow>
     read_arguments_loop m t (map Some pre @ replicate (length (mac_parameters m) - length pre) None)
       (length pre) False args =
     Inr (map Some (pre @ values_of args) @
       replicate (length (mac_parameters m) - length pre - length (values_of args)) None)"
proof (induction args arbitrary: pre)
  case (Cons a args)
  show ?case
  proof (cases "tok_type a = TOK_COMMA")
    case True
    then show ?thesis using Cons by simp
  next
    case False
    define n where "n = length (mac_parameters m) - length pre - 1"
    have n: "length (mac_parameters m) - length pre = Suc n" "length pre < length (mac_parameters m)"
      using Cons.prems(2) False by (auto simp: n_def)
    have "(map Some pre @ None # replicate n None)[length pre := Some a] = map Some (pre @ [a]) @ replicate n None"
      by (simp add: list_update_append)
    moreover have "read_arguments_loop m t (map Some (pre @ [a]) @ replicate n None) (length (pre @ [a])) False args =
        Inr (map Some ((pre @ [a]) @ values_of args) @ replicate (n - length (values_of args)) None)"
      using Cons.IH [of "pre @ [a]"] Cons.prems False n by (simp add: n_def)
    ultimately show ?thesis
      using Cons.prems False n by (auto simp: positional_def)
  qed
qed simp

lemma read_arguments_positional:
  assumes "list_all positional args" "length (values_of args) = length (mac_parameters m)"
  shows "read_arguments m args t = Inr (values_of args)"
  using read_positional [of args "[]" m t] assms
  by (simp add: read_arguments_def list_ex_iff comp_def)

text \<open>Expansion leaves no definition and no line that begins with an explicit invocation; tokens
  without macros pass unchanged, so that expanding a result again changes nothing, unless an argument
  brought in an \<^verbatim>\<open>.endmacro\<close>.\<close>

theorem macros_expand_normal:
  "(macro_free True ts \<and> list_all (\<lambda>t. \<not> is_directive t ''endmacro'') ts \<longrightarrow> macros_expand ts = Inr ts) \<and>
   (macros_expand ts = Inr out \<longrightarrow> macro_free True out) \<and>
   (macros_expand ts = Inr out \<and> list_all (\<lambda>t. \<not> is_directive t ''endmacro'') out \<longrightarrow>
      macros_expand out = Inr out)"
proof -
  have "macro_free True out" if "macros_expand ts = Inr out"
    using that expands_free [OF expand_range_expands]
    by (auto simp: macros_expand_def sbind_Inr split: if_splits)
  then show ?thesis using macros_expand_id by blast
qed

text \<open>What an invocation \<open>t\<close> with these arguments makes of a token of the body: an identifier, a label use or a
  label definition that names a parameter becomes that parameter's argument, where a label definition stays
  one; every other token stays what it is. All of them stand where the invocation stands.\<close>

definition argument_for :: "macro \<Rightarrow> token list \<Rightarrow> token \<Rightarrow> token option" where
  "argument_for m args b =
     (if tok_type b \<in> {TOK_ID, TOK_LABEL_USE, TOK_LABEL_INIT}
      then map_of (zip (map tok_value (mac_parameters m)) args) (tok_value b) else None)"

definition replaces :: "macro \<Rightarrow> token list \<Rightarrow> token \<Rightarrow> token \<Rightarrow> token \<Rightarrow> bool" where
  "replaces m args t b u \<longleftrightarrow> token_location u = token_location t \<and>
     (case argument_for m args b of
        None \<Rightarrow> tok_value u = tok_value b \<and> tok_type u = tok_type b
      | Some v \<Rightarrow> tok_value u = tok_value v \<and>
          tok_type u = (if tok_type b = TOK_LABEL_INIT then TOK_LABEL_INIT else tok_type v))"

lemma map_of_parameters:
  "length args = length ps \<Longrightarrow>
     map_of (zip (map tok_value ps) args) x =
       (let i = length (takeWhile (\<lambda>p. tok_value p \<noteq> x) ps) in if i = length ps then None else Some (args ! i))"
  by (induction args ps rule: list_induct2) (auto simp: Let_def)

lemma argument_for_index:
  "length args = length (mac_parameters m) \<Longrightarrow>
     argument_for m args b =
       (let i = (if tok_type b \<in> {TOK_ID, TOK_LABEL_USE, TOK_LABEL_INIT}
                 then parameter_index m (tok_value b) else length (mac_parameters m))
        in if i = length (mac_parameters m) then None else Some (args ! i))"
  by (simp add: argument_for_def map_of_parameters parameter_index_def Let_def)

lemma expand_body_replaces:
  assumes "length args = length (mac_parameters m)"
  shows "list_all2 (replaces m args t) (mac_body m) (expand_body m args t)"
  unfolding expand_body_def list.rel_map
  by (rule list.rel_refl)
    (simp add: replaces_def argument_for_index [OF assms] Let_def,
     simp add: clone_token_def token_location_def)

lemma replaces_unique: "replaces m args t b u \<Longrightarrow> replaces m args t b v \<Longrightarrow> u = v"
  by (cases u; cases v) (auto simp: replaces_def token_location_def split: option.splits)

lemma replaces_all_unique:
  "list_all2 (replaces m args t) bs us \<Longrightarrow> list_all2 (replaces m args t) bs vs \<Longrightarrow> us = vs"
  by (auto simp: list_all2_conv_all_nth list_eq_iff_nth_eq) (metis replaces_unique)

text \<open>No definition begins here and no line begins with an invocation.\<close>

fun calls_nothing :: "macro list \<Rightarrow> bool \<Rightarrow> token list \<Rightarrow> bool" where
  "calls_nothing macros s [] \<longleftrightarrow> True"
| "calls_nothing macros s (t # ts) \<longleftrightarrow>
     \<not> is_directive t ''macro'' \<and>
     \<not> (s \<and> tok_type t = TOK_ID \<and> (at_name t \<or> find_macro macros (tok_value t) \<noteq> None)) \<and>
     calls_nothing macros (starts_line s t) ts"

lemma calls_nothing_invokes:
  "\<not> (s \<and> tok_type t = TOK_ID \<and> (at_name t \<or> find_macro macros (tok_value t) \<noteq> None)) \<Longrightarrow> \<not> invokes macros s t"
  by (cases "tok_value t") (auto simp: invokes_def invoked_name_def at_name_def)

lemma clone_token_placed: "token_location u = token_location t \<Longrightarrow> clone_token u (Some t) = u"
  by (simp add: clone_token_def token_location_def)

lemma expand_range_keeps:
  "calls_nothing macros s ts \<Longrightarrow> \<forall>u \<in> set ts. token_location u = token_location t \<Longrightarrow>
     expand_range macros stack (Some t) s ts = Inr ts"
proof (induction macros s ts rule: calls_nothing.induct)
  case (2 macros s u ts)
  then show ?case
    using calls_nothing_invokes [of s u macros]
    by (simp add: expand_range.simps(2) clone_token_placed flip: starts_line_def)
qed simp

lemma expand_range_call:
  assumes "tok_type t = TOK_ID" "find_macro macros (invoked_name t) = Some m"
    and "list_all positional args" "length (values_of args) = length (mac_parameters m)"
    and "tok_type nl = TOK_NEWLINE"
  shows "expand_range macros stack location True (t # args @ nl # ts) =
      (if is_expanding m stack \<or> 64 \<le> length stack
       then asm_token_fail ZLASM_DIAGNOSTIC_MACRO_RECURSION (Some t)
       else sbind (expand_range macros (stack @ [m]) (Some t) True (expand_body m (values_of args) t)) (\<lambda>expanded.
            sbind (expand_range macros stack location True ts) (\<lambda>rest. Inr (expanded @ rest))))"
proof -
  have "\<forall>x \<in> set args. tok_type x \<noteq> TOK_NEWLINE"
    using assms(3) by (auto simp: list_all_iff positional_def)
  then have "line_tokens (args @ nl # ts) = args" "line_end (args @ nl # ts) = nl # ts"
    using assms(5) by (simp_all add: line_tokens_def line_end_def takeWhile_append dropWhile_append)
  then show ?thesis
    using assms(1,2) read_arguments_positional [OF assms(3,4), of t]
    by (simp add: expand_range.simps(2) is_directive_def invokes_def enter_macro_def asm_token_fail_def)
qed

text \<open>C18: a call with as many positional arguments as the macro has parameters and nothing else, at the
  start of a line that a newline ends, is refused when the macro is being expanded or 64 calls are open. Otherwise there is one token for each
  token of the macro's body: the argument, where that token names a parameter, and the token itself anywhere
  else, all at the place of the call. The call expands to what these tokens expand to with the macro
  open, then to the tokens after the line; to exactly these tokens, where they call nothing. Whatever they expand to,
  through any depth of calls, reports the place of the call.\<close>

theorem macro_call:
  assumes "tok_type t = TOK_ID" "find_macro macros (invoked_name t) = Some m"
    and "list_all positional args" "length (values_of args) = length (mac_parameters m)"
    and "tok_type nl = TOK_NEWLINE"
  shows "\<exists>body. list_all2 (replaces m (values_of args) t) (mac_body m) body \<and>
    expand_range macros stack location True (t # args @ nl # ts) =
      (if is_expanding m stack \<or> 64 \<le> length stack
       then asm_token_fail ZLASM_DIAGNOSTIC_MACRO_RECURSION (Some t)
       else sbind (expand_range macros (stack @ [m]) (Some t) True body) (\<lambda>expanded.
            sbind (expand_range macros stack location True ts) (\<lambda>rest. Inr (expanded @ rest)))) \<and>
    (calls_nothing macros True body \<longrightarrow> expand_range macros (stack @ [m]) (Some t) True body = Inr body) \<and>
    (\<forall>expanded. expand_range macros (stack @ [m]) (Some t) True body = Inr expanded \<longrightarrow>
       (\<forall>u \<in> set expanded. token_location u = token_location t))"
proof (intro exI conjI impI allI)
  let ?body = "expand_body m (values_of args) t"
  show "list_all2 (replaces m (values_of args) t) (mac_body m) ?body"
    by (rule expand_body_replaces) (rule assms(4))
  show "expand_range macros stack location True (t # args @ nl # ts) =
      (if is_expanding m stack \<or> 64 \<le> length stack
       then asm_token_fail ZLASM_DIAGNOSTIC_MACRO_RECURSION (Some t)
       else sbind (expand_range macros (stack @ [m]) (Some t) True ?body) (\<lambda>expanded.
            sbind (expand_range macros stack location True ts) (\<lambda>rest. Inr (expanded @ rest))))"
    using assms by (rule expand_range_call)
  show "expand_range macros (stack @ [m]) (Some t) True ?body = Inr ?body" if "calls_nothing macros True ?body"
    using that expand_body_location by (intro expand_range_keeps) blast+
  fix expanded
  assume "expand_range macros (stack @ [m]) (Some t) True ?body = Inr expanded"
  then show "\<forall>u \<in> set expanded. token_location u = token_location t"
    using expands_location [OF expand_range_expands refl] expand_body_location by blast
qed

end
