(* ===== verification/Data_Facts.thy ===== *)
theory Data_Facts
  imports Directive
begin

text \<open>
  The data directives of numbers: which are accepted, and that reading the emitted bytes at the width
  of the directive gives the arguments back.
\<close>

text \<open>The bytes per value, and the value of an argument.\<close>

fun data_width :: "directive_type \<Rightarrow> nat option" where
  "data_width DIR_BYTE = Some 1"
| "data_width DIR_HWORD = Some 2"
| "data_width DIR_WORD = Some 4"
| "data_width DIR_DWORD = Some 8"
| "data_width _ = None"

definition data_value :: "token \<Rightarrow> diagnostic + u64" where
  "data_value arg =
     (if tok_type arg = TOK_CHAR_LITERAL
      then sbind (token_get_char_value arg) (\<lambda>c. Inr (ucast (char_byte c)))
      else token_get_int_value arg)"

definition all_ones :: "nat \<Rightarrow> u64" where
  "all_ones n = of_nat (2 ^ (8 * n) - 1)"

lemma all_ones_64: "(18446744073709551615 :: u64) = - 1"
  by (simp add: word_unat_eq_iff unsigned_minus_1_eq_mask mask_eq_exp_minus_1)

lemma get_raw_data_numeric:
  "data_width (dir_type d) = Some n \<Longrightarrow>
     directive_get_raw_data can_alloc d = encode_numeric_data d n (all_ones n) \<and> 0 < n \<and> n \<le> 8"
  by (cases "dir_type d") (auto simp: directive_get_raw_data_def all_ones_def all_ones_64)

lemma len64: "LENGTH(64) = 64"
  by simp

lemma above_all_ones: "n \<le> 8 \<Longrightarrow> v > all_ones n \<longleftrightarrow> \<not> unat v < 2 ^ (8 * n)"
proof -
  assume "n \<le> 8"
  then have p: "(2 :: nat) ^ (8 * n) \<le> 2 ^ 64" by (intro power_increasing) auto
  moreover have "0 < (2 :: nat) ^ (8 * n)" by simp
  ultimately have "(2 :: nat) ^ (8 * n) - 1 < 2 ^ 64" by linarith
  then have "unat (all_ones n) = 2 ^ (8 * n) - 1"
    unfolding all_ones_def by (subst unat_of_nat) (simp only: len64 mod_less)
  then show ?thesis by (auto simp: word_less_nat_alt not_less less_eq_Suc_le)
qed

lemma numeric_value_Inr:
  "n \<le> 8 \<Longrightarrow> numeric_value n (all_ones n) arg = Inr bs \<longleftrightarrow>
     (\<exists>v. data_value arg = Inr v \<and> unat v < 2 ^ (8 * n) \<and> bs = le_bytes n v)"
  by (auto simp: numeric_value_def data_value_def sbind_Inr above_all_ones)

lemma le_bytes_simps [simp]: "length (le_bytes n v) = n" "i < n \<Longrightarrow> le_bytes n v ! i = le_byte v i"
  by (simp_all add: le_bytes_def)

lemma concat_blocks:
  "\<forall>xs \<in> set xss. length xs = n \<Longrightarrow> i < length xss \<Longrightarrow> j < n \<Longrightarrow> concat xss ! (i * n + j) = xss ! i ! j"
proof (induction xss arbitrary: i)
  case (Cons xs xss)
  then show ?case by (cases i) (simp_all add: nth_append add.assoc)
qed simp

lemma length_blocks: "\<forall>xs \<in> set xss. length xs = n \<Longrightarrow> length (concat xss) = n * length xss"
  by (induction xss) simp_all

lemma block_lengths:
  "list_all2 (\<lambda>a bs. numeric_value n (all_ones n) a = Inr bs) args bss \<Longrightarrow> n \<le> 8 \<Longrightarrow>
     \<forall>bs \<in> set bss. length bs = n"
  by (induction args bss rule: list_all2_induct) (auto simp: numeric_value_Inr)

text \<open>C19: A numeric data directive is accepted exactly when its arguments fit in memory and each has
  a value that fits the width of the directive; it emits that many bytes per argument, and reading the
  bytes of an argument as a little-endian number gives the argument back.\<close>

theorem numeric_data_exact:
  assumes "data_width (dir_type d) = Some n"
  shows "((\<exists>bytes. directive_get_raw_data can_alloc d = Inr bytes) \<longleftrightarrow>
      length (dir_argv d) \<le> SIZE_T_MAX div n \<and>
      (\<forall>arg \<in> set (dir_argv d). \<exists>v. data_value arg = Inr v \<and> unat v < 2 ^ (8 * n))) \<and>
    (\<forall>bytes. directive_get_raw_data can_alloc d = Inr bytes \<longrightarrow>
      length bytes = n * length (dir_argv d) \<and>
      (\<forall>i < length (dir_argv d). data_value (dir_argv d ! i) = Inr (le_read ((!) bytes) n (i * n))))"
proof -
  note d = get_raw_data_numeric [OF assms, of can_alloc]
  let ?f = "numeric_value n (all_ones n)" and ?args = "dir_argv d"
  have Inr: "directive_get_raw_data can_alloc d = Inr bytes \<longleftrightarrow>
      length ?args \<le> SIZE_T_MAX div n \<and> (\<exists>bss. list_all2 (\<lambda>a bs. ?f a = Inr bs) ?args bss \<and> bytes = concat bss)"
    for bytes
    using d by (auto simp: encode_numeric_data_def too_large_def sbind_Inr try_map_Inr)
  have ok: "(\<exists>bss. list_all2 (\<lambda>a bs. ?f a = Inr bs) args bss) \<longleftrightarrow>
      (\<forall>arg \<in> set args. \<exists>v. data_value arg = Inr v \<and> unat v < 2 ^ (8 * n))" for args
    using d by (induction args) (auto simp: list_all2_Cons1 numeric_value_Inr)
  have reads: "length bytes = n * length ?args \<and>
      (\<forall>i < length ?args. data_value (?args ! i) = Inr (le_read ((!) bytes) n (i * n)))"
    if raw: "directive_get_raw_data can_alloc d = Inr bytes" for bytes
  proof -
    obtain bss where b: "list_all2 (\<lambda>a bs. ?f a = Inr bs) ?args bss" "bytes = concat bss"
      using Inr [THEN iffD1, OF raw] by blast
    then have len: "\<forall>bs \<in> set bss. length bs = n" "length bss = length ?args"
      using block_lengths d by (blast, simp add: list_all2_lengthD)
    have "data_value (?args ! i) = Inr (le_read ((!) bytes) n (i * n))" if i: "i < length ?args" for i
    proof -
      obtain v where v: "data_value (?args ! i) = Inr v" "unat v < 2 ^ (8 * n)" "bss ! i = le_bytes n v"
        using b(1) i d by (auto simp: list_all2_conv_all_nth numeric_value_Inr)
      have "le_read ((!) bytes) n (i * n) = ucast (take_bit (n * 8) v)"
        using concat_blocks [OF len(1)] i len(2) v(3) by (intro le_read_le_byte) (simp add: b(2))
      also have "\<dots> = v"
        using v(2) by (simp add: word_unat_eq_iff unsigned_take_bit_eq take_bit_nat_eq_self mult.commute)
      finally show ?thesis using v(1) by simp
    qed
    then show ?thesis using length_blocks [OF len(1)] len(2) b(2) by simp
  qed
  show ?thesis using Inr ok reads by blast
qed

end
