(* ===== verification/Zlasm_Facts.thy ===== *)
theory Zlasm_Facts
  imports Zlasm Lexer_Facts Macro_Facts Object_Facts
begin

text \<open>
  The whole assembler on a source text. A source that is a C string yields tokens, lines and names
  without a null character, so that every object it is assembled to is one the linker reads back; and
  a failed assembly always reports an error.
\<close>

section \<open>Names without null characters\<close>

definition clean :: "token \<Rightarrow> bool" where
  "clean t \<longleftrightarrow> nul_free (tok_value t)"

abbreviation cleans :: "token list \<Rightarrow> bool" where
  "cleans ts \<equiv> \<forall>t \<in> set ts. clean t"

lemma nul_free_subset: "nul_free s \<Longrightarrow> set r \<subseteq> set s \<Longrightarrow> nul_free r"
  by (auto simp: nul_free_def)

lemma nul_free_slice: "nul_free s \<Longrightarrow> nul_free (source_slice s a b)"
  by (erule nul_free_subset) (auto simp: source_slice_def dest: in_set_takeD in_set_dropD)

lemma cleans_subset: "cleans ts \<Longrightarrow> set us \<subseteq> set ts \<Longrightarrow> cleans us"
  by blast

lemma readToken_clean:
  assumes "lexer_readToken st = Inr (st', Some t)" "nul_free (lx_source st)"
  shows "clean t"
proof -
  obtain s ty a b e where "finish_token (make_token s e ty (source_slice (lx_source st) a b)) = Inr t"
    using assms(1) by (rule lexer_readToken_Some)
  then have "set (tok_value t) \<subseteq> set (source_slice (lx_source st) a b)"
    by (auto simp: make_token_def remove_digit_delimiters_def dest: finish_token_fields(1) split: if_splits)
  then show ?thesis using nul_free_slice [OF assms(2)] nul_free_subset unfolding clean_def by blast
qed

lemma lexed_clean:
  assumes "lexer_readAll (lexer_init source) = Inr st" "nul_free source"
  shows "cleans (lx_tokens st)"
proof
  fix t
  assume t: "t \<in> set (lx_tokens st)"
  have "tokens_cover source 0 []" by (simp add: tokens_cover_def)
  then have "tokens_cover source (length source) (lx_tokens st)"
    using readAll_cover [OF assms(1) located_init] by (simp add: lexer_init_def top_level_def)
  with t obtain a b where "tok_value t = (if token_base (tok_type t) = None then source_slice source a b
      else remove_digit_delimiters (source_slice source a b))"
    unfolding tokens_cover_def token_ok_def by blast
  then have "set (tok_value t) \<subseteq> set (source_slice source a b)"
    by (auto simp: remove_digit_delimiters_def split: if_splits)
  then show "clean t" using nul_free_slice [OF assms(2)] nul_free_subset unfolding clean_def by blast
qed

lemma clean_simps [simp]: "clean (clone_token t l) = clean t" "clean (t\<lparr>tok_type := ty\<rparr>) = clean t"
  by (simp_all add: clean_def)

lemma parameter_index_less:
  "parameter_index m n \<noteq> length (mac_parameters m) \<Longrightarrow> parameter_index m n < length (mac_parameters m)"
  using length_takeWhile_le [of "\<lambda>p. tok_value p \<noteq> n" "mac_parameters m"]
  by (auto simp: parameter_index_def)

definition clean_macro :: "macro \<Rightarrow> bool" where
  "clean_macro m \<longleftrightarrow> cleans (mac_body m)"

lemma capture_macro_clean:
  assumes "capture_macro macros t rest = Inr (macros', after)" "cleans rest" "\<forall>m \<in> set macros. clean_macro m"
  shows "cleans after \<and> (\<forall>m \<in> set macros'. clean_macro m)"
proof -
  obtain name parameters body mid where h: "capture_body name (tl (line_end rest)) = Inr (body, mid)"
    "macros' = \<lparr>mac_name = name, mac_parameters = parameters, mac_body = body\<rparr> # macros"
    "after = tl (line_end (tl mid))"
    using assms(1)
    by (auto simp: capture_macro_def sbind_Inr macro_fail_def split: list.splits if_splits option.splits)
  then have "body = takeWhile (\<lambda>t. \<not> is_directive t ''endmacro'') (tl (line_end rest))"
    "mid = dropWhile (\<lambda>t. \<not> is_directive t ''endmacro'') (tl (line_end rest))"
    by (auto simp: capture_body_def macro_fail_def Let_def split: option.splits if_splits)
  then have "set body \<subseteq> set (tl (line_end rest))" "set mid \<subseteq> set (tl (line_end rest))"
    by (auto dest: set_takeWhileD set_dropWhileD)
  moreover have "set (tl mid) \<subseteq> set mid" by (cases mid) auto
  ultimately have "set body \<subseteq> set rest" "set after \<subseteq> set rest"
    unfolding h(3) using set_tl_line_end [of rest] set_tl_line_end [of "tl mid"] by blast+
  then show ?thesis using assms(2,3) h(2) by (auto simp: clean_macro_def)
qed

lemma capture_macros_clean:
  "capture_macros macros ts = Inr macros' \<Longrightarrow> cleans ts \<Longrightarrow> \<forall>m \<in> set macros. clean_macro m \<Longrightarrow>
     \<forall>m \<in> set macros'. clean_macro m"
proof (induction macros ts rule: capture_macros.induct)
  case (2 macros t ts)
  then show ?case
    by (auto simp: macro_fail_def split: if_splits sum.splits dest: capture_macro_clean)
qed simp

lemma named_argument_value_clean:
  assumes "named_argument_value after invocation = Inr value" "nul_free after"
  shows "clean value"
  using assms
  by (auto simp: named_argument_value_def sbind_Inr macro_fail_def lexer_init_def Let_def
      split: option.splits if_splits dest!: readToken_clean)

lemma read_plain_argument:
  assumes "read_arguments_loop m t arguments i named (argument # rest) = Inr vs"
    and "\<not> (tok_type argument = TOK_ID \<and> CHR ''='' \<in> set (tok_value argument))"
  shows "vs = arguments \<or> read_arguments_loop m t arguments i named rest = Inr vs \<or>
    read_arguments_loop m t (arguments[i := Some argument]) (i + 1) named rest = Inr vs"
proof (cases "tok_type argument = TOK_COMMENT \<or> tok_type argument = TOK_COMMA")
  case True
  then show ?thesis using assms(1) by auto
next
  case False
  then show ?thesis
    using assms(1)
    by (simp only: read_arguments_loop.simps(2) if_False assms(2) macro_fail_def split: if_splits)
      (simp_all only: simp_thms asm_fail_not_Inr)
qed

lemma read_argument_step:
  assumes "read_arguments_loop m t arguments i named (argument # rest) = Inr values"
  obtains (stop) "values = arguments"
  | (comma) "read_arguments_loop m t arguments i named rest = Inr values"
  | (by_name) v index where "index < length (mac_parameters m)"
      "named_argument_value (tl (dropWhile (\<lambda>c. c \<noteq> CHR ''='') (tok_value argument))) t = Inr v"
      "read_arguments_loop m t (arguments[index := Some v]) i True rest = Inr values"
  | (plain) "read_arguments_loop m t (arguments[i := Some argument]) (i + 1) named rest = Inr values"
proof -
  show ?thesis
  proof (cases "tok_type argument = TOK_ID \<and> CHR ''='' \<in> set (tok_value argument)")
    case True
    let ?n = "takeWhile (\<lambda>c. c \<noteq> CHR ''='') (tok_value argument)"
    let ?a = "tl (dropWhile (\<lambda>c. c \<noteq> CHR ''='') (tok_value argument))"
    from True assms have "parameter_index m ?n \<noteq> length (mac_parameters m) \<and>
      (\<exists>v. named_argument_value ?a t = Inr v \<and>
         read_arguments_loop m t (arguments[parameter_index m ?n := Some v]) i True rest = Inr values)"
      by (simp add: macro_fail_def Let_def split: if_splits sum.splits)
    then show ?thesis using by_name [OF parameter_index_less] by blast
  next
    case False
    then show ?thesis using read_plain_argument [OF assms] stop comma plain by blast
  qed
qed

lemma read_arguments_loop_clean:
  "read_arguments_loop m t arguments i named args = Inr values \<Longrightarrow> cleans args \<Longrightarrow>
     \<forall>v. Some v \<in> set arguments \<longrightarrow> clean v \<Longrightarrow>
     length values = length arguments \<and> (\<forall>v. Some v \<in> set values \<longrightarrow> clean v)"
proof (induction args arbitrary: arguments i named)
  case (Cons argument rest)
  have upd: "\<forall>v. Some v \<in> set (arguments[j := Some x]) \<longrightarrow> clean v" if "clean x" for j x
    using Cons.prems(3) that set_update_subset_insert by fastforce
  from Cons.prems(1) show ?case
  proof (cases rule: read_argument_step)
    case stop
    then show ?thesis using Cons.prems(3) by simp
  next
    case comma
    then show ?thesis using Cons.IH [OF comma _ Cons.prems(3)] Cons.prems(2) by simp
  next
    case (by_name v index)
    have "set (tl (dropWhile P xs)) \<subseteq> set xs" for P and xs :: string
      by (induction xs) auto
    moreover have "nul_free (tok_value argument)" using Cons.prems(2) by (simp add: clean_def)
    ultimately have "nul_free (tl (dropWhile (\<lambda>c. c \<noteq> CHR ''='') (tok_value argument)))"
      by (rule nul_free_subset [rotated])
    then have "clean v" by (rule named_argument_value_clean [OF by_name(2)])
    from Cons.IH [OF by_name(3) _ upd [OF this]] Cons.prems(2) show ?thesis by simp
  next
    case plain
    from Cons.prems(2) have "clean argument" by simp
    from Cons.IH [OF plain _ upd [OF this]] Cons.prems(2) show ?thesis by simp
  qed
qed simp

lemma enter_macro_clean:
  assumes "enter_macro m args stack t = Inr body" "cleans args" "clean_macro m"
  shows "cleans body"
proof -
  obtain vs where v: "read_arguments m args t = Inr vs" "body = expand_body m vs t"
    using assms(1) by (auto simp: enter_macro_Inr)
  then obtain arguments where a: "read_arguments_loop m t (replicate (length (mac_parameters m)) None) 0 False args =
      Inr arguments" "\<not> list_ex (\<lambda>a. a = None) arguments" "vs = map the arguments"
    by (auto simp: read_arguments_def sbind_Inr macro_fail_def split: if_splits)
  have c: "length arguments = length (mac_parameters m) \<and> (\<forall>v. Some v \<in> set arguments \<longrightarrow> clean v)"
    using read_arguments_loop_clean [OF a(1) assms(2)] by simp
  have "clean (the x)" if x: "x \<in> set arguments" for x
  proof (cases x)
    case None
    then show ?thesis using x a(2) by (simp add: list_ex_iff)
  next
    case (Some v)
    then show ?thesis using x c by simp
  qed
  then have "cleans vs" using a(3) by simp
  moreover have "length vs = length (mac_parameters m)" using a(3) c by simp
  ultimately have "clean (vs ! parameter_index m n)" if "parameter_index m n \<noteq> length (mac_parameters m)" for n
    using parameter_index_less [OF that] by (metis nth_mem)
  then show ?thesis
    using assms(3) unfolding v(2) expand_body_def clean_macro_def Let_def by auto
qed

lemma expands_clean:
  "expands macros stack location s ts out \<Longrightarrow> cleans ts \<Longrightarrow> \<forall>m \<in> set macros. clean_macro m \<Longrightarrow> cleans out"
proof (induction rule: expands.induct)
  case (skip t stack location ts out s)
  then show ?case using cleans_subset [OF _ set_skip_macro_definition] by blast
next
  case (call t s m ts stack body expanded location rest)
  have "clean_macro m" using call.hyps(3) call.prems(2) by (auto simp: find_macro_def find_Some_iff)
  moreover have "cleans (line_tokens ts)"
    using call.prems(1) by (auto simp: line_tokens_def dest: set_takeWhileD)
  ultimately have "cleans body" using enter_macro_clean [OF call.hyps(4)] by blast
  moreover have "cleans (tl (line_end ts))" using call.prems(1) set_tl_line_end [of ts] by auto
  ultimately show ?case using call.IH call.prems(2) by auto
qed auto

lemma macros_expand_clean: "macros_expand ts = Inr out \<Longrightarrow> cleans ts \<Longrightarrow> cleans out"
proof (cases "ts = []")
  case False
  assume h: "macros_expand ts = Inr out" "cleans ts"
  then obtain macros where m: "capture_macros [] ts = Inr macros" "expand_range macros [] None True ts = Inr out"
    using False by (auto simp: macros_expand_def sbind_Inr)
  show ?thesis
    using expands_clean [OF expand_range_expands [OF m(2)] h(2)] capture_macros_clean [OF m(1) h(2)] by simp
qed (simp add: macros_expand_def)

section \<open>Lines and names\<close>

definition clean_line :: "line \<Rightarrow> bool" where
  "clean_line l \<longleftrightarrow> (\<forall>n. ln_label l = Some n \<longrightarrow> nul_free n) \<and>
     (case ln_content l of L_DIR d \<Rightarrow> cleans (dir_argv d) | _ \<Rightarrow> True)"

lemma foldl_directive_args: "dir_argv (foldl directive_add_arg d ts) = dir_argv d @ ts"
  by (induction ts arbitrary: d) (simp_all add: directive_add_arg_def)

lemma read_content_clean:
  "read_content t ts = Inr c \<Longrightarrow> cleans ts \<Longrightarrow> case c of L_DIR d \<Rightarrow> cleans (dir_argv d) | _ \<Rightarrow> True"
  by (auto simp: read_content_def sbind_Inr parser_read_directive_def directive_init_def foldl_directive_args
      split: token_type.splits option.splits)

lemma parser_read_line_clean: "parser_read_line ts = Inr l \<Longrightarrow> cleans ts \<Longrightarrow> clean_line l"
  using read_content_clean
  by (auto simp: parser_read_line_def sbind_Inr clean_line_def make_line_def clean_def split: list.splits if_splits)

lemma parser_get_line_set:
  assumes "parser_get_line ts = Some (line, rest)"
  shows "set line \<subseteq> set ts" "set rest \<subseteq> set ts"
proof -
  let ?d = "dropWhile (\<lambda>t. tok_type t = TOK_COMMENT \<or> tok_type t = TOK_NEWLINE) ts"
  have d: "set ?d \<subseteq> set ts" using set_dropWhileD by fastforce
  from assms obtain first more where f: "?d = first # more"
    by (cases ?d) (auto simp: parser_get_line_def)
  have t: "set (tl xs) \<subseteq> set xs" for xs :: "token list" by (cases xs) auto
  have sub: "set (tl (dropWhile P xs)) \<subseteq> set xs" "set (filter Q (takeWhile P xs)) \<subseteq> set xs"
    for P Q and xs :: "token list"
    by (rule subset_trans [OF t]) (auto dest: set_dropWhileD set_takeWhileD)
  obtain us where "set us \<subseteq> set more" "set line \<subseteq> insert first (set us)" "set rest \<subseteq> set us"
  proof -
    let ?us = "case more of [] \<Rightarrow> [] | u # us \<Rightarrow>
      if tok_type first = TOK_LABEL_INIT \<and> tok_type u = TOK_NEWLINE then us else more"
    let ?in = "\<lambda>t. tok_type t \<noteq> TOK_NEWLINE \<and> tok_type t \<noteq> TOK_COMMENT"
    have e: "line = first # filter (\<lambda>t. tok_type t \<noteq> TOK_COMMA) (takeWhile ?in ?us)"
      "rest = tl (dropWhile ?in ?us)"
      using assms unfolding parser_get_line_def f Let_def list.case option.inject prod.inject by blast+
    have "set ?us \<subseteq> set more" by (cases more) auto
    moreover have "set line \<subseteq> insert first (set ?us)" "set rest \<subseteq> set ?us"
      unfolding e list.set using sub by blast+
    ultimately show ?thesis by (rule that)
  qed
  then show "set line \<subseteq> set ts" "set rest \<subseteq> set ts"
    using d unfolding f by auto
qed

lemma parser_parse_clean: "parser_parse ts = Inr ls \<Longrightarrow> cleans ts \<Longrightarrow> \<forall>l \<in> set ls. clean_line l"
proof (induction ts arbitrary: ls rule: parser_parse.induct)
  case (1 ts)
  show ?case
  proof (cases "parser_get_line ts")
    case None
    then show ?thesis using "1.prems"(1) by (simp add: parser_parse.simps [of ts])
  next
    case (Some x)
    obtain line rest where x: "x = (line, rest)" by (cases x)
    then obtain l ks where p: "parser_read_line line = Inr l" "parser_parse rest = Inr ks" "ls = l # ks"
      using "1.prems"(1) Some by (auto simp: parser_parse.simps [of ts] sbind_Inr)
    moreover have "cleans line" "cleans rest"
      using "1.prems"(2) parser_get_line_set [OF Some [unfolded x]] by blast+
    ultimately show ?thesis
      using "1.IH" [OF Some x [symmetric] p(1,2)] parser_read_line_clean [OF p(1)] p(3) by simp
  qed
qed

lemma relabel_clean:
  "clean_line l \<Longrightarrow> (\<forall>p. proc = Some p \<longrightarrow> nul_free p) \<Longrightarrow> clean_line (relabel proc l)"
  by (auto simp: clean_line_def relabel_def set_label_context_def nul_free_def split: option.splits)

lemma record_line_names:
  "record_line c l = Inr c' \<Longrightarrow> names_ok c \<Longrightarrow> clean_line l \<Longrightarrow> names_ok c'"
  by (auto simp: record_line_def sbind_Inr set_current_section_def names_ok_def clean_line_def Let_def
      split: if_splits)

lemma process_directive_names:
  assumes "process_directive c d = Inr c'" "names_ok c" "nul_free (tok_value (dir_argv d ! 0))"
  shows "names_ok c'"
  using assms
  by (auto simp: process_directive_def Let_def sbind_Inr section_fail_def directive_fail_def names_ok_def
      set_current_section_def asm_addGlobal_def asm_addExternal_def
      split: directive_type.splits if_splits prod.splits)

lemma validated_argument:
  "validate_directive d = Inr u \<Longrightarrow>
     dir_type d \<in> {DIR_SECTION, DIR_GLOBAL, DIR_EXTERN, DIR_ALIGN, DIR_ENTRY, DIR_LOCATE, DIR_MACRO, DIR_PROC} \<Longrightarrow>
     dir_argv d \<noteq> []"
  by (auto simp: validate_directive_def sbind_Inr require_first_def directive_fail_def)

lemma validated_first:
  assumes "validate_directive d = Inr u" "cleans (dir_argv d)"
    and "dir_type d \<in> {DIR_SECTION, DIR_GLOBAL, DIR_EXTERN, DIR_ALIGN, DIR_ENTRY, DIR_LOCATE, DIR_MACRO, DIR_PROC}"
  shows "nul_free (tok_value (dir_argv d ! 0))"
  using validated_argument [OF assms(1,3)] assms(2) by (cases "dir_argv d") (auto simp: clean_def)

lemma process_directive_types:
  "process_directive c d = Inr c' \<Longrightarrow>
     dir_type d \<in> {DIR_SECTION, DIR_GLOBAL, DIR_EXTERN, DIR_ALIGN, DIR_ENTRY, DIR_LOCATE, DIR_MACRO} \<or> c' = c"
  by (cases "dir_type d") (auto simp: process_directive_def Let_def directive_fail_def)

lemma process_lines_names:
  "process_lines can_alloc c proc ls = Inr c' \<Longrightarrow> names_ok c \<Longrightarrow> \<forall>p. proc = Some p \<longrightarrow> nul_free p \<Longrightarrow>
     \<forall>l \<in> set ls. clean_line l \<Longrightarrow> names_ok c'"
proof (erule process_lines_invariant [where I = names_ok and L = clean_line and N = nul_free])
  fix l d c c' assume l: "clean_line l" "ln_content l = L_DIR d" "validate_directive d = Inr ()"
    "process_directive c d = Inr c'" "names_ok c"
  then have "cleans (dir_argv d)" by (simp add: clean_line_def)
  from validated_first [OF l(3) this] show "names_ok c'"
    using process_directive_types [OF l(4)] process_directive_names [OF l(4,5)] l(5) by auto
next
  fix l d assume l: "clean_line l" "ln_content l = L_DIR d" "validate_directive d = Inr ()" "dir_type d = DIR_PROC"
  then have "cleans (dir_argv d)" by (simp add: clean_line_def)
  from validated_first [OF l(3) this] show "nul_free (tok_value (dir_argv d ! 0))" using l(4) by simp
qed (simp_all add: record_line_names relabel_clean, simp_all add: clean_line_def nul_free_def)

lemma assembled_names:
  assumes "asm_processDirectives can_alloc lines = Inr c\<^sub>0" "asm_processLabels c\<^sub>0 = Inr c"
    and "\<forall>l \<in> set lines. clean_line l"
  shows "names_ok c"
proof -
  have "names_ok asm_init" by (simp add: names_ok_def asm_init_def)
  then have "names_ok c\<^sub>0"
    using process_lines_names assms(1,3) unfolding asm_processDirectives_def by fastforce
  then show ?thesis
    using assms(2) by (auto simp: asm_processLabels_def sbind_Inr names_ok_def)
qed

section \<open>From source to object\<close>

text \<open>The context that the phases before the translation make of a source.\<close>

definition assembled :: "(nat \<Rightarrow> bool) \<Rightarrow> string \<Rightarrow> assembler \<Rightarrow> bool" where
  "assembled can_alloc source c \<longleftrightarrow> (\<exists>st tokens lines c\<^sub>0. lexer_readAll (lexer_init source) = Inr st \<and>
     macros_expand (lx_tokens st) = Inr tokens \<and> parser_parse tokens = Inr lines \<and>
     asm_processDirectives can_alloc lines = Inr c\<^sub>0 \<and> asm_processLabels c\<^sub>0 = Inr c)"

lemma assemble_phases_Inr:
  "assemble_phases can_alloc object source = Inr bytes \<longleftrightarrow>
     (\<exists>c. assembled can_alloc source c \<and>
        (if object then asm_translate_object can_alloc c else asm_translate c) = Inr bytes)"
  by (simp add: assemble_phases_def assembled_def sbind_Inr) blast

lemma assemble_source_Some:
  "res_binary (assemble_source can_alloc (Some source) object) = Some bytes \<longleftrightarrow>
     assemble_phases can_alloc object source = Inr bytes"
  by (simp add: assemble_source_def split: sum.split)

lemma assembled_facts:
  assumes "assembled can_alloc source c" "nul_free source"
  obtains lines c\<^sub>0 where "asm_processDirectives can_alloc lines = Inr c\<^sub>0" "asm_processLabels c\<^sub>0 = Inr c"
    "names_ok c"
proof -
  obtain st tokens lines c\<^sub>0 where a: "lexer_readAll (lexer_init source) = Inr st"
    "macros_expand (lx_tokens st) = Inr tokens" "parser_parse tokens = Inr lines"
    "asm_processDirectives can_alloc lines = Inr c\<^sub>0" "asm_processLabels c\<^sub>0 = Inr c"
    using assms(1) by (auto simp: assembled_def)
  have "\<forall>l \<in> set lines. clean_line l"
    using parser_parse_clean [OF a(3)] macros_expand_clean [OF a(2)] lexed_clean [OF a(1) assms(2)] by blast
  then show ?thesis using that a(4,5) assembled_names [OF a(4,5)] by blast
qed

lemma object_sound:
  assumes "nul_free source" "res_binary (zlasm_assemble_object can_alloc (Some source)) = Some bytes"
    and "\<And>n. can_alloc' n"
  shows "\<exists>c symbols sections relocations out. assembled can_alloc source c \<and>
    (let img = object_image c symbols sections relocations in
       link_decode can_alloc' (Some bytes, length bytes) = Inr (normal_image img) \<and> valid_image img) \<and>
    object_symbols c = Inr symbols \<and>
    list_all2 same_frame sections (map object_image_section (ac_sections c)) \<and>
    list_all2 (\<lambda>l (bytes, new). object_line (ac_lines c) symbols l = Inr (bytes, new) \<and>
      holds sections l bytes \<and> (\<forall>r \<in> set new. patches l (length symbols) r)) (ac_lines c) out \<and>
    relocations = concat (map snd out)"
proof -
  obtain c where c: "assembled can_alloc source c" "asm_translate_object can_alloc c = Inr bytes"
    using assms(2) by (auto simp: zlasm_assemble_object_def assemble_source_Some assemble_phases_Inr)
  obtain lines c\<^sub>0 where ok: "asm_processDirectives can_alloc lines = Inr c\<^sub>0" "asm_processLabels c\<^sub>0 = Inr c"
    "names_ok c"
    by (rule assembled_facts [OF c(1) assms(1)])
  have "img_kind (normal_image (object_image c symbols sections relocations)) = ZL_IMAGE_OBJECT"
    for symbols sections relocations
    by (simp add: normal_image_def object_image_def)
  then show ?thesis
    using asm_object_decodes [OF ok c(2), of can_alloc'] assms(3) c(1)
    by (auto simp: Let_def link_decode_def) blast
qed

lemma object_accepted:
  assumes "nul_free source" "res_binary (assemble_source can_alloc (Some source) True) = Some bytes"
    and "\<And>n. can_alloc' n"
  shows "\<exists>img. link_decode can_alloc' (Some bytes, length bytes) = Inr img \<and> img_kind img = ZL_IMAGE_OBJECT"
  using object_sound [of source can_alloc bytes can_alloc'] assms
  by (auto simp: Let_def zlasm_assemble_object_def normal_image_def object_image_def)

text \<open>C2: Assembling a C string to an object yields an image that the linker accepts, whatever the
  program: it decodes to a valid object with the program's sections, which hold the bytes of every
  line at the line's offset, the program's symbol table, and the relocations of the statements in
  order.\<close>

theorem zlasm_object_sound:
  assumes "nul_free source" "res_binary (zlasm_assemble_object can_alloc (Some source)) = Some bytes"
    and "\<And>n. can_alloc' n"
  shows "\<exists>c symbols sections relocations out. assembled can_alloc source c \<and>
    (let img = object_image c symbols sections relocations in
       link_decode can_alloc' (Some bytes, length bytes) = Inr (normal_image img) \<and> valid_image img) \<and>
    object_symbols c = Inr symbols \<and>
    list_all2 same_frame sections (map object_image_section (ac_sections c)) \<and>
    list_all2 (\<lambda>l (bytes, new). object_line (ac_lines c) symbols l = Inr (bytes, new) \<and>
      holds sections l bytes \<and> (\<forall>r \<in> set new. patches l (length symbols) r)) (ac_lines c) out \<and>
    relocations = concat (map snd out)"
  using assms by (rule object_sound)

text \<open>C13: In the object of a C string, a reference to a label of its own section holds the label's
  offset in the section and no relocation applies to it, so that it stays as it is wherever the
  section is placed; a reference to any other name holds zero and has one relocation, absolute and
  against the symbol of that name.\<close>

theorem source_label_references:
  assumes "nul_free source" "assembled can_alloc source c" "asm_translate_object can_alloc c = Inr bytes"
    and "\<And>n. can_alloc' n" "l \<in> set (ac_lines c)" "ln_content l = L_STMT s" "st_imm s = Some t"
    and "tok_type t = TOK_LABEL_USE"
  shows "\<exists>img data. zl_image_decode can_alloc' (Some bytes) (length bytes) = Inr img \<and>
    sec_data (image_sections img ! ln_section_index l) = Some data \<and>
    (let place = {r \<in> set (image_relocations img). rel_section_index r = of_nat (ln_section_index l) \<and>
       rel_offset r = of_nat (ln_section_offset l + 4)};
         field = (le_read ((!) data) 4 (ln_section_offset l + 4) :: u32)
     in case find_symbol_line (ac_lines c) (tok_value t) (ln_section_index l) of
          Some offset \<Rightarrow> field = of_nat offset \<and> place = {}
        | None \<Rightarrow> field = 0 \<and>
            (\<exists>i. find_image_symbol (image_symbols img) (tok_value t) = Some i \<and> place =
              {\<lparr>rel_section_index = of_nat (ln_section_index l), rel_offset = of_nat (ln_section_offset l + 4),
                rel_type = ZL_IMAGE_RELOCATION_ABSOLUTE32, rel_symbol_index = of_nat i, rel_addend = 0\<rparr>}))"
proof -
  obtain lines c\<^sub>0 where "asm_processDirectives can_alloc lines = Inr c\<^sub>0" "asm_processLabels c\<^sub>0 = Inr c"
    "names_ok c"
    by (rule assembled_facts [OF assms(2,1)])
  from object_label_references [OF this assms(3) _ assms(5-8)] assms(4) show ?thesis by blast
qed

end
