(* ===== verification/Failures.thy ===== *)
theory Failures
  imports Zlasm
begin

text \<open>
  Every failure of the assembler carries an error code, so that the diagnostic of a result tells
  whether there is a binary: the callers test the code before they use the binary.
\<close>

named_theorems reports_intro \<open>results that fail with an error code\<close>

definition reports :: "diagnostic + 'a \<Rightarrow> bool" where
  "reports r \<longleftrightarrow> (\<forall>d. r = Inl d \<longrightarrow> fst d \<noteq> ZLASM_DIAGNOSTIC_NONE)"

lemma reports_basic [simp]:
  "reports (Inr x)" "reports (asm_fail code) \<longleftrightarrow> code \<noteq> ZLASM_DIAGNOSTIC_NONE"
  "reports (asm_token_fail code tok) \<longleftrightarrow> code \<noteq> ZLASM_DIAGNOSTIC_NONE"
  by (simp_all add: reports_def asm_fail_def asm_token_fail_def split: option.split)

lemma reports_sbind [reports_intro]:
  "reports r \<Longrightarrow> (\<And>x. r = Inr x \<Longrightarrow> reports (f x)) \<Longrightarrow> reports (sbind r f)"
  by (cases r) (simp_all add: reports_def)

lemma reports_case [reports_intro]:
  "reports r \<Longrightarrow> (\<And>x. r = Inr x \<Longrightarrow> reports (f x)) \<Longrightarrow> reports (case r of Inl d \<Rightarrow> Inl d | Inr x \<Rightarrow> f x)"
  by (cases r) (simp_all add: reports_def)

lemma reports_try_fold [reports_intro]: "(\<And>s x. reports (f s x)) \<Longrightarrow> reports (try_fold f s xs)"
  by (induction xs arbitrary: s) (auto intro!: reports_intro)

lemma reports_try_map [reports_intro]: "(\<And>x. reports (f x)) \<Longrightarrow> reports (try_map f xs)"
  by (induction xs) (auto intro!: reports_intro)

section \<open>Lexing\<close>

lemma reports_int_value [reports_intro]: "reports (token_get_int_value tok)"
proof -
  have "reports (int_value_loop tok base v cs)" for base v cs
    by (induction tok base v cs rule: int_value_loop.induct) (auto split: option.split)
  then show ?thesis by (simp add: token_get_int_value_def split: option.split)
qed

lemma reports_char_value [reports_intro]: "reports (token_get_char_value tok)"
  by (simp add: token_get_char_value_def Let_def split: list.split option.split)

lemma reports_quoted [reports_intro]: "reports (lexer_quoted start quote st)"
  by (simp add: lexer_quoted_def Let_def)

lemma reports_word_loop [reports_intro]: "reports (scan_word_loop start st)"
proof (induction start st rule: scan_word_loop.induct)
  case (1 start st)
  then show ?case by (subst scan_word_loop.simps) (auto simp: Let_def intro!: reports_intro)
qed

lemma reports_scan [reports_intro]: "reports (lexer_scan st)"
  by (auto simp: lexer_scan_def scan_literal_def scan_word_def Let_def intro!: reports_intro)

lemma reports_finish [reports_intro]: "reports (finish_token tok)"
  by (auto simp: finish_token_def validate_numeric_token_def Let_def intro!: reports_intro split: option.split)

lemma reports_readToken [reports_intro]: "reports (lexer_readToken st)"
  by (auto simp: lexer_readToken_def Let_def intro!: reports_intro split: prod.split)

lemma reports_readAll: "reports (lexer_readAll st)"
proof (induction st rule: lexer_readAll.induct)
  case (1 st)
  then show ?case
    by (subst lexer_readAll.simps) (auto intro!: reports_intro split: prod.split option.split)
qed

section \<open>Macros and lines\<close>

lemma reports_macro_fail [simp]: "reports (macro_fail t)"
  by (simp add: macro_fail_def)

lemma reports_capture_macro [reports_intro]: "reports (capture_macro macros t rest)"
  by (auto simp: capture_macro_def capture_body_def add_parameter_def Let_def intro!: reports_intro
      split: list.split option.split)

lemma reports_capture_macros [reports_intro]: "reports (capture_macros macros ts)"
  by (induction macros ts rule: capture_macros.induct) (auto intro!: reports_intro)

lemma reports_named_argument [reports_intro]: "reports (named_argument_value after t)"
  by (auto simp: named_argument_value_def Let_def intro!: reports_intro split: option.split)

lemma reports_arguments_loop [reports_intro]: "reports (read_arguments_loop m t arguments i named args)"
  by (induction m t arguments i named args rule: read_arguments_loop.induct)
    (simp_all add: Let_def reports_case reports_named_argument)

lemma reports_enter_macro [reports_intro]: "reports (enter_macro m args stack t)"
  by (auto simp: enter_macro_def read_arguments_def intro!: reports_intro)

lemma reports_expand_range [reports_intro]: "reports (expand_range macros stack location s ts)"
proof (induction macros stack location s ts rule: expand_range.induct)
  case (2 macros stack location s t ts)
  then show ?case
    by (auto simp: expand_range.simps(2) intro!: reports_intro split: option.split)
qed simp

lemma reports_expand: "reports (macros_expand ts)"
  by (auto simp: macros_expand_def intro!: reports_intro)

lemma reports_statement [reports_intro]: "reports (parser_read_statement t ts)"
  by (simp add: parser_read_statement_def case_prod_beta Let_def split: list.split)

lemma reports_directive [reports_intro]: "reports (parser_read_directive t ts)"
  by (simp add: parser_read_directive_def split: option.split)

lemma reports_content [reports_intro]: "reports (read_content t ts)"
  by (cases "tok_type t") (auto simp: read_content_def intro!: reports_intro)

lemma reports_read_line [reports_intro]: "reports (parser_read_line ts)"
  by (auto simp: parser_read_line_def intro!: reports_intro split: list.split)

lemma reports_parse: "reports (parser_parse ts)"
proof (induction ts rule: parser_parse.induct)
  case (1 ts)
  then show ?case
    by (subst parser_parse.simps) (auto intro!: reports_intro split: option.split prod.split)
qed

section \<open>Directives and data\<close>

lemma reports_fails [simp]:
  "reports (directive_fail t)" "reports (section_fail t)" "reports (too_large d)"
  by (simp_all add: directive_fail_def section_fail_def too_large_def)

lemma reports_require [reports_intro]:
  "reports (require_arity d n)" "reports (require_first P d)" "reports (require_data b d)"
  by (auto simp: require_arity_def require_first_def require_data_def split: list.split option.split)

lemma reports_validate_directive [reports_intro]: "reports (validate_directive d)"
  by (auto simp: validate_directive_def intro!: reports_intro)

lemma reports_numeric_data [reports_intro]: "reports (encode_numeric_data d n m)"
  by (auto simp: encode_numeric_data_def numeric_value_def intro!: reports_intro)

lemma reports_ascii [reports_intro]: "reports (append_ascii d acc arg)"
  by (auto simp: append_ascii_def ascii_value_def intro!: reports_intro)

lemma reports_raw_data [reports_intro]: "reports (directive_get_raw_data can_alloc d)"
  by (cases "dir_type d")
    (auto simp: directive_get_raw_data_def intro!: reports_intro split: list.split)

lemma reports_range [reports_intro]: "reports (validate_section_range s tok)"
  by (simp add: validate_section_range_def)

lemma reports_align [reports_intro]: "reports (align_section s arg)"
  by (auto simp: align_section_def Let_def intro!: reports_intro)

lemma reports_locate [reports_intro]: "reports (locate_section s arg)"
  by (auto simp: locate_section_def intro!: reports_intro)

lemma reports_process_directive [reports_intro]: "reports (process_directive c d)"
  by (cases "dir_type d")
    (auto simp: process_directive_def Let_def intro!: reports_intro split: prod.split)

lemma reports_record_line [reports_intro]: "reports (record_line c l)"
  by (auto simp: record_line_def Let_def intro!: reports_intro)

lemma reports_process_lines: "reports (process_lines can_alloc c proc ls)"
proof (induction can_alloc c proc ls rule: process_lines.induct)
  case (2 can_alloc c proc l rest)
  show ?case
  proof (cases "ln_content l")
    case (L_DIR d)
    then show ?thesis
      using "2.IH"(1-4) [OF refl]
      by (auto simp: process_lines.simps(2) Let_def intro!: reports_intro split: list.split)
  next
    case (L_STMT s)
    then show ?thesis
      using "2.IH"(5) [OF refl] by (auto simp: process_lines.simps(2) Let_def intro!: reports_intro)
  next
    case (L_RAW data)
    then show ?thesis
      using "2.IH"(6) [OF refl] by (auto simp: process_lines.simps(2) Let_def intro!: reports_intro)
  qed
qed simp

lemma reports_labels: "reports (asm_processLabels c)"
  by (auto simp: asm_processLabels_def process_label_def Let_def intro!: reports_intro
      split: prod.split option.split)

section \<open>Translation\<close>

lemma reports_parse_optional [reports_intro]:
  "(\<And>t. reports (parse t)) \<Longrightarrow> reports (parse_optional parse absent tok)"
  by (simp add: parse_optional_def split: option.split)

lemma reports_condition [reports_intro]: "reports (parse_condition t)"
  by (simp add: parse_condition_def split: option.split)

lemma reports_register [reports_intro]: "reports (parse_register t)"
proof -
  have "reports (register_number tok i cs)" for tok i cs
    by (induction tok i cs rule: register_number.induct) (auto simp: Let_def)
  then show ?thesis
    by (auto simp: parse_register_def intro!: reports_intro split: list.split option.split)
qed

lemma reports_immediates [reports_intro]:
  "reports (literal_immediate t)" "reports (raw_immediate labels imm)" "reports (object_immediate ls symbols l imm)"
  by (auto simp: literal_immediate_def raw_immediate_def object_immediate_def intro!: reports_intro
      split: option.split)

lemma reports_operands [reports_intro]: "reports (validate_operands op s)"
  by (auto simp: validate_operands_def Let_def split: prod.split)

lemma reports_encode [reports_intro]: "reports (encode_or_fail ins)"
  by (simp add: encode_or_fail_def split: option.split)

lemma reports_statements [reports_intro]:
  "reports (translate_statement labels s)" "reports (object_statement ls symbols l s)"
  by (auto simp: translate_statement_def object_statement_def intro!: reports_intro split: option.split prod.split)

lemma reports_translate: "reports (asm_translate c)"
  by (auto simp: asm_translate_def translate_line_def translate_content_def intro!: reports_intro
      split: line_content.split)

lemma reports_object: "reports (asm_translate_object can_alloc c)"
  by (auto simp: asm_translate_object_def object_symbols_def make_global_def emit_line_def Let_def
      intro!: reports_intro split: line_content.split option.split prod.split sum.split)

section \<open>Results\<close>

lemma reports_phases: "reports (assemble_phases can_alloc object source)"
  unfolding assemble_phases_def
  by (intro reports_sbind reports_readAll reports_expand reports_parse reports_labels
      reports_process_lines [of can_alloc asm_init None, folded asm_processDirectives_def])
    (simp add: reports_translate reports_object)

lemma diagnostic_exact:
  "res_binary (assemble_source can_alloc source object) = None \<longleftrightarrow>
     fst (res_diagnostic (assemble_source can_alloc source object)) \<noteq> ZLASM_DIAGNOSTIC_NONE"
  using reports_phases [of can_alloc object]
  by (auto simp: assemble_source_def reports_def split: option.split sum.split)

text \<open>C21: An assembly, raw or to an object, of any source and with any allocator, either yields a
  binary and the code of no error, or no binary and the code of an error.\<close>

theorem zlasm_diagnostic_exact:
  "(res_binary (zlasm_assemble can_alloc source) = None \<longleftrightarrow>
      fst (res_diagnostic (zlasm_assemble can_alloc source)) \<noteq> ZLASM_DIAGNOSTIC_NONE) \<and>
   (res_binary (zlasm_assemble_object can_alloc source) = None \<longleftrightarrow>
      fst (res_diagnostic (zlasm_assemble_object can_alloc source)) \<noteq> ZLASM_DIAGNOSTIC_NONE)"
  by (simp add: zlasm_assemble_def zlasm_assemble_object_def diagnostic_exact)

end
