(* ===== verification/Asm_Samples.thy ===== *)
theory Asm_Samples
  imports Link_Samples Lexer_Facts Zlasm Object_Facts Macro_Facts Data_Facts Zlasm_Facts Failures
begin

text \<open>
  A sample program, what every phase of the assembler makes of its source text, and the application
  of the assembler's properties to it: every hypothesis of those properties holds there.
\<close>

section \<open>The program\<close>

definition nl :: string where
  "nl = [CHR 0x0A]"

definition jump_source :: string where
  "jump_source = ''.global start'' @ nl @ ''start: jmp #done'' @ nl @ ''int 0x02'' @ nl @ ''done: int 0xFF''"

definition tk :: "token_type \<Rightarrow> string \<Rightarrow> nat \<Rightarrow> nat \<Rightarrow> nat \<Rightarrow> nat \<Rightarrow> token" where
  "tk type value pos line col n = \<lparr>tok_type = type, tok_value = value, tok_pos = pos,
     tok_line = line, tok_col = col, tok_source_size = n\<rparr>"

definition jump_tokens :: "token list" where
  "jump_tokens =
     [tk TOK_DIRECTIVE ''global'' 0 1 1 7, tk TOK_ID ''start'' 8 1 9 5, tk TOK_NEWLINE nl 13 1 14 1,
      tk TOK_LABEL_INIT ''start'' 14 2 1 6, tk TOK_ID ''jmp'' 21 2 8 3, tk TOK_LABEL_USE ''done'' 25 2 12 5,
      tk TOK_NEWLINE nl 30 2 17 1,
      tk TOK_ID ''int'' 31 3 1 3, tk TOK_INT_HEX ''02'' 35 3 5 4, tk TOK_NEWLINE nl 39 3 9 1,
      tk TOK_LABEL_INIT ''done'' 40 4 1 5, tk TOK_ID ''int'' 46 4 7 3, tk TOK_INT_HEX ''FF'' 50 4 11 4]"

definition plain_statement :: "token \<Rightarrow> token \<Rightarrow> statement" where
  "plain_statement opcode imm = (statement_init opcode)\<lparr>st_imm := Some imm\<rparr>"

abbreviation jump_statement :: statement where
  "jump_statement \<equiv> plain_statement (tk TOK_ID ''jmp'' 21 2 8 3) (tk TOK_LABEL_USE ''done'' 25 2 12 5)"

abbreviation output_statement :: statement where
  "output_statement \<equiv> plain_statement (tk TOK_ID ''int'' 31 3 1 3) (tk TOK_INT_HEX ''02'' 35 3 5 4)"

abbreviation halt_statement :: statement where
  "halt_statement \<equiv> plain_statement (tk TOK_ID ''int'' 46 4 7 3) (tk TOK_INT_HEX ''FF'' 50 4 11 4)"

definition jump_lines :: "line list" where
  "jump_lines =
     [make_line None (L_DIR \<lparr>dir_type = DIR_GLOBAL, dir_name = tk TOK_DIRECTIVE ''global'' 0 1 1 7,
        dir_argv = [tk TOK_ID ''start'' 8 1 9 5]\<rparr>),
      make_line (Some ''start'') (L_STMT jump_statement), make_line None (L_STMT output_statement),
      make_line (Some ''done'') (L_STMT halt_statement)]"

lemma jump_lexed:
  "map_sum id lx_tokens (lexer_readAll (lexer_init jump_source)) = Inr jump_tokens"
  by code_simp

lemma jump_parsed: "sbind (macros_expand jump_tokens) parser_parse = Inr jump_lines"
  by code_simp

section \<open>Its context\<close>

definition text_line :: "string option \<Rightarrow> statement \<Rightarrow> nat \<Rightarrow> line" where
  "text_line label s offset = \<lparr>ln_label = label, ln_content = L_STMT s, ln_size = 8,
     ln_section_index = 0, ln_section_offset = offset\<rparr>"

definition jump_context :: assembler where
  "jump_context =
     \<lparr>ac_labels = [], ac_entry = None, ac_globals = [''start''], ac_externals = [],
      ac_lines = [text_line (Some ''start'') jump_statement 0, text_line None output_statement 8,
        text_line (Some ''done'') halt_statement 16],
      ac_sections = [\<lparr>as_name = ''text'', as_type = ZL_IMAGE_SECTION_TEXT, as_flags = 0,
        as_address = 0, as_alignment = 1, as_size = 24\<rparr>], ac_current = 0\<rparr>"

definition jump_labelled :: assembler where
  "jump_labelled = jump_context\<lparr>ac_labels := [(''start'', 0), (''done'', 16)]\<rparr>"

lemma jump_processed: "asm_processDirectives can_alloc jump_lines = Inr jump_context"
  by (simp add: asm_processDirectives_def jump_lines_def process_lines.simps(2) make_line_def asm_init_def
      relabel_def select_section_def section_type_of_def validate_directive_def require_arity_def
      require_first_def is_data_directive_def process_directive_def asm_addGlobal_def record_line_def
      content_size_def set_current_section_def validate_section_range_def tk_def limits vm_sizes
      ZLVM_INSTRUCTION_SIZE_def jump_context_def text_line_def)

lemma jump_processed_labels: "asm_processLabels jump_context = Inr jump_labelled"
  by (simp add: asm_processLabels_def jump_context_def process_label_def text_line_def content_size_def
      labelInfo_getIfExist_def ZLVM_INSTRUCTION_SIZE_def jump_labelled_def)

section \<open>Its raw code\<close>

definition jump_program :: "instruction list" where
  "jump_program = [plain JMP R_ZERO 16, plain INT' R_ZERO 2, plain INT' R_ZERO 0xFF]"

lemma sample_mnemonics:
  "opcode_of (string_to_opcode (line_to_upper ''jmp'')) = Some JMP"
  "opcode_of (string_to_opcode (line_to_upper ''int'')) = Some INT'"
  by code_simp+

lemma sample_literals:
  "token_get_int_value (tk TOK_INT_HEX ''02'' p l c n) = Inr 2"
  "token_get_int_value (tk TOK_INT_HEX ''FF'' p l c n) = Inr 0xFF"
  by code_simp+

lemma make_instruction_plain: "make_instruction op C_UNCONDITIONAL r R_ZERO imm = plain op r imm"
  by (simp add: make_instruction_def plain_def condition_code_def conditions_def register_index_def
      registers_list_def)

lemma encode_plain [simp]: "encode_or_fail (plain op r imm) = Inr (encoded (plain op r imm))"
  by (simp add: encode_or_fail_def encoded_plain ZLVM_INSTRUCTION_SIZE_def)

lemma statement_fields [simp]:
  "st_opcode (plain_statement o' i) = o'" "st_imm (plain_statement o' i) = Some i"
  "st_cond (plain_statement o' i) = None" "st_reg1 (plain_statement o' i) = None"
  "st_reg2 (plain_statement o' i) = None"
  by (simp_all add: plain_statement_def statement_init_def)

lemma token_fields [simp]:
  "tok_type (tk type value p l c n) = type" "tok_value (tk type value p l c n) = value"
  by (simp_all add: tk_def)

lemma sample_operands:
  "validate_operands JMP (plain_statement o' i) = Inr ()"
  "validate_operands INT' (plain_statement o' i) = Inr ()"
  by (simp_all add: validate_operands_def operand_counts_def)

lemma jump_translated: "asm_translate jump_labelled = Inr (program_code jump_program)"
  by (simp add: asm_translate_def jump_labelled_def jump_context_def text_line_def translate_line_def
      translate_content_def translate_statement_def sample_mnemonics sample_operands parse_optional_def
      raw_immediate_def labelInfo_getIfExist_def literal_immediate_def sample_literals make_instruction_plain
      limits jump_program_def program_code_def encoded_plain)

section \<open>Its object\<close>

definition jump_symbol :: "string \<Rightarrow> u32 \<Rightarrow> u8 \<Rightarrow> zl_symbol" where
  "jump_symbol name value binding = \<lparr>sym_name = Some (cstr name), sym_section_index = 0,
     sym_value = value, sym_size = 0, sym_binding = binding, sym_type = ZL_IMAGE_SYMBOL_FUNCTION\<rparr>"

definition jump_symbols :: "zl_symbol list" where
  "jump_symbols = [jump_symbol ''start'' 0 ZL_IMAGE_SYMBOL_GLOBAL, jump_symbol ''done'' 16 ZL_IMAGE_SYMBOL_LOCAL]"

definition jump_section :: zl_section where
  "jump_section = \<lparr>sec_name = Some (cstr ''text''), sec_type = ZL_IMAGE_SECTION_TEXT, sec_flags = 0,
     sec_alignment = 1, sec_address = 0, sec_data = Some (program_code jump_program), sec_data_size = 24\<rparr>"

abbreviation jump_object :: zl_image where
  "jump_object \<equiv> object_image jump_labelled jump_symbols [jump_section] []"

lemma sample_names:
  "cstr ''start'' = [115, 116, 97, 114, 116]" "cstr ''done'' = [100, 111, 110, 101]"
  "cstr ''text'' = [116, 101, 120, 116]"
  by (simp_all add: cstr_def of_char_def)

lemma jump_symbol_table: "object_symbols jump_labelled = Inr jump_symbols"
  by (simp add: object_symbols_def jump_labelled_def jump_context_def text_line_def add_label_symbol_def
      find_image_symbol_def c_name_def sample_names make_global_def jump_symbols_def jump_symbol_def)

lemma jump_emitted:
  "try_fold (emit_line (ac_lines jump_labelled) jump_symbols)
     (map object_image_section (ac_sections jump_labelled), []) (ac_lines jump_labelled) =
   Inr ([jump_section], [])"
proof -
  have d: "bytes_write list_update 16 (encoded (plain INT' R_ZERO 0xFF))
      (bytes_write list_update 8 (encoded (plain INT' R_ZERO 2))
        (bytes_write list_update 0 (encoded (plain JMP R_ZERO 16)) (replicate 24 0))) =
      program_code jump_program"
    by (simp add: bytes_write_eq encoded_plain program_code_def jump_program_def)
  show ?thesis
    by (simp add: jump_labelled_def jump_context_def text_line_def emit_line_def object_image_section_def
        object_statement_def sample_mnemonics sample_operands parse_optional_def object_immediate_def
        find_symbol_line_def literal_immediate_def sample_literals limits make_instruction_plain
        emit_def image_consts d jump_section_def)
qed

lemma jump_object_fields [simp]:
  "img_kind jump_object = ZL_IMAGE_OBJECT" "img_entry_symbol jump_object = None"
  "img_entry_point jump_object = 0"
  "img_sections jump_object = Some [jump_section]" "img_symbols jump_object = Some jump_symbols"
  "img_relocations jump_object = None" "img_section_count jump_object = Suc 0"
  "img_symbol_count jump_object = 2" "img_relocation_count jump_object = 0" "\<not> null_arrays jump_object"
  "c_array (Some jump_symbols) 2 = jump_symbols" "length jump_symbols = 2"
  by (simp_all add: object_image_def jump_symbols_def c_array_def jump_labelled_def jump_context_def
      null_arrays_def)

lemma jump_code_length [simp]: "length (program_code jump_program) = 24"
  by (simp add: program_code_def jump_program_def encoded_plain)

lemma valid_jump_object: "image_mem_ok jump_object" "valid_image jump_object"
proof -
  have s: "section_ok jump_section" "section_mem_ok jump_section"
    by (simp_all add: section_ok_def section_mem_ok_def jump_section_def valid_alignment_def image_consts
        c_string_ok_def c_name_def limits sample_names)
  have y: "\<forall>y \<in> set jump_symbols. c_string_ok (sym_name y)"
    by (simp add: jump_symbols_def jump_symbol_def c_string_ok_def c_name_def sample_names)
  show "image_mem_ok jump_object"
    using s y by (simp add: image_mem_ok_def c_string_ok_def c_name_def [of None])
  show "valid_image jump_object"
    using s by (simp add: valid_image_def)
      (simp add: symbol_ok_def jump_symbols_def jump_symbol_def image_consts)
qed

lemma length_jump_object: "length (image_layout jump_object) = 161"
proof -
  have "arrays_ok jump_object" by (rule arrays_okI [OF valid_jump_object(1)]) simp
  moreover have "length (string_table jump_object) = 17"
    by (simp add: string_table_def entry_name_def)
      (simp add: section_names_def symbol_names_def name_bytes_def sample_names jump_symbols_def
        jump_symbol_def jump_section_def c_name_def)
  moreover have "length (payloads [jump_section]) = 24"
    by (simp add: payloads_def section_payload_def jump_section_def image_consts c_array_def)
  ultimately show ?thesis by (simp add: length_image_layout)
qed

lemma jump_object_bytes:
  assumes "can_alloc 161"
  shows "asm_translate_object can_alloc jump_labelled = Inr (image_layout jump_object)"
proof -
  have "zl_image_encode can_alloc (Some jump_object) = Inr (image_layout jump_object)"
    using zl_image_encode_Inr [OF valid_jump_object(1)] valid_jump_object(2) length_jump_object assms
    by (simp add: limits)
  then show ?thesis by (simp add: asm_translate_object_def jump_symbol_table jump_emitted)
qed

section \<open>Witnesses\<close>

theorem lexer_tokens_cover_witness:
  "\<exists>st :: lexer. lx_tokens st = jump_tokens \<and> tokens_cover jump_source (length jump_source) (lx_tokens st)"
proof -
  obtain st where st: "lexer_readAll (lexer_init jump_source) = Inr st" "lx_tokens st = jump_tokens"
    using jump_lexed by (cases "lexer_readAll (lexer_init jump_source)") auto
  show ?thesis using lexer_tokens_cover [OF st(1)] st(2) by blast
qed

theorem integer_literals_exact_witness:
  "token_get_int_value (tk TOK_INT_HEX ''FF'' 50 4 11 4) = Inr (of_nat 255)"
proof -
  have "digits_value 16 0 ''FF'' = Some 255" by code_simp
  then show ?thesis
    using integer_literals_exact [of "tk TOK_INT_HEX ''FF'' 50 4 11 4" 16 255 0] by simp
qed

theorem macros_expand_normal_witness: "macros_expand jump_tokens = Inr jump_tokens"
proof -
  have "macro_free True jump_tokens \<and> list_all (\<lambda>t. \<not> is_directive t ''endmacro'') jump_tokens"
    by code_simp
  then show ?thesis using macros_expand_normal [of jump_tokens "[]"] by blast
qed

definition emit_macro :: macro where
  "emit_macro = \<lparr>mac_name = tk TOK_ID ''emit'' 7 1 8 4, mac_parameters = [tk TOK_ID ''x'' 12 1 13 1],
     mac_body = [tk TOK_ID ''int'' 14 2 1 3, tk TOK_ID ''x'' 18 2 5 1, tk TOK_NEWLINE nl 19 2 6 1]\<rparr>"

theorem macro_call_witness:
  "expand_range [emit_macro] [] None True
     [tk TOK_ID ''@emit'' 30 4 1 5, tk TOK_INT_DEC ''2'' 36 4 7 1, tk TOK_NEWLINE nl 37 4 8 1] =
   Inr [tk TOK_ID ''int'' 30 4 1 5, tk TOK_INT_DEC ''2'' 30 4 1 5, tk TOK_NEWLINE nl 30 4 1 5]"
proof -
  let ?t = "tk TOK_ID ''@emit'' 30 4 1 5" and ?a = "tk TOK_INT_DEC ''2'' 36 4 7 1"
    and ?n = "tk TOK_NEWLINE nl 37 4 8 1"
    and ?body = "[tk TOK_ID ''int'' 30 4 1 5, tk TOK_INT_DEC ''2'' 30 4 1 5, tk TOK_NEWLINE nl 30 4 1 5]"
  have "find_macro [emit_macro] (invoked_name ?t) = Some emit_macro" "list_all positional [?a]"
    by code_simp+
  then obtain body where body: "list_all2 (replaces emit_macro [?a] ?t) (mac_body emit_macro) body"
    "expand_range [emit_macro] [] None True [?t, ?a, ?n] =
      sbind (expand_range [emit_macro] [emit_macro] (Some ?t) True body) (\<lambda>expanded. Inr expanded)"
    "calls_nothing [emit_macro] True body \<Longrightarrow>
      expand_range [emit_macro] [emit_macro] (Some ?t) True body = Inr body"
    using macro_call [of ?t "[emit_macro]" emit_macro "[?a]" ?n "[]" None "[]"]
    by (auto simp: emit_macro_def is_expanding_def)
  have "list_all2 (replaces emit_macro [?a] ?t) (mac_body emit_macro) ?body" by code_simp
  then have "body = ?body" using body(1) replaces_all_unique by blast
  moreover have "calls_nothing [emit_macro] True ?body" by code_simp
  ultimately show ?thesis using body(2,3) by simp
qed

theorem numeric_data_exact_witness:
  "\<exists>bytes. directive_get_raw_data (\<lambda>n. True) \<lparr>dir_type = DIR_HWORD, dir_name = tk TOK_DIRECTIVE ''hword'' 0 1 1 6,
     dir_argv = [tk TOK_INT_HEX ''FF'' 7 1 8 4]\<rparr> = Inr bytes \<and> length bytes = 2 \<and>
     le_read ((!) bytes) 2 0 = (0xFF :: u64)"
  using numeric_data_exact [of "\<lparr>dir_type = DIR_HWORD, dir_name = tk TOK_DIRECTIVE ''hword'' 0 1 1 6,
     dir_argv = [tk TOK_INT_HEX ''FF'' 7 1 8 4]\<rparr>" 2 "\<lambda>n. True"]
  by (auto simp: data_value_def sample_literals limits)

theorem align_section_exact_witness:
  "align_section (hd (ac_sections jump_context)) (tk TOK_INT_HEX ''02'' 0 1 1 4) =
     Inr ((hd (ac_sections jump_context))\<lparr>as_size := 24, as_alignment := 2\<rparr>)"
proof -
  have "\<exists>k < 32. (2 :: nat) = 2 ^ k" by (intro exI [of _ 1]) simp
  then show ?thesis
    using align_section_exact [of "tk TOK_INT_HEX ''02'' 0 1 1 4" 2 "hd (ac_sections jump_context)"]
    by (simp add: sample_literals jump_context_def vm_sizes round_up_def)
qed

theorem asm_processDirectives_invariant_witness:
  "context_ok jump_context \<and> statements (ac_lines jump_context) = statements jump_lines"
  using asm_processDirectives_invariant [OF jump_processed [of "\<lambda>n. True"]] .

theorem asm_translate_layout_witness:
  "length (program_code jump_program) = lines_size (ac_lines jump_context)"
  using asm_translate_layout [OF jump_processed_labels jump_translated] by blast

definition rom_sample :: vm where
  "rom_sample = (fresh_vm [] [] 64)
     \<lparr>vm_rom := program_code jump_program @ replicate (ZLVM_ROM_SIZE - 24) 0\<rparr>"

theorem assembled_statement_executes_witness:
  "\<exists>op cond r1 r2 imm. says (ac_labels jump_labelled) jump_statement op cond r1 r2 imm \<and>
     vm_step rom_sample = vm_run_instruction (set_reg R_PC 8 rom_sample) (make_instruction op cond r1 r2 imm)"
proof -
  have l: "ac_lines jump_context = [] @ text_line (Some ''start'') jump_statement 0 #
    [text_line None output_statement 8, text_line (Some ''done'') halt_statement 16]"
    by (simp add: jump_context_def)
  have "reg rom_sample R_PC = 0" "wf_vm rom_sample" "vm_has_no_error rom_sample"
    "memory_end rom_sample \<le> WORD_MAX" "take 24 (vm_rom rom_sample) = program_code jump_program"
    by (simp_all add: rom_sample_def fresh_vm_def wf_vm_def memory_end_def vm_has_no_error_def
        vm_get_state_def is_error_iff vm_sizes limits)
  then show ?thesis
    using assembled_statement_executes [OF jump_processed_labels jump_translated l, of jump_statement rom_sample]
    by (simp add: text_line_def vm_sizes) blast
qed

lemma jump_assembled: "assembled (\<lambda>n. True) jump_source jump_labelled"
proof -
  obtain st where "lexer_readAll (lexer_init jump_source) = Inr st" "lx_tokens st = jump_tokens"
    using jump_lexed by (cases "lexer_readAll (lexer_init jump_source)") auto
  then show ?thesis
    using jump_parsed jump_processed jump_processed_labels
    by (auto simp: assembled_def sbind_Inr)
qed

lemma jump_nul_free: "nul_free jump_source"
  by (simp add: nul_free_def jump_source_def nl_def)

lemma jump_object_binary:
  "res_binary (zlasm_assemble_object (\<lambda>n. True) (Some jump_source)) = Some (image_layout jump_object)"
  using jump_assembled jump_object_bytes [of "\<lambda>n. True"]
  by (auto simp: zlasm_assemble_object_def assemble_source_Some assemble_phases_Inr)

theorem zlasm_object_sound_witness:
  "\<exists>img. link_decode (\<lambda>n. True) (Some (image_layout jump_object), 161) = Inr (normal_image img) \<and> valid_image img"
  using zlasm_object_sound [OF jump_nul_free jump_object_binary, of "\<lambda>n. True"]
  by (simp add: Let_def length_jump_object) blast

theorem object_symbols_exact_witness:
  "lookup_symbol jump_symbols ''start'' = Some (0, 0, ZL_IMAGE_SYMBOL_GLOBAL)"
proof -
  have "find (\<lambda>l. ln_label l = Some ''start'') (ac_lines jump_labelled) =
      Some (text_line (Some ''start'') jump_statement 0)"
    by (simp add: jump_labelled_def jump_context_def text_line_def)
  then show ?thesis
    using object_symbols_exact [of jump_labelled] jump_symbol_table
    by (simp add: text_line_def jump_labelled_def jump_context_def)
qed

theorem source_label_references_witness:
  "\<exists>img data. zl_image_decode (\<lambda>n. True) (Some (image_layout jump_object)) 161 = Inr img \<and>
     sec_data (image_sections img ! 0) = Some data \<and> le_read ((!) data) 4 4 = (16 :: u32)"
proof -
  let ?l = "text_line (Some ''start'') jump_statement 0"
  have "?l \<in> set (ac_lines jump_labelled)" "find_symbol_line (ac_lines jump_labelled) ''done'' 0 = Some 16"
    by (simp_all add: jump_labelled_def jump_context_def find_symbol_line_def text_line_def)
  then show ?thesis
    using source_label_references [OF jump_nul_free jump_assembled jump_object_bytes, of "\<lambda>n. True" ?l
        jump_statement "tk TOK_LABEL_USE ''done'' 25 2 12 5"]
    by (simp add: text_line_def length_jump_object Let_def) blast
qed

definition bss_lines :: "line list" where
  "bss_lines =
     [make_line None (L_DIR \<lparr>dir_type = DIR_SECTION, dir_name = tk TOK_DIRECTIVE ''section'' 0 1 1 8,
        dir_argv = [tk TOK_ID ''bss'' 9 1 10 3]\<rparr>),
      make_line None (L_DIR \<lparr>dir_type = DIR_SPACE, dir_name = tk TOK_DIRECTIVE ''space'' 13 2 1 6,
        dir_argv = [tk TOK_INT_HEX ''02'' 20 2 8 4]\<rparr>)]"

theorem bss_takes_no_line_witness:
  "\<exists>c\<^sub>0 c. asm_processDirectives (\<lambda>n. True) bss_lines = Inr c\<^sub>0 \<and> asm_processLabels c\<^sub>0 = Inr c \<and>
     (\<exists>d. asm_translate_object (\<lambda>n. True) c = Inl d)"
proof -
  obtain c\<^sub>0 l where c: "asm_processDirectives (\<lambda>n. True) bss_lines = Inr c\<^sub>0" "ac_lines c\<^sub>0 = [l]"
    "ln_label l = None" "as_type (ac_sections c\<^sub>0 ! ln_section_index l) = ZL_IMAGE_SECTION_BSS"
    by (simp add: asm_processDirectives_def bss_lines_def process_lines.simps(2) make_line_def asm_init_def
        relabel_def select_section_def section_type_of_def validate_directive_def require_arity_def
        require_first_def is_data_directive_def process_directive_def is_supported_section_def record_line_def
        content_size_def set_current_section_def validate_section_range_def limits vm_sizes
        is_integer_token_def directive_get_raw_data_def sample_literals)
  then have "asm_processLabels c\<^sub>0 = Inr (c\<^sub>0\<lparr>ac_labels := []\<rparr>)"
    by (simp add: asm_processLabels_def process_label_def)
  then show ?thesis
    using bss_takes_no_line [OF c(1)] c by auto
qed

end
