(* ===== verification/Source_Run.thy ===== *)
theory Source_Run
  imports Zlasm_Facts
begin

text \<open>
  A semantics of source programs by their lines, and that the machine on the assembled code follows it:
  the correctness of the assembler, loader and processor together for raw programs.
\<close>

section \<open>The meaning of a program\<close>

text \<open>What a statement means among the lines of its program: a label is the address of the line that
  defines it, which is the size of the lines before it.\<close>

definition label_at :: "line list \<Rightarrow> string \<Rightarrow> nat \<Rightarrow> bool" where
  "label_at lines name address \<longleftrightarrow>
     (\<exists>pre l post. lines = pre @ l # post \<and> ln_label l = Some name \<and> address = lines_size pre)"

definition operand_means :: "line list \<Rightarrow> token option \<Rightarrow> u32 \<Rightarrow> bool" where
  "operand_means lines operand imm \<longleftrightarrow>
     (case operand of None \<Rightarrow> imm = 0
      | Some t \<Rightarrow>
          if tok_type t = TOK_LABEL_USE
          then label_at lines (tok_value t) (unat imm)
          else literal_immediate t = Inr imm)"

definition statement_means :: "line list \<Rightarrow> statement \<Rightarrow> instruction \<Rightarrow> bool" where
  "statement_means lines s ins \<longleftrightarrow>
     (\<exists>op cond r1 r2 imm.
        opcode_of (string_to_opcode (line_to_upper (tok_value (st_opcode s)))) = Some op \<and>
        parse_optional parse_condition C_UNCONDITIONAL (st_cond s) = Inr cond \<and>
        parse_optional parse_register R_ZERO (st_reg1 s) = Inr r1 \<and>
        parse_optional parse_register R_ZERO (st_reg2 s) = Inr r2 \<and>
        operand_means lines (st_imm s) imm \<and> ins = make_instruction op cond r1 r2 imm)"

text \<open>The statement at an address.\<close>

definition statement_at :: "line list \<Rightarrow> nat \<Rightarrow> statement \<Rightarrow> bool" where
  "statement_at lines address s \<longleftrightarrow>
     (\<exists>pre l post. lines = pre @ l # post \<and> ln_content l = L_STMT s \<and> address = lines_size pre)"

text \<open>One turn of a source program executes the statement at \<open>$pc\<close>, whatever the memory holds there.\<close>

inductive source_turn :: "line list \<Rightarrow> vm \<Rightarrow> vm \<Rightarrow> bool" for lines where
  turn: "vm_continues vm \<Longrightarrow> statement_at lines (unat (reg vm R_PC)) s \<Longrightarrow> statement_means lines s ins \<Longrightarrow>
    source_turn lines vm (vm_run_instruction (set_reg R_PC (reg vm R_PC + 8) vm) ins)"

inductive source_reaches :: "line list \<Rightarrow> vm \<Rightarrow> vm \<Rightarrow> bool" for lines where
  reach_refl: "source_reaches lines vm vm"
| reach_turn: "source_reaches lines vm vm' \<Longrightarrow> source_turn lines vm' vm'' \<Longrightarrow> source_reaches lines vm vm''"

section \<open>Statements are what the translation makes of them\<close>

lemma statement_at_unique:
  assumes "statement_at lines a s" "statement_at lines a t"
  shows "s = t"
proof -
  have size: "0 < content_size (L_STMT s)" for s by (simp add: content_size_def ZLVM_INSTRUCTION_SIZE_def)
  obtain pre l post where e: "lines = pre @ l # post" "ln_content l = L_STMT s" "a = lines_size pre"
    using assms(1) by (auto simp: statement_at_def)
  obtain pre' l' post' where f: "lines = pre' @ l' # post'" "ln_content l' = L_STMT t" "a = lines_size pre'"
    using assms(2) by (auto simp: statement_at_def)
  have "pre @ l # post = pre' @ l' # post'" using e(1) f(1) by simp
  then obtain us where "(pre = pre' @ us \<and> us @ l # post = l' # post') \<or> (pre @ us = pre' \<and> l # post = us @ l' # post')" (is ?split)
    by (meson append_eq_append_conv2)
  then have "us = []"
  proof
    assume "pre = pre' @ us \<and> us @ l # post = l' # post'"
    then show ?thesis using e(3) f(2,3) size [of t] by (cases us) auto
  next
    assume "pre @ us = pre' \<and> l # post = us @ l' # post'"
    then show ?thesis using e(2,3) f(3) size [of s] by (cases us) auto
  qed
  then show ?thesis using \<open>?split\<close> e(2) f(2) by auto
qed

lemma label_at_iff:
  "asm_processLabels c = Inr c' \<Longrightarrow>
     label_at (ac_lines c) name address \<longleftrightarrow> labelInfo_getIfExist (ac_labels c') name = Some address"
  by (simp add: label_address label_at_def)

lemma operand_means_unique:
  assumes "asm_processLabels c = Inr c'" "operand_means (ac_lines c) t a" "operand_means (ac_lines c) t b"
  shows "a = b"
proof -
  have "a = b" if "unat a = unat b" using that by (rule unsigned_word_eqI)
  then show ?thesis
    using assms(2,3) by (auto simp: operand_means_def label_at_iff [OF assms(1)] split: option.splits if_splits)
qed

lemma statement_means_unique:
  "asm_processLabels c = Inr c' \<Longrightarrow> statement_means (ac_lines c) s i \<Longrightarrow> statement_means (ac_lines c) s j \<Longrightarrow> i = j"
  using operand_means_unique by (fastforce simp: statement_means_def)

lemma says_means:
  assumes "asm_processLabels c = Inr c'" "says (ac_labels c') s op cond r1 r2 imm"
  shows "statement_means (ac_lines c) s (make_instruction op cond r1 r2 imm)"
proof -
  have "operand_means (ac_lines c) (st_imm s) imm"
    using assms(2)
    by (auto simp: label_at_iff [OF assms(1)] says_def raw_immediate_def operand_means_def unat_of_nat_u32 limits
        split: option.splits if_splits)
  then show ?thesis using assms(2) unfolding statement_means_def says_def by blast
qed

section \<open>The machine follows the source\<close>

text \<open>A machine whose ROM starts with the code of a program.\<close>

definition runs_code :: "u8 list \<Rightarrow> vm \<Rightarrow> bool" where
  "runs_code code vm \<longleftrightarrow> take (length code) (vm_rom vm) = code \<and> wf_vm vm \<and> memory_end vm \<le> WORD_MAX"

lemma turns_agree:
  assumes "asm_processLabels c = Inr c'" "asm_translate c' = Inr code" "length code \<le> ZLVM_ROM_SIZE"
    and "runs_code code vm" "statement_at (ac_lines c) (unat (reg vm R_PC)) s"
  shows "vm_turn vm vm' \<longleftrightarrow> source_turn (ac_lines c) vm vm'"
proof -
  obtain pre l post where l: "ac_lines c = pre @ l # post" "ln_content l = L_STMT s" "unat (reg vm R_PC) = lines_size pre"
    using assms(5) by (auto simp: statement_at_def)
  have step: "\<exists>ins. statement_means (ac_lines c) s ins \<and>
      vm_step vm = vm_run_instruction (set_reg R_PC (reg vm R_PC + 8) vm) ins" if "vm_continues vm"
    using statement_executes [OF assms(1,2) l(1,2) assms(3) _ _ _ _ l(3)] that assms(4) says_means [OF assms(1)]
    unfolding runs_code_def vm_continues_def by blast
  show ?thesis
  proof
    assume "vm_turn vm vm'"
    then have t: "vm_continues vm" "vm' = vm_step vm" by (simp_all add: vm_turn_step)
    then show "source_turn (ac_lines c) vm vm'" using step source_turn.turn assms(5) by metis
  next
    assume "source_turn (ac_lines c) vm vm'"
    then show "vm_turn vm vm'"
    proof cases
      case (turn t ins)
      then have "t = s" using statement_at_unique assms(5) by blast
      then show ?thesis
        using step [OF turn(2)] turn statement_means_unique [OF assms(1)] unfolding vm_turn_step by metis
    qed
  qed
qed

lemma source_turn_statement: "source_turn lines vm vm' \<Longrightarrow> \<exists>s. statement_at lines (unat (reg vm R_PC)) s"
  by (auto elim: source_turn.cases)

lemma vm_turn_keeps: "vm_turn vm vm' \<Longrightarrow> wf_vm vm \<Longrightarrow> wf_vm vm' \<and> memory_end vm' = memory_end vm"
  using keeps_step [of vm] by (auto simp: vm_turn_step keeps_def memory_end_def)

text \<open>As long as the program does not overwrite itself.\<close>

definition keeps_code :: "line list \<Rightarrow> u8 list \<Rightarrow> vm \<Rightarrow> bool" where
  "keeps_code lines code vm \<longleftrightarrow>
     (\<forall>v. source_reaches lines vm v \<longrightarrow> take (length code) (vm_rom v) = take (length code) (vm_rom vm))"

lemma source_reaches_machine:
  assumes "asm_processLabels c = Inr c'" "asm_translate c' = Inr code" "length code \<le> ZLVM_ROM_SIZE"
    and "runs_code code vm" "keeps_code (ac_lines c) code vm" "source_reaches (ac_lines c) vm v"
  shows "vm_reaches vm v \<and> runs_code code v"
  using assms(6,4,5)
proof (induction rule: source_reaches.induct)
  case (reach_refl vm)
  then show ?case by (simp add: vm_reaches.reach_refl)
next
  case (reach_turn vm v w)
  then have v: "vm_reaches vm v" "runs_code code v" by blast+
  have "vm_turn v w"
    using turns_agree [OF assms(1-3) v(2)] source_turn_statement reach_turn.hyps(2) by blast
  moreover have "take (length code) (vm_rom w) = code"
    using reach_turn source_reaches.reach_turn by (auto simp: keeps_code_def runs_code_def)
  ultimately show ?case
    using v vm_turn_keeps by (auto simp: runs_code_def intro: vm_reaches.reach_turn)
qed

lemma machine_reaches_source:
  assumes "asm_processLabels c = Inr c'" "asm_translate c' = Inr code" "length code \<le> ZLVM_ROM_SIZE"
    and "runs_code code vm" "keeps_code (ac_lines c) code vm" "vm_reaches vm v"
  shows "source_reaches (ac_lines c) vm v \<or>
    (\<exists>u. source_reaches (ac_lines c) vm u \<and> vm_continues u \<and> (\<nexists>s. statement_at (ac_lines c) (unat (reg u R_PC)) s))"
  using assms(6,4,5)
proof (induction rule: vm_reaches.induct)
  case (reach_refl vm)
  then show ?case by (blast intro: source_reaches.reach_refl)
next
  case (reach_turn vm v w)
  then consider "source_reaches (ac_lines c) vm v" | u where "source_reaches (ac_lines c) vm u" "vm_continues u"
      "\<nexists>s. statement_at (ac_lines c) (unat (reg u R_PC)) s"
    by blast
  then show ?case
  proof cases
    case 1
    then have "runs_code code v" using source_reaches_machine [OF assms(1-3)] reach_turn.prems by blast
    from turns_agree [OF assms(1-3) this] show ?thesis
      using 1 reach_turn.hyps(2) source_reaches.reach_turn unfolding vm_turn_step by metis
  qed blast
qed

section \<open>Programs that do not store\<close>

definition writes_memory :: "opcode \<Rightarrow> bool" where
  "writes_memory op \<longleftrightarrow> op \<in> {PUSHR, PUSHI, DUP, STOREB, STOREH, STOREW}"

definition store_free :: "line list \<Rightarrow> bool" where
  "store_free lines \<longleftrightarrow> (\<forall>a s op. statement_at lines a s \<longrightarrow>
     opcode_of (string_to_opcode (line_to_upper (tok_value (st_opcode s)))) = Some op \<longrightarrow> \<not> writes_memory op)"

lemma rom_updates [simp]:
  "vm_rom (vm_do_operation vm op l r) = vm_rom vm" "vm_rom (vm_interrupt vm i) = vm_rom vm"
  "vm_rom (vm_syscall vm) = vm_rom vm" "vm_rom (fst (vm_pop_word vm)) = vm_rom vm"
  "vm_rom (fst (vm_check_condition vm k)) = vm_rom vm"
  by (simp_all add: vm_do_operation_def vm_interrupt_def vm_syscall_def fputc_def fgetc_word_def vm_pop_word_def
      vm_check_condition_def Let_def vm_read_word_def vm_read_scalar_eq case_prod_beta split: list.split option.split)

lemma vm_execute_rom: "\<not> writes_memory op \<Longrightarrow> vm_rom (fst (vm_execute vm ins op)) = vm_rom vm"
proof -
  have load: "vm_rom (vm_load rd sz f vm ins) = vm_rom vm" if "\<And>v a. vm_rom (fst (rd v a)) = vm_rom v"
    for rd :: "vm \<Rightarrow> nat \<Rightarrow> vm \<times> ('a :: len) word" and sz f
    using that by (simp add: vm_load_def Let_def vm_effective_address_eq case_prod_beta split: option.split prod.split)
  assume "\<not> writes_memory op"
  then show ?thesis
    by (cases op) (simp_all add: vm_execute_def Let_def writes_memory_def load vm_read_eqs case_prod_beta
        split: option.split prod.split)
qed

lemma vm_run_instruction_rom:
  assumes "\<And>op. opcode_of (ins_opcode ins) = Some op \<Longrightarrow> \<not> writes_memory op"
  shows "vm_rom (vm_run_instruction vm ins) = vm_rom vm"
  using assms vm_execute_rom
  by (simp add: vm_run_instruction_def Let_def vm_switch_def case_prod_beta split: option.split)

lemma source_turn_rom:
  assumes "store_free lines" "source_turn lines vm vm'"
  shows "vm_rom vm' = vm_rom vm"
  using assms(2)
proof cases
  case (turn s ins)
  then have "opcode_of (ins_opcode ins) = Some op \<Longrightarrow> \<not> writes_memory op" for op
    using assms(1) by (auto simp: store_free_def statement_means_def make_instruction_def opcode_of_code)
  then show ?thesis using turn by (simp add: vm_run_instruction_rom)
qed

lemma store_free_keeps:
  assumes "store_free lines"
  shows "keeps_code lines code vm"
proof -
  have "vm_rom v = vm_rom vm" if "source_reaches lines vm v" for v
    using that by (induction rule: source_reaches.induct) (auto simp: source_turn_rom [OF assms])
  then show ?thesis by (simp add: keeps_code_def)
qed

lemma store_freeI:
  "(\<And>l s op. l \<in> set lines \<Longrightarrow> ln_content l = L_STMT s \<Longrightarrow>
     opcode_of (string_to_opcode (line_to_upper (tok_value (st_opcode s)))) = Some op \<Longrightarrow> \<not> writes_memory op) \<Longrightarrow>
   store_free lines"
  unfolding store_free_def statement_at_def by fastforce

section \<open>Source programs\<close>

lemma assembled_unique: "assembled can_alloc source c \<Longrightarrow> assembled can_alloc source c' \<Longrightarrow> c = c'"
  by (auto simp: assembled_def)

lemma loaded_code:
  assumes "length code \<le> ZLVM_ROM_SIZE" "wf_vm vm" "memory_end vm \<le> WORD_MAX"
  shows "runs_code code (vm_start (vm_loadDump vm code (length code)))"
  using assms by (simp add: runs_code_def vm_loadDump_def bytes_write_eq wf_vm_def vm_sizes memory_end_def)
    (simp add: vm_start_def)

text \<open>C1: Raw programs run as their source says. Assemble a source text and load the code into any machine
  whose memory ends below 4 GiB. Then, unless the program overwrites its own code: a run of the source, which executes at each turn the
  statement at \<open>$pc\<close> with every label meaning the address of the line that defines it, ends only in the
  machine that \<^verbatim>\<open>vm_run\<close> returns; when \<^verbatim>\<open>vm_run\<close> returns a machine, the source reaches it too, or it reaches
  a place where there is no statement; and at a statement the source never gets stuck.\<close>

theorem source_run_correct:
  assumes "assembled can_alloc source c" "res_binary (zlasm_assemble can_alloc (Some source)) = Some code"
    and "length code \<le> ZLVM_ROM_SIZE" "wf_vm vm" "memory_end vm \<le> WORD_MAX"
    and "loaded = vm_loadDump vm code (length code)" "keeps_code (ac_lines c) code (vm_start loaded)"
  shows "(\<forall>vm'. source_reaches (ac_lines c) (vm_start loaded) vm' \<and> \<not> vm_continues vm' \<longrightarrow>
      vm_run loaded = Some (vm_get_state vm', vm')) \<and>
    (\<forall>st vm'. vm_run loaded = Some (st, vm') \<longrightarrow> source_reaches (ac_lines c) (vm_start loaded) vm' \<or>
      (\<exists>u. source_reaches (ac_lines c) (vm_start loaded) u \<and> vm_continues u \<and>
        (\<nexists>s. statement_at (ac_lines c) (unat (reg u R_PC)) s))) \<and>
    (\<forall>u s. source_reaches (ac_lines c) (vm_start loaded) u \<and> vm_continues u \<and>
      statement_at (ac_lines c) (unat (reg u R_PC)) s \<longrightarrow> (\<exists>u'. source_turn (ac_lines c) u u'))"
proof -
  have "assemble_phases can_alloc False source = Inr code"
    using assms(2) by (simp add: zlasm_assemble_def assemble_source_Some)
  then have tr: "asm_translate c = Inr code"
    using assembled_unique [OF assms(1)] by (auto simp: assemble_phases_Inr)
  obtain c\<^sub>0 where lb: "asm_processLabels c\<^sub>0 = Inr c" using assms(1) by (auto simp: assembled_def)
  then have lines: "ac_lines c = ac_lines c\<^sub>0" by (rule labels_of_lines(3))
  have run: "runs_code code (vm_start loaded)" using loaded_code [OF assms(3-5)] assms(6) by simp
  note machine = source_reaches_machine [OF lb tr assms(3) run assms(7) [unfolded lines], folded lines]
  note source = machine_reaches_source [OF lb tr assms(3) run assms(7) [unfolded lines], folded lines]
  note agree = turns_agree [OF lb tr assms(3), folded lines]
  show ?thesis
  proof (intro conjI allI impI)
    fix vm' assume "source_reaches (ac_lines c) (vm_start loaded) vm' \<and> \<not> vm_continues vm'"
    then have "vm_reaches (vm_start loaded) vm'" "vm_loop vm' = Some vm'" using machine vm_loop_stop by blast+
    then show "vm_run loaded = Some (vm_get_state vm', vm')" by (simp add: vm_run_def vm_loop_reaches)
  next
    fix st vm' assume "vm_run loaded = Some (st, vm')"
    then have "vm_reaches (vm_start loaded) vm'" using vm_loop_result by (auto simp: vm_run_def)
    then show "source_reaches (ac_lines c) (vm_start loaded) vm' \<or>
      (\<exists>u. source_reaches (ac_lines c) (vm_start loaded) u \<and> vm_continues u \<and>
        (\<nexists>s. statement_at (ac_lines c) (unat (reg u R_PC)) s))"
      by (rule source)
  next
    fix u s assume u: "source_reaches (ac_lines c) (vm_start loaded) u \<and> vm_continues u \<and>
      statement_at (ac_lines c) (unat (reg u R_PC)) s"
    then have "vm_turn u (vm_step u)" by (simp add: vm_turn_step)
    then show "\<exists>u'. source_turn (ac_lines c) u u'" using agree machine u by blast
  qed
qed

end
