(* ===== verification/Pipeline.thy ===== *)
theory Pipeline
  imports Asm_Samples Source_Run
begin

text \<open>
  The sample program from its source text to the output of the machine, once as raw code and once
  through an object, the linker and the image loader.
\<close>

section \<open>A jump\<close>

lemma step_JMP:
  assumes "at_code vm p (plain JMP R_ZERO w # is)"
  shows "\<exists>vm'. vm_turn vm vm' \<and> wf_vm vm' \<and> vm_continues vm' \<and> memory_end vm' = memory_end vm \<and>
    vm_rom vm' = vm_rom vm \<and> reg vm' R_PC = w \<and> reg vm' R_A0 = reg vm R_A0 \<and> vm_stdout vm' = vm_stdout vm"
proof -
  note st = at_code_step [OF assms]
  let ?v = "set_reg R_PC (reg vm R_PC + 8) vm" and ?i = "plain JMP R_ZERO w"
  let ?n = "vm_finish (set_reg R_PC w (set_reg R_ZERO 0 ?v)) ?i False"
  have "vm_step vm = ?n"
    unfolding st(1) by (intro run_with_result [OF executes_plain]) (simp add: vm_execute_def Let_def)
  moreover have "keeps vm ?n" by (intro wf_intros)
  then have "wf_vm ?n" using st(4) by (simp add: keeps_def)
  moreover have "vm_continues ?n"
    using assms by (simp add: at_code_def vm_continues_def vm_has_no_error_def vm_has_state_def)
  moreover have "reg ?n R_PC = w" "reg ?n R_A0 = reg vm R_A0" using st(4) by (simp_all add: finish_regs wf_vm_def vm_sizes)
  moreover have "memory_end ?n = memory_end vm" "vm_rom ?n = vm_rom vm" "vm_stdout ?n = vm_stdout vm"
    by (simp_all add: memory_end_def)
  ultimately show ?thesis using st(5) by metis
qed

text \<open>The code in a ROM at an address.\<close>

definition rom_holds :: "u8 list \<Rightarrow> nat \<Rightarrow> instruction list \<Rightarrow> bool" where
  "rom_holds rom q is \<longleftrightarrow> q + length (program_code is) \<le> ZLVM_ROM_SIZE \<and>
     take (length (program_code is)) (drop q rom) = program_code is"

lemma run_jump:
  assumes "at_code vm p (plain JMP R_ZERO (of_nat q) # is)" "rom_holds (vm_rom vm) q js"
  obtains vm' where "vm_turn vm vm'" "at_code vm' q js" "reg vm' R_A0 = reg vm R_A0" "vm_stdout vm' = vm_stdout vm"
proof -
  obtain v where "vm_turn vm v" "wf_vm v" "vm_continues v" "memory_end v = memory_end vm"
    "vm_rom v = vm_rom vm" "reg v R_PC = of_nat q" "reg v R_A0 = reg vm R_A0" "vm_stdout v = vm_stdout vm"
    using step_JMP [OF assms(1)] by blast
  moreover from this have "at_code v q js"
    using assms by (simp add: at_code_def rom_holds_def unat_of_nat_u32 limits vm_sizes)
  ultimately show ?thesis using that by blast
qed

lemma run_halt:
  assumes "at_code vm p [plain INT' R_ZERO 0xFF]"
  shows "\<exists>vm'. vm_loop vm = Some vm' \<and> vm_get_state vm' = S_HALTED \<and> vm_stdout vm' = vm_stdout vm"
  using run_print_program [of vm p "[]"] assms by (simp add: print_program_Cons)

lemma run_output:
  assumes "at_code vm p [plain INT' R_ZERO 2, plain INT' R_ZERO 0xFF]"
  shows "\<exists>vm'. vm_loop vm = Some vm' \<and> vm_get_state vm' = S_HALTED \<and>
    vm_stdout vm' = vm_stdout vm @ [ucast (reg vm R_A0)]"
  using step_INT_print [OF assms] run_halt by (metis vm_loop_turn)

section \<open>The linked program\<close>

definition jump_linked_section :: link_section where
  "jump_linked_section = moved (\<lparr>ls_image = jump_section, ls_object = 0, ls_source = 0\<rparr>, 8)"

abbreviation jump_executable :: zl_image where
  "jump_executable \<equiv> executable_image 8 [jump_linked_section]"

lemma jump_decoded:
  "try_map (link_decode (\<lambda>n. True)) [(Some (image_layout jump_object), 161)] = Inr [normal_image jump_object]"
  using zl_image_decode_layout [OF valid_jump_object, of "\<lambda>n. True"]
  by (simp add: link_decode_def length_jump_object limits) (simp add: normal_image_def)

lemma normal_jump_object [simp]:
  "img_sections (normal_image jump_object) = Some [jump_section]"
  "img_section_count (normal_image jump_object) = Suc 0" "img_entry_symbol (normal_image jump_object) = None"
  "img_symbols (normal_image jump_object) = Some jump_symbols" "img_symbol_count (normal_image jump_object) = 2"
  "img_relocations (normal_image jump_object) = Some []" "img_relocation_count (normal_image jump_object) = 0"
proof -
  have "normal_section jump_section = jump_section" "map normal_symbol jump_symbols = jump_symbols"
    by (simp_all add: normal_section_def normal_symbol_def jump_section_def jump_symbols_def jump_symbol_def
        image_consts c_array_def c_name_def sample_names)
  then show "img_sections (normal_image jump_object) = Some [jump_section]"
    "img_section_count (normal_image jump_object) = Suc 0" "img_entry_symbol (normal_image jump_object) = None"
    "img_symbols (normal_image jump_object) = Some jump_symbols" "img_symbol_count (normal_image jump_object) = 2"
  "img_relocations (normal_image jump_object) = Some []" "img_relocation_count (normal_image jump_object) = 0"
    by (simp_all add: normal_image_def)
qed

lemma jump_placed: "layout_sections [normal_image jump_object] = Inr [jump_linked_section]"
proof -
  let ?s = "\<lparr>ls_image = jump_section, ls_object = 0, ls_source = 0\<rparr>"
  have "all_sections [normal_image jump_object] = [?s]" by (simp add: all_sections_def)
  moreover have "place_at 8 ?s = 8"
    by (simp add: place_at_def auto_placed_def jump_section_def round_up_def)
  ultimately show ?thesis
    by (subst layout_sections_Inr)
      (simp_all add: layout_ok_def in_rom_def jump_linked_section_def,
        simp_all add: jump_section_def valid_alignment_def vm_sizes)
qed

lemma jump_linked_fields [simp]:
  "ls_object jump_linked_section = 0" "ls_source jump_linked_section = 0"
  "sec_address (ls_image jump_linked_section) = 8" "sec_data_size (ls_image jump_linked_section) = 24"
  "sec_type (ls_image jump_linked_section) = ZL_IMAGE_SECTION_TEXT"
  "sec_data (ls_image jump_linked_section) = Some (program_code jump_program)"
  "sec_name (ls_image jump_linked_section) = Some [116, 101, 120, 116]"
  "sec_alignment (ls_image jump_linked_section) = 1"
  by (simp_all add: jump_linked_section_def jump_section_def moved_def sample_names)

lemma jump_linked_symbols:
  "try_fold (link_symbol [jump_linked_section]) [] (all_symbols [normal_image jump_object]) =
     Inr [jump_symbol ''start'' 8 ZL_IMAGE_SYMBOL_GLOBAL, jump_symbol ''done'' 24 ZL_IMAGE_SYMBOL_LOCAL]"
  by (simp add: all_symbols_def) (simp add: jump_symbols_def link_symbol_def defined_def find_section_def
      jump_symbol_def image_consts)

lemma jump_entry:
  "entry_address (selected_entry None [normal_image jump_object])
     [jump_symbol ''start'' 8 ZL_IMAGE_SYMBOL_GLOBAL, jump_symbol ''done'' 24 ZL_IMAGE_SYMBOL_LOCAL] = 8"
  by (simp add: entry_address_def selected_entry_def c_name_def jump_symbol_def defined_def image_consts sample_names)

lemma valid_jump_executable: "image_mem_ok jump_executable" "valid_image jump_executable"
proof -
  have s: "section_ok (ls_image jump_linked_section)" "section_mem_ok (ls_image jump_linked_section)"
    by (simp_all add: section_ok_def section_mem_ok_def valid_alignment_def image_consts c_string_ok_def
        c_name_def limits)
  then show "image_mem_ok jump_executable" by (simp add: executable_mem_ok)
  show "valid_image jump_executable"
    using s by (simp add: valid_image_def entry_found_def image_consts)
     (simp add: executable_image_def zero_image_def null_arrays_def)
qed

lemma length_jump_executable: "length (image_layout jump_executable) = 110"
proof -
  have "arrays_ok jump_executable"
    by (simp add: arrays_ok_def) (simp add: executable_image_def zero_image_def c_array_def)
  moreover have "length (string_table jump_executable) = 6"
    by (simp add: string_table_def entry_name_def section_names_def name_bytes_def c_name_def image_consts)
      (simp add: symbol_names_def executable_image_def zero_image_def c_array_def)
  moreover have "length (payloads [ls_image jump_linked_section]) = 24"
    by (simp add: payloads_def section_payload_def image_consts c_array_def)
  ultimately show ?thesis
    by (simp add: length_image_layout limits) (simp add: executable_image_def zero_image_def)
qed

lemma jump_link:
  "zl_link_objects (\<lambda>n. True) (Some [(Some (image_layout jump_object), 161)]) None =
     Inr (image_layout jump_executable)"
proof -
  have "all_relocations [normal_image jump_object] = []" by (simp add: all_relocations_def c_array_def)
  moreover have "zl_image_encode (\<lambda>n. True) (Some jump_executable) = Inr (image_layout jump_executable)"
    by (simp add: zl_image_encode_Inr valid_jump_executable length_jump_executable limits)
  ultimately show ?thesis
    by (simp add: zl_link_objects_def jump_decoded jump_placed jump_linked_symbols jump_entry
        del: try_fold.simps(2) try_map.simps)
qed

lemma jump_load:
  assumes "wf_vm vm"
  shows "\<exists>rom. vm_loadImage (\<lambda>n. True) (Some vm) (Some (image_layout jump_executable))
      (length (image_layout jump_executable)) =
      (Some (vm\<lparr>vm_rom := rom, vm_entryPoint := 8\<rparr>), ZL_IMAGE_ERROR_NONE) \<and>
    length rom = ZLVM_ROM_SIZE \<and> rom_holds rom 8 jump_program"
proof -
  let ?s = "normal_section (ls_image jump_linked_section)" and ?x = "normal_image jump_executable"
  have x: "image_sections ?x = [?s]" "img_kind ?x = ZL_IMAGE_EXECUTABLE" "img_entry_point ?x = 8"
    by (simp_all add: normal_image_def) (simp_all add: executable_image_def zero_image_def c_array_def)
  have s: "sec_type ?s = ZL_IMAGE_SECTION_TEXT" "sec_address ?s = 8" "sec_data_size ?s = 24"
    "c_array (sec_data ?s) 24 = program_code jump_program"
    by (simp_all add: normal_section_def image_consts c_array_def)
  have rom: "load_section (vm_rom vm) ?s =
      take 8 (vm_rom vm) @ program_code jump_program @ drop 32 (vm_rom vm)"
    using assms s by (simp add: load_section_def bytes_write_eq wf_vm_def vm_sizes image_consts)
  have "zl_image_decode (\<lambda>n. True) (Some (image_layout jump_executable)) (length (image_layout jump_executable)) = Inr ?x"
    using zl_image_decode_layout [OF valid_jump_executable, of "\<lambda>n. True"] length_jump_executable
    by (simp add: limits)
  then have "vm_loadImage (\<lambda>n. True) (Some vm) (Some (image_layout jump_executable))
      (length (image_layout jump_executable)) =
    (Some (vm\<lparr>vm_rom := load_section (vm_rom vm) ?s, vm_entryPoint := 8\<rparr>), ZL_IMAGE_ERROR_NONE)"
    using x s by (simp add: vm_loadImage_def outside_rom_def vm_sizes)
  moreover have "length (load_section (vm_rom vm) ?s) = ZLVM_ROM_SIZE"
    "rom_holds (load_section (vm_rom vm) ?s) 8 jump_program"
    unfolding rom using assms by (simp_all add: wf_vm_def rom_holds_def vm_sizes)
  ultimately show ?thesis by blast
qed

section \<open>Two runs\<close>

lemma start_code:
  assumes "wf_vm vm" "vm_continues vm" "memory_end vm \<le> WORD_MAX" "rom_holds (vm_rom vm) (unat (vm_entryPoint vm)) is"
  shows "at_code (vm_start vm) (unat (vm_entryPoint vm)) is"
proof -
  have "vm_rom (vm_start vm) = vm_rom vm" "vm_continues (vm_start vm)"
    using assms(2) by (simp_all add: vm_start_def vm_continues_def vm_has_no_error_def vm_has_state_def)
  then show ?thesis
    using assms vm_start_regs [OF assms(1), of R_PC] by (simp add: at_code_def rom_holds_def)
qed

lemma vm_start_rom [simp]: "vm_rom (vm_start vm) = vm_rom vm"
  by (simp add: vm_start_def)

lemma jump_raw_run:
  assumes "wf_vm vm" "vm_continues vm" "memory_end vm \<le> WORD_MAX"
  shows "\<exists>vm'. vm_run (vm_loadDump vm (program_code jump_program) 24) = Some (S_HALTED, vm') \<and>
    vm_stdout vm' = vm_stdout vm"
proof -
  define l where "l = vm\<lparr>vm_rom := program_code jump_program @ drop 24 (vm_rom vm), vm_entryPoint := 0\<rparr>"
  have l: "vm_loadDump vm (program_code jump_program) 24 = l"
    "wf_vm l" "vm_continues l" "memory_end l \<le> WORD_MAX" "vm_stdout l = vm_stdout vm" "vm_entryPoint l = 0"
    using assms by (simp_all add: l_def vm_loadDump_def bytes_write_eq wf_vm_def vm_sizes vm_continues_def
        vm_has_no_error_def vm_has_state_def memory_end_def)
  have "rom_holds (vm_rom l) 0 jump_program" by (simp add: l_def rom_holds_def vm_sizes)
  then have c: "at_code (vm_start l) 0 jump_program" using start_code [OF l(2-4)] l(6) by simp
  have r: "rom_holds (vm_rom (vm_start l)) 16 [plain INT' R_ZERO 0xFF]"
    by (simp add: l_def rom_holds_def program_code_def jump_program_def encoded_plain vm_sizes)
  obtain v where v: "vm_turn (vm_start l) v" "at_code v 16 [plain INT' R_ZERO 0xFF]"
    "vm_stdout v = vm_stdout (vm_start l)"
    by (rule run_jump [OF _ r, of 0]) (use c in \<open>simp add: jump_program_def\<close>)
  then show ?thesis using run_halt [OF v(2)] l(1,5) by (auto simp: vm_run_def vm_loop_turn)
qed

lemma jump_linked_run:
  assumes "wf_vm vm" "vm_continues vm" "memory_end vm \<le> WORD_MAX"
  shows "\<exists>loaded vm'. vm_loadImage (\<lambda>n. True) (Some vm) (Some (image_layout jump_executable))
      (length (image_layout jump_executable)) = (Some loaded, ZL_IMAGE_ERROR_NONE) \<and>
    vm_run loaded = Some (S_HALTED, vm') \<and> vm_stdout vm' = vm_stdout vm @ [ucast (reg vm R_A0)]"
proof -
  obtain rom where rom: "vm_loadImage (\<lambda>n. True) (Some vm) (Some (image_layout jump_executable))
      (length (image_layout jump_executable)) =
      (Some (vm\<lparr>vm_rom := rom, vm_entryPoint := 8\<rparr>), ZL_IMAGE_ERROR_NONE)"
    "length rom = ZLVM_ROM_SIZE" "rom_holds rom 8 jump_program"
    using jump_load [OF assms(1)] by blast
  define l where "l = vm\<lparr>vm_rom := rom, vm_entryPoint := 8\<rparr>"
  have l: "wf_vm l" "vm_continues l" "memory_end l \<le> WORD_MAX" "vm_rom l = rom" "vm_entryPoint l = 8"
    "vm_stdout l = vm_stdout vm" "reg l R_A0 = reg vm R_A0"
    using assms rom(2) by (simp_all add: l_def wf_vm_def vm_continues_def vm_has_no_error_def
        vm_has_state_def memory_end_def)
  have c: "at_code (vm_start l) 8 jump_program" using start_code [OF l(1-3)] l(4,5) rom(3) by simp
  have "take 16 (drop 8 (take 24 (drop 8 rom))) = drop 8 (program_code jump_program)"
    using rom(3) by (simp add: rom_holds_def)
  then have r: "rom_holds (vm_rom (vm_start l)) 16 [plain INT' R_ZERO 2, plain INT' R_ZERO 0xFF]"
    using l(4) by (simp add: rom_holds_def program_code_def jump_program_def encoded_plain vm_sizes drop_take)
  obtain v where v: "vm_turn (vm_start l) v" "at_code v 16 [plain INT' R_ZERO 2, plain INT' R_ZERO 0xFF]"
    "reg v R_A0 = reg (vm_start l) R_A0" "vm_stdout v = vm_stdout (vm_start l)"
    by (rule run_jump [OF _ r, of 8]) (use c in \<open>simp add: jump_program_def\<close>)
  have "reg (vm_start l) R_A0 = reg vm R_A0" using vm_start_regs [OF l(1), of R_A0] l(7) by simp
  then show ?thesis
    using run_output [OF v(2)] v l(6) rom(1) by (auto simp: vm_run_def vm_loop_turn simp flip: l_def)
qed

text \<open>C11: The two ways to run a program disagree. The sample program jumps over an instruction that
  prints. On every machine that is neither halted nor in error and whose memory ends below 4 GiB, its raw code
  halts without output; but its object, linked on its own and loaded, prints the byte in \<open>$a0\<close> before it halts: the linker places the section at 8, and the
  jump still goes to the label's offset in the section.\<close>

theorem local_label_misplaced:
  assumes "wf_vm vm" "vm_continues vm" "memory_end vm \<le> WORD_MAX"
  shows "\<exists>code object executable vm1 loaded vm2.
    res_binary (zlasm_assemble (\<lambda>n. True) (Some jump_source)) = Some code \<and>
    vm_run (vm_loadDump vm code (length code)) = Some (S_HALTED, vm1) \<and> vm_stdout vm1 = vm_stdout vm \<and>
    res_binary (zlasm_assemble_object (\<lambda>n. True) (Some jump_source)) = Some object \<and>
    zl_link_objects (\<lambda>n. True) (Some [(Some object, length object)]) None = Inr executable \<and>
    vm_loadImage (\<lambda>n. True) (Some vm) (Some executable) (length executable) = (Some loaded, ZL_IMAGE_ERROR_NONE) \<and>
    vm_run loaded = Some (S_HALTED, vm2) \<and> vm_stdout vm2 = vm_stdout vm @ [ucast (reg vm R_A0)]"
proof -
  have "res_binary (zlasm_assemble (\<lambda>n. True) (Some jump_source)) = Some (program_code jump_program)"
    using jump_assembled jump_translated
    by (auto simp: zlasm_assemble_def assemble_source_Some assemble_phases_Inr)
  then show ?thesis
    using jump_raw_run [OF assms] jump_object_binary jump_link jump_linked_run [OF assms]
    by (simp add: length_jump_object)
qed

theorem local_label_misplaced_witness:
  "\<exists>executable loaded vm'. vm_loadImage (\<lambda>n. True) (Some sample_vm) (Some executable) (length executable) =
      (Some loaded, ZL_IMAGE_ERROR_NONE) \<and> vm_run loaded = Some (S_HALTED, vm') \<and> vm_stdout vm' = [65]"
proof -
  have "vm_continues sample_vm" 
    by (simp add: vm_continues_def vm_has_state_def) (simp add: sample_vm_def fresh_vm_def)
  then show ?thesis using local_label_misplaced [OF wf_sample_vm] by (simp add: limits) (metis ucast_id)
qed

text \<open>The sample program stores nothing, so its run is the run of its source.\<close>

lemma jump_store_free: "store_free (ac_lines jump_labelled)"
  by (rule store_freeI)
    (auto simp: jump_labelled_def jump_context_def text_line_def  
      sample_mnemonics writes_memory_def)

theorem source_run_correct_witness:
  "\<exists>loaded vm'. vm_run loaded = Some (S_HALTED, vm') \<and> vm_stdout vm' = vm_stdout sample_vm \<and>
     (source_reaches (ac_lines jump_labelled) (vm_start loaded) vm' \<or>
      (\<exists>u. source_reaches (ac_lines jump_labelled) (vm_start loaded) u \<and> vm_continues u \<and>
        (\<nexists>s. statement_at (ac_lines jump_labelled) (unat (reg u R_PC)) s)))"
proof -
  let ?code = "program_code jump_program"
  have c: "vm_continues sample_vm"
    by (simp add: vm_continues_def vm_has_state_def) (simp add: sample_vm_def fresh_vm_def)
  have m: "memory_end sample_vm \<le> WORD_MAX" by (simp add: limits)
  have bin: "res_binary (zlasm_assemble (\<lambda>n. True) (Some jump_source)) = Some ?code"
    using jump_assembled jump_translated by (auto simp: zlasm_assemble_def assemble_source_Some assemble_phases_Inr)
  have len: "length ?code = 24" by simp
  obtain vm' where "vm_run (vm_loadDump sample_vm ?code 24) = Some (S_HALTED, vm')" "vm_stdout vm' = vm_stdout sample_vm"
    using jump_raw_run [OF wf_sample_vm c m] by blast
  then show ?thesis
    using source_run_correct [OF jump_assembled bin _ wf_sample_vm m refl store_free_keeps [OF jump_store_free]]
    by (auto simp: len vm_sizes)
qed

end
