(* ===== verification/Command_Facts.thy ===== *)
theory Command_Facts
  imports Commands Pipeline
begin

text \<open>
  The programs together: what a successful run of the assembler leaves in its output file, and that
  the emulator runs it as it runs the source.
\<close>

section \<open>Reading\<close>

text \<open>The loop reads the whole file.\<close>

lemma read_chunks_all:
  "read_chunks can_alloc capacity source rest = Some bytes \<Longrightarrow> bytes = source @ rest"
proof (induction can_alloc capacity source rest rule: read_chunks.induct)
  case (1 can_alloc capacity source rest)
  let ?n = "capacity - length source"
  show ?case
  proof (cases "length (take ?n rest) < ?n")
    case True
    then have "rest = take ?n rest" by simp
    with True "1.prems" show ?thesis by (subst (asm) read_chunks.simps) (simp add: Let_def)
  next
    case False
    then have "read_chunks can_alloc (capacity + 1024) (source @ take ?n rest) (drop ?n rest) = Some bytes"
      using "1.prems" by (subst (asm) read_chunks.simps) (simp add: Let_def split: if_splits)
    then have "bytes = (source @ take ?n rest) @ drop ?n rest"
      using "1.IH" [OF refl refl False] "1.prems" False
      by (subst (asm) (2) read_chunks.simps) (auto simp: Let_def split: if_splits)
    then show ?thesis by simp
  qed
qed

lemma read_chunks_total: "read_chunks (\<lambda>n. True) capacity source rest = Some (source @ rest)"
proof (induction "\<lambda>n :: nat. True" capacity source rest rule: read_chunks.induct)
  case (1 capacity source rest)
  then show ?case by (subst read_chunks.simps) (auto simp: Let_def)
qed

lemma source_text_nul_free: "nul_free (source_text bytes)"
  unfolding nul_free_def
proof
  assume "CHR 0x00 \<in> set (source_text bytes)"
  then obtain b where b: "b \<in> set (takeWhile (\<lambda>b. b \<noteq> 0) bytes)" "char_of (unat b) = CHR 0x00"
    by (auto simp: source_text_def)
  then have "of_char (char_of (unat b) :: char) = (0 :: nat)" by simp
  then have "unat b mod 256 = 0" by simp
  moreover have "unat b < 256" using unsigned_less [of b] by simp
  ultimately have "b = 0" by (simp add: unat_eq_zero)
  then show False using set_takeWhileD [OF b(1)] by simp
qed

section \<open>Output files\<close>

lemma write_binary_success:
  "write_binary io files path data = (0, files') \<longleftrightarrow>
     io_can_create io path \<and> length data \<le> io_takes io path \<and> \<not> io_close_error io path \<and>
     files' = files(path \<mapsto> data)"
  by (auto simp: write_binary_def Let_def)

lemma read_text_nul_free: "read_text can_alloc io files path = Some source \<Longrightarrow> nul_free source"
  by (auto simp: read_text_def source_text_nul_free split: if_splits option.splits)

text \<open>A successful run of the assembler with an explicit output file.\<close>

lemma zlasm_success:
  assumes "zlasm_main can_alloc io files argv = (0, files')"
    and "argv = (if object then [p, ''-c'', src, ''-o'', out] else [p, src, ''-o'', out])"
    and "object \<or> src \<noteq> ''-c''"
  obtains source bytes where "read_text can_alloc io files src = Some source"
    "res_binary (assemble_source can_alloc (Some source) object) = Some bytes" "files' = files(out \<mapsto> bytes)"
    "fst (res_diagnostic (assemble_source can_alloc (Some source) object)) = ZLASM_DIAGNOSTIC_NONE"
proof -
  have reads: "\<exists>source. read_text can_alloc io files src = Some source \<and>
      fst (res_diagnostic (assemble_source can_alloc (Some source) object)) = ZLASM_DIAGNOSTIC_NONE \<and>
      write_binary io files out (case res_binary (assemble_source can_alloc (Some source) object) of
        None \<Rightarrow> [] | Some bytes \<Rightarrow> bytes) = (0, files')"
    using assms
    by (cases object; cases "read_text can_alloc io files src")
      (auto simp: zlasm_main_def Let_def zlasm_assemble_def zlasm_assemble_object_def split: if_splits)
  then obtain source where s: "read_text can_alloc io files src = Some source"
    "fst (res_diagnostic (assemble_source can_alloc (Some source) object)) = ZLASM_DIAGNOSTIC_NONE"
    "write_binary io files out (case res_binary (assemble_source can_alloc (Some source) object) of
        None \<Rightarrow> [] | Some bytes \<Rightarrow> bytes) = (0, files')"
    by blast
  moreover obtain bytes where "res_binary (assemble_source can_alloc (Some source) object) = Some bytes"
    using s(2) diagnostic_exact [of can_alloc "Some source" object] by auto
  ultimately show ?thesis using that by (simp add: write_binary_success)
qed

text \<open>What the assembler leaves after \<^verbatim>\<open>zlasm -c\<close> ends with status zero is an object the linker
  accepts, whatever the source file holds.\<close>

theorem zlasm_writes_object:
  assumes "zlasm_main can_alloc io files [p, ''-c'', src, ''-o'', out] = (0, files')" "\<And>n. can_alloc' n"
  shows "\<exists>bytes img. files' = files(out \<mapsto> bytes) \<and> link_decode can_alloc' (Some bytes, length bytes) = Inr img \<and>
    img_kind img = ZL_IMAGE_OBJECT"
proof -
  obtain source bytes where s: "read_text can_alloc io files src = Some source"
    "res_binary (assemble_source can_alloc (Some source) True) = Some bytes" "files' = files(out \<mapsto> bytes)"
    by (rule zlasm_success [OF assms(1), where object = True and p = p and src = src and out = out]) simp_all
  have "\<exists>img. link_decode can_alloc' (Some bytes, length bytes) = Inr img \<and> img_kind img = ZL_IMAGE_OBJECT"
    by (rule object_accepted [OF read_text_nul_free [OF s(1)] s(2) assms(2)])
  then show ?thesis using s(3) by blast
qed

text \<open>C5: The emulator runs the output file of the assembler exactly as it runs the source: same exit
  status, same output, and both run forever together, when the code is neither empty nor larger than
  the ROM, which only the binary mode refuses.\<close>

theorem emulator_source_is_binary:
  assumes "zlasm_main can_alloc io files [p, src, ''-o'', out] = (0, files')"
    and "src \<notin> {''-c'', ''--binary''}" "files' out = Some code" "code \<noteq> []" "length code \<le> ZLVM_ROM_SIZE"
    and "io_can_open io out" "\<not> io_read_error io out" "can_alloc (ZLVM_ROM_SIZE + 1)"
  shows "emulator_main can_alloc io files' inp [q, ''--binary'', out] = emulator_main can_alloc io files inp [q, src]"
proof -
  obtain source where s: "read_text can_alloc io files src = Some source"
    "res_binary (assemble_source can_alloc (Some source) False) = Some code"
    "fst (res_diagnostic (assemble_source can_alloc (Some source) False)) = ZLASM_DIAGNOSTIC_NONE"
    by (rule zlasm_success [OF assms(1), where object = False and p = p and src = src and out = out])
      (use assms(2,3) in simp_all)
  have "\<not> io_close_error io out" using assms(1,2)
    by (auto simp: zlasm_main_def Let_def write_binary_success split: if_splits option.splits)
  then have "read_binary can_alloc io files' out = Some code"
    using assms(3-8) by (simp add: read_binary_def fopen_rb_def)
  moreover have "read_program can_alloc io files src = Some code"
    using s by (simp add: read_program_def zlasm_assemble_def)
  ultimately show ?thesis using assms(2) by (simp add: emulator_main_def)
qed

text \<open>C6: What the linker leaves after it ends with status zero is an executable every machine loads,
  with an entry point other than zero; after any other status no file but the output has changed.\<close>

theorem zllink_writes_executable:
  assumes "zllink_main can_alloc io files argv = (status, files')" "wf_vm vm" "\<And>n. can_alloc' n"
  shows "(status = 0 \<longrightarrow> (\<exists>bytes vm'. files' = files(argv ! 2 \<mapsto> bytes) \<and>
      vm_loadImage can_alloc' (Some vm) (Some bytes) (length bytes) = (Some vm', ZL_IMAGE_ERROR_NONE) \<and>
      vm_entryPoint vm' \<noteq> 0)) \<and>
    (\<forall>path. path \<noteq> argv ! 2 \<longrightarrow> files' path = files path)"
proof -
  have "files' = files \<and> status = 1 \<or> (\<exists>objects entry bytes.
      zl_link_objects can_alloc (Some (map (\<lambda>c. (Some c, length c)) objects)) entry = Inr bytes \<and>
      write_binary io files (argv ! 2) bytes = (status, files'))"
    using assms(1)
    by (simp add: zllink_main_def Let_def case_prod_beta split: if_splits option.splits sum.splits) blast+
  moreover have "files' path = files path" if "write_binary io files (argv ! 2) bytes = (status, files')"
    "path \<noteq> argv ! 2" for bytes path
    using that by (auto simp: write_binary_def Let_def split: if_splits)
  moreover have "\<exists>vm'. vm_loadImage can_alloc' (Some vm) (Some bytes) (length bytes) = (Some vm', ZL_IMAGE_ERROR_NONE) \<and>
      vm_entryPoint vm' \<noteq> 0"
    if "zl_link_objects can_alloc (Some (map (\<lambda>c. (Some c, length c)) objects)) entry = Inr bytes"
    for objects entry bytes
    using linked_image_loads [OF that _ assms(2), of can_alloc'] assms(3) by fastforce
  ultimately show ?thesis by (auto simp: write_binary_success)
qed

end
