(* ===== verification/Command_Samples.thy ===== *)
theory Command_Samples
  imports Command_Facts
begin

text \<open>
  The example of the README from its file to the output of the emulator, and the application of the
  properties of the programs to concrete command lines.
\<close>

section \<open>The example of the README\<close>

definition readme_source :: string where
  "readme_source = ''start:'' @ nl @ ''    movi $a0, '' @ [CHR 0x27, CHR ''A'', CHR 0x27] @ nl @
     ''    int  0x02'' @ nl @ ''    int  0xFF'' @ nl"

abbreviation movi_statement :: statement where
  "movi_statement \<equiv> (plain_statement (tk TOK_ID ''movi'' 11 2 5 4) (tk TOK_CHAR_LITERAL ''A'' 21 2 15 3))
     \<lparr>st_reg1 := Some (tk TOK_REGISTER ''a0'' 16 2 10 3)\<rparr>"

abbreviation int_statement :: "string \<Rightarrow> nat \<Rightarrow> nat \<Rightarrow> statement" where
  "int_statement ds p l \<equiv> plain_statement (tk TOK_ID ''int'' p l 5 3) (tk TOK_INT_HEX ds (p + 5) l 10 4)"

definition readme_lines :: "line list" where
  "readme_lines = [make_line (Some ''start'') (L_STMT movi_statement),
     make_line None (L_STMT (int_statement ''02'' 29 3)), make_line None (L_STMT (int_statement ''FF'' 43 4))]"

lemma readme_parsed:
  "sbind (lexer_readAll (lexer_init readme_source)) (\<lambda>st. sbind (macros_expand (lx_tokens st)) parser_parse) =
     Inr readme_lines"
  by code_simp

definition readme_context :: assembler where
  "readme_context = asm_init
     \<lparr>ac_labels := [(''start'', 0)],
      ac_lines := [text_line (Some ''start'') movi_statement 0, text_line None (int_statement ''02'' 29 3) 8,
        text_line None (int_statement ''FF'' 43 4) 16],
      ac_sections := [\<lparr>as_name = ''text'', as_type = ZL_IMAGE_SECTION_TEXT, as_flags = 0,
        as_address = 0, as_alignment = 1, as_size = 24\<rparr>]\<rparr>"

lemma readme_assembled: "assembled (\<lambda>n. True) readme_source readme_context"
proof -
  let ?c = "readme_context\<lparr>ac_labels := []\<rparr>"
  have "asm_processDirectives (\<lambda>n. True) readme_lines = Inr ?c"
    by (simp add: asm_processDirectives_def readme_lines_def process_lines.simps(2) make_line_def asm_init_def
        relabel_def select_section_def section_type_of_def record_line_def content_size_def
        set_current_section_def validate_section_range_def limits vm_sizes ZLVM_INSTRUCTION_SIZE_def
        readme_context_def text_line_def)
  moreover have "asm_processLabels ?c = Inr readme_context"
    by (simp add: asm_processLabels_def readme_context_def process_label_def text_line_def content_size_def
        labelInfo_getIfExist_def ZLVM_INSTRUCTION_SIZE_def)
  ultimately show ?thesis
    using readme_parsed by (auto simp: assembled_def sbind_Inr)
qed

lemma readme_translated: "asm_translate readme_context = Inr (program_code (print_program [65]))"
proof -
  have "opcode_of (string_to_opcode (line_to_upper ''movi'')) = Some MOVI" by code_simp
  moreover have "parse_register (tk TOK_REGISTER ''a0'' 16 2 10 3) = Inr R_A0" by code_simp
  moreover have "literal_immediate (tk TOK_CHAR_LITERAL ''A'' 21 2 15 3) = Inr 65" by code_simp
  moreover have "validate_operands MOVI movi_statement = Inr ()"
    by (simp add: validate_operands_def operand_counts_def)
  ultimately show ?thesis
    by (simp add: asm_translate_def readme_context_def text_line_def translate_line_def translate_content_def
        translate_statement_def sample_mnemonics sample_operands parse_optional_def raw_immediate_def
        literal_immediate_def sample_literals make_instruction_plain limits print_program_def
        program_code_def encoded_plain)
qed

lemma source_text_bytes: "nul_free s \<Longrightarrow> source_text (map char_byte s) = s"
proof (induction s)
  case (Cons c s)
  have "char_of (unat (char_byte c)) = c" by (simp add: char_byte_def unat_of_char)
  moreover have "char_byte c \<noteq> 0"
  proof
    assume "char_byte c = 0"
    then have "of_char c = (of_char CHR 0x00 :: u8)" by (simp add: char_byte_def of_char_def)
    then have "c = CHR 0x00" by (simp only: of_char_u8_inject)
    then show False using Cons.prems by (simp add: nul_free_def)
  qed
  moreover have "nul_free s" using Cons.prems by (simp add: nul_free_def)
  ultimately show ?case using Cons.IH by (simp add: source_text_def)
qed (simp add: source_text_def)

lemma read_text_bytes:
  assumes "files path = Some (map char_byte s)" "nul_free s" "io_can_open io path" "\<not> io_read_error io path"
    and "\<not> io_close_error io path"
  shows "read_text (\<lambda>n. True) io files path = Some s"
  using assms by (simp add: read_text_def fopen_rb_def read_chunks_total source_text_bytes)

lemma readme_program:
  assumes "read_text (\<lambda>n. True) io files path = Some readme_source"
  shows "read_program (\<lambda>n. True) io files path = Some (program_code (print_program [65]))"
proof -
  have "assemble_phases (\<lambda>n. True) False readme_source = Inr (program_code (print_program [65]))"
    using readme_assembled readme_translated by (auto simp: assemble_phases_Inr)
  then show ?thesis
    using assms by (simp add: read_program_def zlasm_assemble_def assemble_source_def)
qed

text \<open>C4: The example of the README, stored in a readable file and given to the emulator, is assembled,
  loaded and run: the emulator prints its banner, the letter \<open>A\<close> and the line of the halted machine,
  and ends with status zero, whatever stands on the standard input.\<close>

theorem readme_example_prints_A:
  assumes "files path = Some (map char_byte readme_source)" "path \<noteq> ''--binary''" "io_can_open io path"
    and "\<not> io_read_error io path" "\<not> io_close_error io path"
  shows "emulator_main (\<lambda>n. True) io files inp [p, path] = Some (0, banner @ [65] @ result_text S_HALTED)"
proof -
  have "nul_free readme_source" by (simp add: nul_free_def readme_source_def nl_def)
  then have program: "read_program (\<lambda>n. True) io files path = Some (program_code (print_program [65]))"
    using assms by (intro readme_program read_text_bytes)
  obtain vm where vm: "vm_initialize (\<lambda>n. True) (zero_vm inp banner) 4096 = Some vm"
    "vm = fresh_vm inp banner 4096"
    using vm_initialize_fresh [of "\<lambda>n. True" "zero_vm inp banner" 4096] by (simp add: zero_vm_def)
  moreover have "wf_vm vm" unfolding vm(2) by (rule wf_fresh_vm)
  moreover have "memory_end vm \<le> WORD_MAX" "vm_stdout vm = banner" "vm_continues vm"
    unfolding vm(2)
    by (simp_all add: fresh_vm_def memory_end_def vm_sizes limits vm_continues_def vm_has_state_def
        vm_has_no_error_def vm_get_state_def is_error_iff)
  ultimately obtain vm' where "vm_run (vm_loadDump vm (program_code (print_program [65]))
      (length (program_code (print_program [65])))) = Some (S_HALTED, vm')" "vm_stdout vm' = banner @ [65]"
    using run_prints_bytes [of vm "[65]" "program_code (print_program [65])"] by auto
  then show ?thesis using assms(2) program vm(1) by (simp add: emulator_main_def)
qed

section \<open>Witnesses\<close>

definition sample_io :: io where
  "sample_io = \<lparr>io_can_open = (\<lambda>p. True), io_read_error = (\<lambda>p. False), io_close_error = (\<lambda>p. False),
     io_can_create = (\<lambda>p. True), io_takes = (\<lambda>p. 1000000)\<rparr>"

lemma sample_io_fields [simp]:
  "io_can_open sample_io p" "\<not> io_read_error sample_io p" "\<not> io_close_error sample_io p"
  "io_can_create sample_io p" "io_takes sample_io p = 1000000"
  by (simp_all add: sample_io_def)

theorem readme_example_prints_A_witness:
  "emulator_main (\<lambda>n. True) sample_io [''a.asm'' \<mapsto> map char_byte readme_source] [] [''zlvm'', ''a.asm''] =
     Some (0, banner @ [65] @ result_text S_HALTED)"
  by (rule readme_example_prints_A) simp_all

abbreviation jump_files :: files where
  "jump_files \<equiv> [''j.asm'' \<mapsto> map char_byte jump_source]"

lemma jump_text: "read_text (\<lambda>n. True) sample_io jump_files ''j.asm'' = Some jump_source"
  by (rule read_text_bytes) (simp_all add: jump_nul_free)

lemma jump_phase_results:
  "assemble_phases (\<lambda>n. True) True jump_source = Inr (image_layout jump_object)"
  "assemble_phases (\<lambda>n. True) False jump_source = Inr (program_code jump_program)"
  using jump_assembled jump_object_bytes [of "\<lambda>n. True"] jump_translated by (auto simp: assemble_phases_Inr)

lemma jump_object_run:
  "zlasm_main (\<lambda>n. True) sample_io jump_files [''zlasm'', ''-c'', ''j.asm'', ''-o'', ''j.zlo''] =
     (0, jump_files(''j.zlo'' \<mapsto> image_layout jump_object))"
  using jump_phase_results(1) length_jump_object
  by (simp add: zlasm_main_def Let_def jump_text zlasm_assemble_object_def assemble_source_def write_binary_success)

lemma jump_raw_files:
  "zlasm_main (\<lambda>n. True) sample_io jump_files [''zlasm'', ''j.asm'', ''-o'', ''j.bin''] =
     (0, jump_files(''j.bin'' \<mapsto> program_code jump_program))"
  using jump_phase_results(2)
  by (simp add: zlasm_main_def Let_def jump_text zlasm_assemble_def assemble_source_def write_binary_success)

theorem zlasm_writes_object_witness:
  "\<exists>img. link_decode (\<lambda>n. True) (Some (image_layout jump_object), 161) = Inr img \<and> img_kind img = ZL_IMAGE_OBJECT"
  using zlasm_writes_object [OF jump_object_run, of "\<lambda>n. True"] length_jump_object
  by (auto dest!: fun_cong [where x = "''j.zlo''"])

theorem emulator_source_is_binary_witness:
  "emulator_main (\<lambda>n. True) sample_io (jump_files(''j.bin'' \<mapsto> program_code jump_program)) []
     [''zlvm'', ''--binary'', ''j.bin''] =
   emulator_main (\<lambda>n. True) sample_io jump_files [] [''zlvm'', ''j.asm'']"
proof -
  have "program_code jump_program \<noteq> []" using jump_code_length by (metis list.size(3) zero_neq_numeral)
  moreover have "length (program_code jump_program) \<le> ZLVM_ROM_SIZE" by (simp add: vm_sizes)
  ultimately show ?thesis
    using emulator_source_is_binary [OF jump_raw_files, of "program_code jump_program"] by simp
qed

theorem zllink_writes_executable_witness:
  "\<exists>bytes vm'. snd (zllink_main (\<lambda>n. True) sample_io (jump_files(''j.zlo'' \<mapsto> image_layout jump_object))
      [''zllink'', ''-o'', ''j.zlx'', ''j.zlo'']) ''j.zlx'' = Some bytes \<and>
    vm_loadImage (\<lambda>n. True) (Some sample_vm) (Some bytes) (length bytes) = (Some vm', ZL_IMAGE_ERROR_NONE)"
proof -
  let ?files = "jump_files(''j.zlo'' \<mapsto> image_layout jump_object)"
  have "zllink_main (\<lambda>n. True) sample_io ?files [''zllink'', ''-o'', ''j.zlx'', ''j.zlo''] =
      (0, ?files(''j.zlx'' \<mapsto> image_layout jump_executable))"
    using jump_link
    by (simp add: zllink_main_def Let_def read_file_def fopen_rb_def length_jump_object write_binary_success
        length_jump_executable)
  from zllink_writes_executable [OF this wf_sample_vm, of "\<lambda>n. True"] show ?thesis
    using \<open>zllink_main _ _ _ _ = _\<close> by (auto dest!: fun_cong [where x = "''j.zlx''"])
qed

end
