(* ===== verification/Linked_List.thy ===== *)
theory Linked_List
  imports Prelude
begin

text \<open>
  Lists of linked items in an explicit store: \<^verbatim>\<open>include/asm/LinkedList.h\<close>. Following a pointer to no
  item and a loop that does not end both give \<^term>\<open>None\<close>; a null pointer is \<^term>\<open>None\<close> of the pointer's type. The address an allocation yields is an
  argument, null when it fails.
\<close>

section \<open>The store\<close>

record 'a item =
  item_value :: 'a
  item_next :: "nat option"

type_synonym 'a store = "nat \<rightharpoonup> 'a item"

text \<open>The items from \<open>p\<close> until \<open>q\<close>, which is null at the end of a list.\<close>

fun segment :: "'a store \<Rightarrow> nat option \<Rightarrow> nat list \<Rightarrow> nat option \<Rightarrow> bool" where
  "segment s p [] q \<longleftrightarrow> p = q"
| "segment s p (a # as) q \<longleftrightarrow> p = Some a \<and> (\<exists>i. s a = Some i \<and> segment s (item_next i) as q)"

abbreviation chain :: "'a store \<Rightarrow> nat option \<Rightarrow> nat list \<Rightarrow> bool" where
  "chain s p as \<equiv> segment s p as None"

definition contents :: "'a store \<Rightarrow> nat list \<Rightarrow> 'a list" where
  "contents s as = map (\<lambda>a. item_value (the (s a))) as"

lemma contents_simps [simp]:
  "contents s [] = []" "contents s (a # as) = item_value (the (s a)) # contents s as"
  "contents s (as @ bs) = contents s as @ contents s bs"
  "contents s as = [] \<longleftrightarrow> as = []"
  by (simp_all add: contents_def)

lemma segment_append [simp]:
  "segment s p (as @ bs) q \<longleftrightarrow> (\<exists>r. segment s p as r \<and> segment s r bs q)"
  by (induction as arbitrary: p) auto

lemma segment_cong: "(\<And>a. a \<in> set as \<Longrightarrow> s a = s' a) \<Longrightarrow> segment s p as q = segment s' p as q"
  by (induction as arbitrary: p) auto

lemma contents_cong: "(\<And>a. a \<in> set as \<Longrightarrow> s a = s' a) \<Longrightarrow> contents s as = contents s' as"
  by (simp add: contents_def)

lemma segment_update [simp]:
  "a \<notin> set as \<Longrightarrow> segment (s(a := x)) p as q = segment s p as q"
  "a \<notin> set as \<Longrightarrow> contents (s(a := x)) as = contents s as"
  using segment_cong [of as "s(a := x)" s p q] contents_cong [of as "s(a := x)" s] by (metis fun_upd_apply)+

lemma segment_dom: "segment s p as q \<Longrightarrow> a \<in> set as \<Longrightarrow> s a \<noteq> None"
  by (induction as arbitrary: p) auto

lemma segment_first: "segment s p (a # as) q \<Longrightarrow> p = Some a"
  by simp

lemma chain_unique: "chain s p as \<Longrightarrow> chain s p bs \<Longrightarrow> as = bs"
proof (induction as arbitrary: p bs)
  case Nil
  then show ?case by (cases bs) auto
next
  case (Cons a as)
  then show ?case by (cases bs) auto
qed

lemma chain_distinct: "chain s p as \<Longrightarrow> distinct as"
proof (induction as arbitrary: p)
  case (Cons a as)
  have "a \<notin> set as"
  proof
    assume "a \<in> set as"
    then obtain bs cs where "as = bs @ a # cs" by (auto simp: in_set_conv_decomp)
    then have "chain s (Some a) (a # as)" "chain s (Some a) (a # cs)" using Cons.prems by auto
    then have "a # as = a # cs" by (rule chain_unique)
    with \<open>as = bs @ a # cs\<close> show False by simp
  qed
  with Cons show ?case by auto
qed simp

text \<open>A list ends in its last item.\<close>

lemma chain_last:
  assumes "chain s p as" "as \<noteq> []"
  shows "\<exists>i. s (last as) = Some i \<and> item_next i = None"
  using assms by (cases as rule: rev_cases) auto

section \<open>Walking\<close>

partial_function (option) last_item :: "'a store \<Rightarrow> nat \<Rightarrow> nat option" where
  "last_item s a =
     (case s a of None \<Rightarrow> None
      | Some i \<Rightarrow> (case item_next i of None \<Rightarrow> Some a | Some b \<Rightarrow> last_item s b))"

partial_function (option) count_items :: "'a store \<Rightarrow> nat option \<Rightarrow> nat \<Rightarrow> nat option" where
  "count_items s p n =
     (case p of None \<Rightarrow> Some n
      | Some a \<Rightarrow> (case s a of None \<Rightarrow> None | Some i \<Rightarrow> count_items s (item_next i) (n + 1)))"

text \<open>The last item and the one before it.\<close>

partial_function (option) last_two :: "'a store \<Rightarrow> nat option \<Rightarrow> nat \<Rightarrow> (nat option \<times> nat) option" where
  "last_two s previous a =
     (case s a of None \<Rightarrow> None
      | Some i \<Rightarrow> (case item_next i of None \<Rightarrow> Some (previous, a) | Some b \<Rightarrow> last_two s (Some a) b))"

lemma last_item_chain: "chain s (Some a) as \<Longrightarrow> last_item s a = Some (last as)"
proof (induction as arbitrary: a)
  case (Cons b as)
  then obtain i where i: "b = a" "s a = Some i" "chain s (item_next i) as" by auto
  show ?case
  proof (cases as)
    case Nil
    then show ?thesis using i by (simp add: last_item.simps)
  next
    case (Cons c cs)
    then show ?thesis using i Cons.IH [of c] by (simp add: last_item.simps [of s a])
  qed
qed simp

lemma count_items_chain: "chain s p as \<Longrightarrow> count_items s p n = Some (n + length as)"
proof (induction as arbitrary: p n)
  case (Cons a as)
  then show ?case by (auto simp: count_items.simps [of s "Some a"])
qed (simp add: count_items.simps)

lemma last_two_chain:
  "chain s (Some a) as \<Longrightarrow>
     last_two s previous a = Some (if length as = 1 then previous else Some (as ! (length as - 2)), last as)"
proof (induction as arbitrary: a previous)
  case (Cons b as)
  then obtain i where i: "b = a" "s a = Some i" "chain s (item_next i) as" by auto
  show ?case
  proof (cases as)
    case Nil
    then show ?thesis using i by (simp add: last_two.simps)
  next
    case (Cons c cs)
    then show ?thesis
      using i Cons.IH [of c "Some a"] by (cases cs) (simp_all add: last_two.simps [of s _ a])
  qed
qed simp

section \<open>Linked lists\<close>

text \<open>A list is its first item; \<^term>\<open>None\<close> is a null list.\<close>

type_synonym linked_list = "nat option"

definition linked_list_get_last :: "'a store \<Rightarrow> linked_list option \<Rightarrow> nat option option" where
  "linked_list_get_last s list =
     (case list of None \<Rightarrow> Some None
      | Some None \<Rightarrow> Some None
      | Some (Some a) \<Rightarrow> map_option Some (last_item s a))"

text \<open>\<open>item\<close> is what \<^verbatim>\<open>calloc\<close> returns.\<close>

definition linked_list_append ::
  "nat option \<Rightarrow> 'a store \<Rightarrow> linked_list option \<Rightarrow> 'a \<Rightarrow> (bool \<times> 'a store \<times> linked_list option) option" where
  "linked_list_append item s list v =
     (case list of None \<Rightarrow> Some (False, s, None)
      | Some first \<Rightarrow>
     (case item of None \<Rightarrow> Some (False, s, list)
      | Some n \<Rightarrow>
          let s = s(n \<mapsto> \<lparr>item_value = v, item_next = None\<rparr>)
          in case linked_list_get_last s list of
               None \<Rightarrow> None
             | Some None \<Rightarrow> Some (True, s, Some (Some n))
             | Some (Some l) \<Rightarrow> Some (True, s(l := map_option (\<lambda>i. i\<lparr>item_next := Some n\<rparr>) (s l)), list)))"

definition linked_list_remove_first ::
  "'a store \<Rightarrow> linked_list option \<Rightarrow> ('a option \<times> 'a store \<times> linked_list option) option" where
  "linked_list_remove_first s list =
     (case list of None \<Rightarrow> Some (None, s, list)
      | Some None \<Rightarrow> Some (None, s, list)
      | Some (Some a) \<Rightarrow>
          (case s a of None \<Rightarrow> None
           | Some i \<Rightarrow> Some (Some (item_value i), s(a := None), Some (item_next i))))"

definition linked_list_remove_last ::
  "'a store \<Rightarrow> linked_list option \<Rightarrow> ('a option \<times> 'a store \<times> linked_list option) option" where
  "linked_list_remove_last s list =
     (case list of None \<Rightarrow> Some (None, s, list)
      | Some None \<Rightarrow> Some (None, s, list)
      | Some (Some a) \<Rightarrow>
          (case last_two s None a of None \<Rightarrow> None
           | Some (previous, l) \<Rightarrow>
               let (s, list) = (case previous of
                     None \<Rightarrow> (s, Some None)
                   | Some p \<Rightarrow> (s(p := map_option (\<lambda>i. i\<lparr>item_next := None\<rparr>) (s p)), list))
               in map_option (\<lambda>i. (Some (item_value i), s(l := None), list)) (s l)))"

definition linked_list_count :: "'a store \<Rightarrow> linked_list option \<Rightarrow> nat option" where
  "linked_list_count s list = (case list of None \<Rightarrow> Some 0 | Some first \<Rightarrow> count_items s first 0)"

section \<open>What the operations do to the contents\<close>

lemma append_chain:
  assumes "chain s first as" "s n = None"
  shows "\<exists>s' first'. linked_list_append (Some n) s (Some first) v = Some (True, s', Some first') \<and>
    chain s' first' (as @ [n]) \<and> contents s' (as @ [n]) = contents s as @ [v] \<and> dom s' = insert n (dom s) \<and>
    (\<forall>b. b \<notin> set as \<union> {n} \<longrightarrow> s' b = s b)"
proof (cases as rule: rev_cases)
  case Nil
  then show ?thesis
    using assms(1) by (simp add: linked_list_append_def linked_list_get_last_def)
next
  case (snoc bs l)
  define t where "t = s(n \<mapsto> \<lparr>item_value = v, item_next = None\<rparr>)"
  have n: "n \<notin> set as" using segment_dom [OF assms(1)] assms(2) by blast
  then have t: "chain t first as" "contents t as = contents s as"
    using assms(1) by (simp_all add: t_def)
  obtain a where a: "first = Some a" using assms(1) snoc by (cases bs) auto
  then have "last_item t a = Some l" using last_item_chain [of t a as] t(1) snoc by simp
  moreover obtain i where i: "s l = Some i" "item_next i = None" using chain_last [OF assms(1)] snoc by auto
  moreover have "l \<noteq> n" using n snoc by auto
  ultimately have r: "linked_list_append (Some n) s (Some first) v =
      Some (True, t(l \<mapsto> i\<lparr>item_next := Some n\<rparr>), Some first)"
    by (simp add: linked_list_append_def linked_list_get_last_def a flip: t_def) (simp add: t_def)
  let ?s' = "t(l \<mapsto> i\<lparr>item_next := Some n\<rparr>)"
  have "l \<notin> set bs" using chain_distinct [OF assms(1)] snoc by simp
  then have "segment ?s' first bs (Some l)" "contents ?s' bs = contents s bs"
    using t snoc by auto
  then have "chain ?s' first (as @ [n]) \<and> contents ?s' (as @ [n]) = contents s as @ [v]"
    using i \<open>l \<noteq> n\<close> by (simp add: snoc) (simp add: t_def)
  moreover have "\<forall>b. b \<notin> set as \<union> {n} \<longrightarrow> ?s' b = s b" "dom ?s' = insert n (dom s)"
    using i(1) by (auto simp: t_def snoc)
  ultimately show ?thesis using r by blast
qed

lemma remove_first_chain:
  assumes "chain s first (a # as)"
  shows "\<exists>first'. linked_list_remove_first s (Some first) =
      Some (Some (hd (contents s (a # as))), s(a := None), Some first') \<and>
    chain (s(a := None)) first' as \<and> contents (s(a := None)) as = contents s as"
proof -
  obtain i where i: "first = Some a" "s a = Some i" "chain s (item_next i) as" using assms by auto
  moreover have "a \<notin> set as" using chain_distinct [OF assms] by simp
  then have "chain (s(a := None)) (item_next i) as" "contents (s(a := None)) as = contents s as"
    using i(3) by simp_all
  ultimately show ?thesis by (simp add: linked_list_remove_first_def)
qed

lemma remove_last_chain:
  assumes "chain s first (as @ [l])"
  shows "\<exists>s' first'. linked_list_remove_last s (Some first) = Some (Some (last (contents s (as @ [l]))), s', Some first') \<and>
    chain s' first' as \<and> contents s' as = contents s as \<and> dom s' = dom s - {l} \<and>
    (\<forall>b. b \<notin> set (as @ [l]) \<longrightarrow> s' b = s b)"
proof -
  obtain a where a: "first = Some a" using assms by (cases as) auto
  obtain i where i: "s l = Some i" "item_next i = None" using chain_last [OF assms] by auto
  note two = last_two_chain [of s a "as @ [l]" None] 
  have dist: "distinct (as @ [l])" by (rule chain_distinct [OF assms])
  show ?thesis
  proof (cases as rule: rev_cases)
    case Nil
    then show ?thesis using two assms a i by (simp add: linked_list_remove_last_def)
  next
    case (snoc bs p)
    then have "last_two s None a = Some (Some p, l)" using two assms a by (simp add: nth_append)
    moreover obtain j where j: "s p = Some j" using assms snoc by auto
    moreover have "p \<noteq> l" using dist snoc by auto
    ultimately have r: "linked_list_remove_last s (Some first) =
        Some (Some (item_value i), s(p \<mapsto> j\<lparr>item_next := None\<rparr>, l := None), Some first)"
      using i a by (simp add: linked_list_remove_last_def)
    let ?s' = "s(p \<mapsto> j\<lparr>item_next := None\<rparr>, l := None)"
    have "p \<notin> set bs" "l \<notin> set bs" using dist snoc by auto
    then have "segment ?s' first bs (Some p)" "contents ?s' bs = contents s bs"
      using assms snoc by auto
    moreover have "dom ?s' = dom s - {l}" using j by auto
    ultimately show ?thesis using r i j \<open>p \<noteq> l\<close> by (simp add: snoc)
  qed
qed

text \<open>C8: On a well-formed list every operation ends and does what it says to the contents: appending
  adds the value at the end, in a new item, or fails and changes nothing when there is no memory; the
  first or the last value is removed and exactly its item is released, nothing from an empty list; the
  count is the length. Items of other lists keep their contents under every operation.\<close>

theorem linked_list_refines:
  assumes "chain s first as"
  shows "linked_list_append None s (Some first) v = Some (False, s, Some first) \<and>
    (\<forall>n. s n = None \<longrightarrow> (\<exists>s' first'. linked_list_append (Some n) s (Some first) v = Some (True, s', Some first') \<and>
       chain s' first' (as @ [n]) \<and> contents s' (as @ [n]) = contents s as @ [v] \<and> dom s' = insert n (dom s) \<and>
       (\<forall>b. b \<notin> set as \<union> {n} \<longrightarrow> s' b = s b))) \<and>
    (\<exists>s' first'. linked_list_remove_first s (Some first) =
       Some (if as = [] then None else Some (hd (contents s as)), s', Some first') \<and>
       chain s' first' (tl as) \<and> contents s' (tl as) = tl (contents s as) \<and> dom s' = dom s - set (take 1 as) \<and>
       (\<forall>b. b \<notin> set as \<longrightarrow> s' b = s b)) \<and>
    (\<exists>s' first'. linked_list_remove_last s (Some first) =
       Some (if as = [] then None else Some (last (contents s as)), s', Some first') \<and>
       chain s' first' (butlast as) \<and> contents s' (butlast as) = butlast (contents s as) \<and>
       dom s' = dom s - set (drop (length as - 1) as) \<and> (\<forall>b. b \<notin> set as \<longrightarrow> s' b = s b)) \<and>
    linked_list_count s (Some first) = Some (length (contents s as))"
proof (intro conjI allI impI)
  show "linked_list_append None s (Some first) v = Some (False, s, Some first)"
    by (simp add: linked_list_append_def)
  show "linked_list_count s (Some first) = Some (length (contents s as))"
    by (simp add: linked_list_count_def count_items_chain [OF assms] contents_def)
  show "\<exists>s' first'. linked_list_remove_first s (Some first) =
       Some (if as = [] then None else Some (hd (contents s as)), s', Some first') \<and>
       chain s' first' (tl as) \<and> contents s' (tl as) = tl (contents s as) \<and> dom s' = dom s - set (take 1 as) \<and>
       (\<forall>b. b \<notin> set as \<longrightarrow> s' b = s b)"
    using assms remove_first_chain [of s first "hd as" "tl as"]
    by (cases as) (auto simp: linked_list_remove_first_def)
  show "\<exists>s' first'. linked_list_remove_last s (Some first) =
       Some (if as = [] then None else Some (last (contents s as)), s', Some first') \<and>
       chain s' first' (butlast as) \<and> contents s' (butlast as) = butlast (contents s as) \<and>
       dom s' = dom s - set (drop (length as - 1) as) \<and> (\<forall>b. b \<notin> set as \<longrightarrow> s' b = s b)"
  proof (cases as rule: rev_cases)
    case Nil
    then show ?thesis using assms by (simp add: linked_list_remove_last_def)
  next
    case (snoc bs l)
    then show ?thesis using remove_last_chain [of s first bs l] assms by auto
  qed
qed (rule append_chain [OF assms])

text \<open>A list of two items: its last value is removed, its item released and the item of another list
  is still there.\<close>

theorem linked_list_refines_witness:
  "\<exists>s' first'. linked_list_remove_last
     [3 \<mapsto> \<lparr>item_value = True, item_next = Some 5\<rparr>, 5 \<mapsto> \<lparr>item_value = False, item_next = None\<rparr>,
      7 \<mapsto> \<lparr>item_value = True, item_next = None\<rparr>] (Some (Some 3)) = Some (Some False, s', Some first') \<and>
     chain s' first' [3] \<and> dom s' = {3, 7} \<and> s' 7 = Some \<lparr>item_value = True, item_next = None\<rparr>"
proof -
  let ?s = "[3 \<mapsto> \<lparr>item_value = True, item_next = Some 5\<rparr>, 5 \<mapsto> \<lparr>item_value = False, item_next = None\<rparr>,
      7 \<mapsto> \<lparr>item_value = True, item_next = None\<rparr>]"
  have c: "chain ?s (Some 3) [3, 5]" by simp
  obtain s' first' where "linked_list_remove_last ?s (Some (Some 3)) = Some (Some (last (contents ?s [3, 5])), s', Some first')"
    "chain s' first' (butlast [3, 5])" "dom s' = dom ?s - set (drop (length [3, 5 :: nat] - 1) [3, 5])"
    "\<forall>b. b \<notin> set [3, 5] \<longrightarrow> s' b = ?s b"
    using linked_list_refines [OF c, of True] by auto
  then show ?thesis by (intro exI [of _ s'] exI [of _ first']) auto
qed

end
