(* ===== verification/Asm_Memory.thy ===== *)
theory Asm_Memory
  imports Linked_List Token
begin

text \<open>
  The allocations of the assembler, \<^verbatim>\<open>asm/src/Memory.c\<close> with the context of \<^verbatim>\<open>asm/src/Error.c\<close>: every
  block is tracked by an item of a list in the context until it is freed or detached, so that a
  failure, which jumps out of the assembly, can release them all. Only which blocks are allocated is
  modelled here; what they hold belongs to the models of the code that uses them.
\<close>

section \<open>The heap\<close>

text \<open>The blocks and the tracking items that are allocated. \<open>hp_context\<close> is null when no assembly runs;
  otherwise it is the list of the tracking items, whose values are the blocks.\<close>

record asm_heap =
  hp_live :: "nat set"
  hp_items :: "nat store"
  hp_context :: "linked_list option"

text \<open>The addresses in use, which an allocation must avoid. \<open>malloc size used\<close> is the address the host
  gives, null when it refuses.\<close>

definition used :: "asm_heap \<Rightarrow> nat set" where
  "used h = hp_live h \<union> dom (hp_items h)"

type_synonym allocator = "nat \<Rightarrow> nat set \<Rightarrow> nat option"

definition ITEM_SIZE :: nat where
  "ITEM_SIZE = 16"

text \<open>A failure leaves the heap for the handler. Freeing what is not allocated has no result.\<close>

type_synonym 'a alloc_result = "((asm_heap \<times> diagnostic_code) + (asm_heap \<times> 'a)) option"

definition out_of_memory :: "asm_heap \<Rightarrow> 'a alloc_result" where
  "out_of_memory h = Some (Inl (h, ZLASM_DIAGNOSTIC_OUT_OF_MEMORY))"

definition free_block :: "nat \<Rightarrow> asm_heap \<Rightarrow> asm_heap option" where
  "free_block p h = (if p \<in> hp_live h then Some (h\<lparr>hp_live := hp_live h - {p}\<rparr>) else None)"

section \<open>Operations\<close>

definition track :: "allocator \<Rightarrow> nat \<Rightarrow> asm_heap \<Rightarrow> unit alloc_result" where
  "track malloc p h =
     (case hp_context h of None \<Rightarrow> Some (Inr (h, ()))
      | Some first \<Rightarrow>
          (case malloc ITEM_SIZE (used h) of
             None \<Rightarrow> Option.bind (free_block p h) out_of_memory
           | Some a \<Rightarrow> Some (Inr (h\<lparr>hp_items := (hp_items h)(a \<mapsto> \<lparr>item_value = p, item_next = first\<rparr>),
                                   hp_context := Some (Some a)\<rparr>, ()))))"

text \<open>\<^verbatim>\<open>asm_malloc\<close>; \<^verbatim>\<open>asm_calloc\<close> differs in how the size is given.\<close>

definition asm_malloc :: "allocator \<Rightarrow> nat \<Rightarrow> asm_heap \<Rightarrow> nat alloc_result" where
  "asm_malloc malloc sz h =
     (case malloc (if sz = 0 then 1 else sz) (used h) of
        None \<Rightarrow> out_of_memory h
      | Some p \<Rightarrow>
          (case track malloc p (h\<lparr>hp_live := insert p (hp_live h)\<rparr>) of
             None \<Rightarrow> None
           | Some (Inl e) \<Rightarrow> Some (Inl e)
           | Some (Inr (h, u)) \<Rightarrow> Some (Inr (h, p))))"

definition asm_calloc :: "allocator \<Rightarrow> nat \<Rightarrow> nat \<Rightarrow> asm_heap \<Rightarrow> nat alloc_result" where
  "asm_calloc malloc count sz h =
     asm_malloc malloc ((if count = 0 then 1 else count) * (if sz = 0 then 1 else sz)) h"

text \<open>The walk of \<^verbatim>\<open>find_allocation\<close> from an item: the item before the one that tracks the block, null for
  the first item, and that item, null when there is none.\<close>

partial_function (option) find_allocation ::
  "nat store \<Rightarrow> nat option \<Rightarrow> nat option \<Rightarrow> nat option \<Rightarrow> (nat option \<times> nat option) option" where
  "find_allocation s p current previous =
     (case current of None \<Rightarrow> Some (previous, None)
      | Some a \<Rightarrow>
          (case s a of None \<Rightarrow> None
           | Some i \<Rightarrow> if p = Some (item_value i) then Some (previous, Some a)
                       else find_allocation s p (item_next i) (Some a)))"

text \<open>The list without the item of the block; the item is freed.\<close>

definition asm_memory_detach :: "nat option \<Rightarrow> asm_heap \<Rightarrow> asm_heap option" where
  "asm_memory_detach p h =
     (case hp_context h of None \<Rightarrow> Some h
      | Some first \<Rightarrow>
          (case find_allocation (hp_items h) p first None of
             None \<Rightarrow> None
           | Some (previous, None) \<Rightarrow> Some h
           | Some (None, Some a) \<Rightarrow>
               map_option (\<lambda>i. h\<lparr>hp_items := (hp_items h)(a := None), hp_context := Some (item_next i)\<rparr>)
                 (hp_items h a)
           | Some (Some b, Some a) \<Rightarrow>
               map_option (\<lambda>i. h\<lparr>hp_items := (hp_items h)
                   (b := map_option (\<lambda>j. j\<lparr>item_next := item_next i\<rparr>) (hp_items h b), a := None)\<rparr>)
                 (hp_items h a)))"

definition asm_free :: "nat option \<Rightarrow> asm_heap \<Rightarrow> asm_heap option" where
  "asm_free pointer h =
     Option.bind (asm_memory_detach pointer h) (\<lambda>h. case pointer of None \<Rightarrow> Some h | Some p \<Rightarrow> free_block p h)"

text \<open>\<^verbatim>\<open>realloc\<close> gives another block, whose address may be the old one, or fails and keeps the old one.
  A null pointer is allocated anew. The item is found before the old block is released.\<close>

definition asm_realloc :: "allocator \<Rightarrow> nat option \<Rightarrow> nat \<Rightarrow> asm_heap \<Rightarrow> nat alloc_result" where
  "asm_realloc malloc pointer sz h =
     (let released = (case pointer of None \<Rightarrow> {} | Some p \<Rightarrow> {p})
      in if \<not> released \<subseteq> hp_live h then None
         else case malloc (if sz = 0 then 1 else sz) (used h - released) of
           None \<Rightarrow> out_of_memory h
         | Some q \<Rightarrow>
             let moved = h\<lparr>hp_live := insert q (hp_live h - released)\<rparr>;
                 tracked = (case track malloc q moved of
                     None \<Rightarrow> None | Some (Inl e) \<Rightarrow> Some (Inl e) | Some (Inr (h, u)) \<Rightarrow> Some (Inr (h, q)))
             in (case hp_context h of None \<Rightarrow> tracked
                 | Some first \<Rightarrow>
                    (case find_allocation (hp_items h) pointer first None of
                       None \<Rightarrow> None
                     | Some (previous, None) \<Rightarrow> tracked
                     | Some (previous, Some a) \<Rightarrow>
                         Some (Inr (moved\<lparr>hp_items := (hp_items h)(a := map_option (\<lambda>i. i\<lparr>item_value := q\<rparr>)
                           (hp_items h a))\<rparr>, q)))))"

text \<open>The copy of a string, given without its terminating zero.\<close>

definition asm_strdup :: "allocator \<Rightarrow> 8 word list option \<Rightarrow> asm_heap \<Rightarrow> nat alloc_result" where
  "asm_strdup malloc string h =
     (case string of None \<Rightarrow> Some (Inl (h, ZLASM_DIAGNOSTIC_INTERNAL_ERROR))
      | Some text \<Rightarrow> asm_malloc malloc (length text + 1) h)"

text \<open>The loop of \<^verbatim>\<open>asm_memory_release_all\<close>.\<close>

partial_function (option) release_items :: "asm_heap \<Rightarrow> nat option \<Rightarrow> asm_heap option" where
  "release_items h current =
     (case current of None \<Rightarrow> Some (h\<lparr>hp_context := Some None\<rparr>)
      | Some a \<Rightarrow>
          (case hp_items h a of None \<Rightarrow> None
           | Some i \<Rightarrow> Option.bind (free_block (item_value i) h) (\<lambda>h.
               release_items (h\<lparr>hp_items := (hp_items h)(a := None)\<rparr>) (item_next i))))"

definition asm_memory_release_all :: "asm_heap \<Rightarrow> asm_heap option" where
  "asm_memory_release_all h =
     (case hp_context h of None \<Rightarrow> Some h | Some first \<Rightarrow> release_items h first)"

definition asm_error_begin :: "asm_heap \<Rightarrow> asm_heap" where
  "asm_error_begin h = h\<lparr>hp_context := Some None\<rparr>"

definition asm_error_end :: "asm_heap \<Rightarrow> asm_heap" where
  "asm_error_end h = h\<lparr>hp_context := None\<rparr>"

section \<open>What is tracked\<close>

text \<open>The tracked blocks, the newest first.\<close>

definition tracks :: "asm_heap \<Rightarrow> nat list \<Rightarrow> bool" where
  "tracks h bs \<longleftrightarrow> (\<exists>first as. hp_context h = Some first \<and> chain (hp_items h) first as \<and>
     contents (hp_items h) as = bs \<and> dom (hp_items h) = set as \<and> hp_live h \<inter> set as = {} \<and>
     distinct bs \<and> set bs \<subseteq> hp_live h)"

lemma tracksI:
  "hp_context h = Some first \<Longrightarrow> chain (hp_items h) first as \<Longrightarrow> contents (hp_items h) as = bs \<Longrightarrow>
     dom (hp_items h) = set as \<Longrightarrow> hp_live h \<inter> set as = {} \<Longrightarrow> distinct bs \<Longrightarrow> set bs \<subseteq> hp_live h \<Longrightarrow> tracks h bs"
  by (auto simp: tracks_def)

lemma tracksE:
  assumes "tracks h bs"
  obtains first as where "hp_context h = Some first" "chain (hp_items h) first as"
    "contents (hp_items h) as = bs" "dom (hp_items h) = set as" "hp_live h \<inter> set as = {}"
    "distinct bs" "set bs \<subseteq> hp_live h"
  using assms by (auto simp: tracks_def)

text \<open>Blocks that are not tracked may come and go.\<close>

lemma tracks_live:
  assumes "tracks h bs" "set bs \<subseteq> L" "L \<inter> dom (hp_items h) = {}"
  shows "tracks (h\<lparr>hp_live := L\<rparr>) bs"
  using assms unfolding tracks_def by auto

lemma find_allocation_chain:
  "chain s p as \<Longrightarrow>
     (if b \<in> set (contents s as)
      then \<exists>front a tail. as = front @ a # tail \<and> b \<notin> set (contents s front) \<and> item_value (the (s a)) = b \<and>
        find_allocation s (Some b) p previous = Some (if front = [] then previous else Some (last front), Some a)
      else \<exists>previous'. find_allocation s (Some b) p previous = Some (previous', None))"
proof (induction as arbitrary: p previous)
  case Nil
  then show ?case by (simp add: find_allocation.simps)
next
  case (Cons a as)
  then obtain i where i: "p = Some a" "s a = Some i" "chain s (item_next i) as" by auto
  note step = find_allocation.simps [of s "Some b" p previous]
  show ?case
  proof (cases "item_value i = b")
    case True
    then show ?thesis using i step by (auto intro!: exI [of _ "[]"])
  next
    case False
    then have f: "find_allocation s (Some b) p previous = find_allocation s (Some b) (item_next i) (Some a)"
      using i step by simp
    show ?thesis
    proof (cases "b \<in> set (contents s as)")
      case True
      with Cons.IH [OF i(3), of "Some a"] obtain front a' tail where
        "as = front @ a' # tail" "b \<notin> set (contents s front)" "item_value (the (s a')) = b"
        "find_allocation s (Some b) (item_next i) (Some a) =
           Some (if front = [] then Some a else Some (last front), Some a')"
        by auto
      then have "a # as = (a # front) @ a' # tail \<and> b \<notin> set (contents s (a # front)) \<and> item_value (the (s a')) = b \<and>
          find_allocation s (Some b) p previous =
            Some (if a # front = [] then previous else Some (last (a # front)), Some a')"
        using f i \<open>item_value i \<noteq> b\<close> by simp
      moreover have b: "b \<in> set (contents s (a # as))" using True by simp
      ultimately show ?thesis unfolding if_P [OF b] by blast
    next
      case False
      with Cons.IH [OF i(3), of "Some a"] show ?thesis using f i \<open>item_value i \<noteq> b\<close> by auto
    qed
  qed
qed

lemma find_allocation_null: "chain s p as \<Longrightarrow> \<exists>previous'. find_allocation s None p previous = Some (previous', None)"
  by (induction as arbitrary: p previous) (auto simp: find_allocation.simps)

section \<open>What the operations do to the tracked blocks\<close>

definition fresh_addresses :: "allocator \<Rightarrow> bool" where
  "fresh_addresses malloc \<longleftrightarrow> (\<forall>sz U a. malloc sz U = Some a \<longrightarrow> a \<notin> U)"

lemma track_tracks:
  assumes "fresh_addresses malloc" "tracks h bs" "p \<in> hp_live h" "p \<notin> set bs"
  obtains (failed) h' where "track malloc p h = Some (Inl (h', ZLASM_DIAGNOSTIC_OUT_OF_MEMORY))"
      "hp_live h' = hp_live h - {p}" "tracks h' bs"
  | (tracked) h' where "track malloc p h = Some (Inr (h', ()))" "hp_live h' = hp_live h" "tracks h' (p # bs)"
proof -
  obtain first as where t: "hp_context h = Some first" "chain (hp_items h) first as"
    "contents (hp_items h) as = bs" "dom (hp_items h) = set as" "hp_live h \<inter> set as = {}"
    "distinct bs" "set bs \<subseteq> hp_live h"
    using assms(2) by (rule tracksE)
  show thesis
  proof (cases "malloc ITEM_SIZE (used h)")
    case None
    have "tracks (h\<lparr>hp_live := hp_live h - {p}\<rparr>) bs"
      using t assms(4) by (intro tracks_live [OF assms(2)]) auto
    then show thesis using None t(1) assms(3) failed by (simp add: track_def free_block_def out_of_memory_def)
  next
    case (Some a)
    then have a: "a \<notin> hp_live h" "a \<notin> set as" using assms(1) t(4) by (auto simp: fresh_addresses_def used_def)
    let ?h = "h\<lparr>hp_items := (hp_items h)(a \<mapsto> \<lparr>item_value = p, item_next = first\<rparr>), hp_context := Some (Some a)\<rparr>"
    have "tracks ?h (p # bs)"
      by (rule tracksI [of _ "Some a" "a # as"]) (use t a assms(3,4) in auto)
    then show thesis using Some t(1) tracked [of ?h] by (simp add: track_def)
  qed
qed

lemma asm_malloc_tracks:
  assumes "fresh_addresses malloc" "tracks h bs"
  obtains (failed) h' where "asm_malloc malloc sz h = Some (Inl (h', ZLASM_DIAGNOSTIC_OUT_OF_MEMORY))"
      "hp_live h' = hp_live h" "tracks h' bs"
  | (allocated) h' p where "asm_malloc malloc sz h = Some (Inr (h', p))" "p \<notin> hp_live h"
      "hp_live h' = insert p (hp_live h)" "tracks h' (p # bs)"
proof (cases "malloc (if sz = 0 then 1 else sz) (used h)")
  case None
  then show thesis using failed [of h] assms(2) by (simp add: asm_malloc_def out_of_memory_def)
next
  case (Some p)
  then have p: "p \<notin> hp_live h" "p \<notin> dom (hp_items h)" using assms(1) by (auto simp: fresh_addresses_def used_def)
  let ?h = "h\<lparr>hp_live := insert p (hp_live h)\<rparr>"
  have bs: "set bs \<subseteq> hp_live h" "hp_live h \<inter> dom (hp_items h) = {}" using assms(2) by (auto elim!: tracksE)
  then have tracked: "tracks ?h bs" using p by (intro tracks_live [OF assms(2)]) auto
  have "p \<notin> set bs" using bs p by auto
  show thesis
    by (rule track_tracks [of malloc ?h bs p])
      (use assms(1) Some p tracked \<open>p \<notin> set bs\<close> in \<open>auto simp: asm_malloc_def intro: failed allocated\<close>)
qed

lemma asm_memory_detach_tracks:
  assumes "tracks h bs"
  obtains h' where "asm_memory_detach (Some p) h = Some h'" "hp_live h' = hp_live h" "tracks h' (remove1 p bs)"
proof -
  obtain first as where t: "hp_context h = Some first" "chain (hp_items h) first as"
    "contents (hp_items h) as = bs" "dom (hp_items h) = set as" "hp_live h \<inter> set as = {}"
    "distinct bs" "set bs \<subseteq> hp_live h"
    using assms by (rule tracksE)
  note find = find_allocation_chain [OF t(2), of p None]
  have dist: "distinct as" by (rule chain_distinct [OF t(2)])
  show thesis
  proof (cases "p \<in> set bs")
    case False
    then show thesis using that [of h] find t(1,3) assms by (auto simp: asm_memory_detach_def remove1_idem split: option.splits)
  next
    case True
    then obtain front a tail where f: "as = front @ a # tail" "p \<notin> set (contents (hp_items h) front)"
      "item_value (the (hp_items h a)) = p"
      "find_allocation (hp_items h) (Some p) first None = Some (if front = [] then None else Some (last front), Some a)"
      using find t(3) by auto
    obtain i where i: "hp_items h a = Some i" using t(2) f(1) by auto
    have rest: "remove1 p bs = contents (hp_items h) (front @ tail)"
      unfolding t(3) [symmetric] f(1) using f(2,3) by (simp add: remove1_append)
    show thesis
    proof (cases front rule: rev_cases)
      case Nil
      let ?h = "h\<lparr>hp_items := (hp_items h)(a := None), hp_context := Some (item_next i)\<rparr>"
      have "tracks ?h (remove1 p bs)"
        by (rule tracksI [of _ "item_next i" tail])
          (use t f i rest dist Nil in \<open>auto simp: distinct_remove1 dest: set_mp [OF set_remove1_subset]\<close>)
      moreover have "asm_memory_detach (Some p) h = Some ?h" using f i Nil t(1) by (simp add: asm_memory_detach_def)
      ultimately show thesis using that by simp
    next
      case (snoc front' b)
      obtain j where j: "hp_items h b = Some j" using t(2) f(1) snoc by auto
      let ?s = "(hp_items h)(b \<mapsto> j\<lparr>item_next := item_next i\<rparr>, a := None)"
      let ?h = "h\<lparr>hp_items := ?s\<rparr>"
      have d: "a \<noteq> b" "a \<notin> set front'" "b \<notin> set front'" "a \<notin> set tail" "b \<notin> set tail" using dist f(1) snoc by auto
      have "chain ?s first (front @ tail)" "contents ?s (front @ tail) = contents (hp_items h) (front @ tail)"
        using t(2) f(1) i j d by (auto simp: snoc)
      then have "tracks ?h (remove1 p bs)"
        by (intro tracksI [of _ first "front @ tail"])
          (use t f i j rest d dist snoc in \<open>auto simp: distinct_remove1 dest: set_mp [OF set_remove1_subset]\<close>)
      moreover have "asm_memory_detach (Some p) h = Some ?h"
        using f i j snoc t(1) by (simp add: asm_memory_detach_def)
      ultimately show thesis using that by simp
    qed
  qed
qed

lemma asm_memory_detach_null: "tracks h bs \<Longrightarrow> asm_memory_detach None h = Some h"
  by (auto simp: asm_memory_detach_def split: option.splits dest!: find_allocation_null [where previous = None] elim!: tracksE)

lemma asm_free_tracks:
  assumes "tracks h bs" "p \<in> hp_live h"
  obtains h' where "asm_free (Some p) h = Some h'" "hp_live h' = hp_live h - {p}" "tracks h' (remove1 p bs)"
proof -
  obtain h' where h': "asm_memory_detach (Some p) h = Some h'" "hp_live h' = hp_live h" "tracks h' (remove1 p bs)"
    using assms(1) by (rule asm_memory_detach_tracks)
  obtain first as where t: "dom (hp_items h') = set as" "hp_live h' \<inter> set as = {}"
    "distinct (remove1 p bs)" "set (remove1 p bs) \<subseteq> hp_live h'"
    using h'(3) by (rule tracksE)
  have "distinct bs" using assms(1) by (rule tracksE)
  then have "tracks (h'\<lparr>hp_live := hp_live h' - {p}\<rparr>) (remove1 p bs)"
    using t by (intro tracks_live [OF h'(3)]) auto
  then show thesis using that h' assms(2) by (simp add: asm_free_def free_block_def)
qed

text \<open>A tracked block keeps its item when it moves; a null pointer is a new block.\<close>

lemma asm_realloc_tracks:
  assumes "fresh_addresses malloc" "tracks h bs" "p \<in> set bs"
  obtains (failed) "asm_realloc malloc (Some p) sz h = Some (Inl (h, ZLASM_DIAGNOSTIC_OUT_OF_MEMORY))"
  | (moved) h' q where "asm_realloc malloc (Some p) sz h = Some (Inr (h', q))" "q \<notin> hp_live h - {p}"
      "hp_live h' = insert q (hp_live h - {p})" "tracks h' (map (\<lambda>b. if b = p then q else b) bs)"
proof -
  obtain first as where t: "hp_context h = Some first" "chain (hp_items h) first as"
    "contents (hp_items h) as = bs" "dom (hp_items h) = set as" "hp_live h \<inter> set as = {}"
    "distinct bs" "set bs \<subseteq> hp_live h"
    using assms(2) by (rule tracksE)
  have live: "p \<in> hp_live h" using t(7) assms(3) by auto
  show thesis
  proof (cases "malloc (if sz = 0 then 1 else sz) (used h - {p})")
    case None
    then show thesis using failed live by (simp add: asm_realloc_def out_of_memory_def)
  next
    case (Some q)
    then have "q \<notin> used h - {p}" using assms(1) by (auto simp: fresh_addresses_def)
    moreover have "p \<notin> set as" using t(5) live by auto
    ultimately have q: "q \<notin> hp_live h - {p}" "q \<notin> set as" using t(4) by (auto simp: used_def)
    obtain front a tail where f: "as = front @ a # tail" "p \<notin> set (contents (hp_items h) front)"
      "item_value (the (hp_items h a)) = p"
      "find_allocation (hp_items h) (Some p) first None = Some (if front = [] then None else Some (last front), Some a)"
      using find_allocation_chain [OF t(2), of p None] assms(3) t(3) by auto
    obtain i where i: "hp_items h a = Some i" using t(2) f(1) by auto
    let ?s = "(hp_items h)(a \<mapsto> i\<lparr>item_value := q\<rparr>)"
    let ?h = "h\<lparr>hp_live := insert q (hp_live h - {p}), hp_items := ?s\<rparr>"
    let ?move = "\<lambda>b. if b = p then q else b"
    have d: "a \<notin> set front" "a \<notin> set tail" using chain_distinct [OF t(2)] f(1) by auto
    have p: "p \<notin> set (contents (hp_items h) tail)" using t(3,6) f i by auto
    have chain: "chain ?s first as" using t(2) i d unfolding f(1) by auto
    have "map ?move (contents (hp_items h) front) = contents (hp_items h) front"
      "map ?move (contents (hp_items h) tail) = contents (hp_items h) tail"
      using f(2) p by (auto intro!: map_idI)
    then have moved': "contents ?s as = map ?move bs"
      unfolding t(3) [symmetric] f(1) using f(3) i d by simp
    have "inj_on ?move (set bs)" using q(1) t(7) by (auto simp: inj_on_def)
    then have "distinct (map ?move bs)" using t(6) by (simp add: distinct_map)
    then have "tracks ?h (map ?move bs)"
      by (intro tracksI [of ?h first as]) (use t chain f(1) q live moved' in auto)
    moreover have "asm_realloc malloc (Some p) sz h = Some (Inr (?h, q))"
      using Some live t(1) f(4) i by (simp add: asm_realloc_def Let_def)
    ultimately show thesis using moved q(1) by simp
  qed
qed

lemma asm_realloc_null:
  assumes "tracks h bs"
  shows "asm_realloc malloc None sz h = asm_malloc malloc sz h"
proof -
  obtain first as where t: "hp_context h = Some first" "chain (hp_items h) first as"
    using assms by (rule tracksE)
  then obtain previous where "find_allocation (hp_items h) None first None = Some (previous, None)"
    using find_allocation_null by blast
  then show ?thesis using t(1) by (simp add: asm_realloc_def asm_malloc_def Let_def split: option.splits)
qed

lemma release_items_chain:
  "chain (hp_items h) first as \<Longrightarrow> contents (hp_items h) as = bs \<Longrightarrow> distinct bs \<Longrightarrow> set bs \<subseteq> hp_live h \<Longrightarrow>
     release_items h first = Some (h\<lparr>hp_live := hp_live h - set bs, hp_items := hp_items h |` (- set as),
       hp_context := Some None\<rparr>)"
proof (induction as arbitrary: h first bs)
  case Nil
  then show ?case by (simp add: release_items.simps)
next
  case (Cons a as)
  then obtain i where i: "first = Some a" "hp_items h a = Some i" "chain (hp_items h) (item_next i) as" by auto
  obtain bs' where bs: "bs = item_value i # bs'" "contents (hp_items h) as = bs'" using Cons.prems(2) i by auto
  let ?h = "h\<lparr>hp_live := hp_live h - {item_value i}, hp_items := (hp_items h)(a := None)\<rparr>"
  have "a \<notin> set as" using chain_distinct [OF Cons.prems(1)] by simp
  then have "chain (hp_items ?h) (item_next i) as" "contents (hp_items ?h) as = bs'" using i(3) bs(2) by simp_all
  moreover have "distinct bs'" "set bs' \<subseteq> hp_live ?h" using bs(1) Cons.prems(3,4) by auto
  ultimately have "release_items ?h (item_next i) = Some (?h\<lparr>hp_live := hp_live ?h - set bs',
      hp_items := hp_items ?h |` (- set as), hp_context := Some None\<rparr>)"
    by (rule Cons.IH)
  moreover have "(hp_items h)(a := None) |` (- set as) = hp_items h |` (- set (a # as))"
    by (auto simp: restrict_map_def fun_eq_iff)
  moreover have "hp_live h - {item_value i} - set bs' = hp_live h - set bs" using bs(1) by auto
  moreover have "item_value i \<in> hp_live h" using Cons.prems(4) bs(1) by auto
  ultimately show ?case using i by (simp add: release_items.simps [of h "Some a"] free_block_def)
qed

lemma asm_memory_release_all_tracks:
  assumes "tracks h bs"
  obtains h' where "asm_memory_release_all h = Some h'" "hp_live h' = hp_live h - set bs"
    "hp_items h' = Map.empty" "tracks h' []"
proof -
  obtain first as where t: "hp_context h = Some first" "chain (hp_items h) first as"
    "contents (hp_items h) as = bs" "dom (hp_items h) = set as" "hp_live h \<inter> set as = {}"
    "distinct bs" "set bs \<subseteq> hp_live h"
    using assms by (rule tracksE)
  have "hp_items h |` (- set as) = Map.empty"
    using t(4) by (auto simp: restrict_map_def fun_eq_iff dom_def)
  then have "asm_memory_release_all h = Some (h\<lparr>hp_live := hp_live h - set bs, hp_items := Map.empty,
      hp_context := Some None\<rparr>)" (is "_ = Some ?h")
    using release_items_chain [OF t(2,3,6,7)] t(1) by (simp add: asm_memory_release_all_def)
  moreover have "tracks ?h []" by (rule tracksI [of _ None "[]"]) auto
  ultimately show thesis using that by simp
qed

section \<open>Runs of the assembler\<close>

text \<open>The requests for memory, any of which may fail.\<close>

datatype request = MALLOC nat | CALLOC nat nat | STRDUP "8 word list option" | REALLOC "nat option" nat

fun perform :: "allocator \<Rightarrow> request \<Rightarrow> asm_heap \<Rightarrow> nat alloc_result" where
  "perform malloc (MALLOC sz) h = asm_malloc malloc sz h"
| "perform malloc (CALLOC count sz) h = asm_calloc malloc count sz h"
| "perform malloc (STRDUP string) h = asm_strdup malloc string h"
| "perform malloc (REALLOC pointer sz) h = asm_realloc malloc pointer sz h"

fun resizes :: "request \<Rightarrow> nat set" where
  "resizes (REALLOC (Some p) sz) = {p}"
| "resizes _ = {}"

text \<open>The heaps a run reaches from \<open>h0\<close>, with the blocks it has detached. A block is resized, freed or
  detached only by the run that allocated it and while it still owns it. A failed request leaves the
  heap for the handler, which is one of the heaps reached.\<close>

definition owned :: "asm_heap \<Rightarrow> nat set \<Rightarrow> asm_heap \<Rightarrow> nat set" where
  "owned h0 kept h = hp_live h - hp_live h0 - kept"

inductive asm_run :: "allocator \<Rightarrow> asm_heap \<Rightarrow> asm_heap \<Rightarrow> nat set \<Rightarrow> bool" for malloc h0 where
  begin_run: "asm_run malloc h0 (asm_error_begin h0) {}"
| served: "asm_run malloc h0 h kept \<Longrightarrow> resizes r \<subseteq> owned h0 kept h \<Longrightarrow> perform malloc r h = Some (Inr (h', p)) \<Longrightarrow>
    asm_run malloc h0 h' kept"
| refused: "asm_run malloc h0 h kept \<Longrightarrow> resizes r \<subseteq> owned h0 kept h \<Longrightarrow> perform malloc r h = Some (Inl (h', e)) \<Longrightarrow>
    asm_run malloc h0 h' kept"
| freed: "asm_run malloc h0 h kept \<Longrightarrow> p \<in> owned h0 kept h \<Longrightarrow> asm_free (Some p) h = Some h' \<Longrightarrow>
    asm_run malloc h0 h' kept"
| detached: "asm_run malloc h0 h kept \<Longrightarrow> p \<in> owned h0 kept h \<Longrightarrow> asm_memory_detach (Some p) h = Some h' \<Longrightarrow>
    asm_run malloc h0 h' (insert p kept)"

text \<open>What a run owns is what it tracks.\<close>

definition run_tracks :: "asm_heap \<Rightarrow> asm_heap \<Rightarrow> nat set \<Rightarrow> nat list \<Rightarrow> bool" where
  "run_tracks h0 h kept bs \<longleftrightarrow> tracks h bs \<and> set bs = owned h0 kept h \<and> hp_live h0 \<union> kept \<subseteq> hp_live h"

lemma request_outcome:
  assumes "fresh_addresses malloc" "run_tracks h0 h kept bs" "resizes r \<subseteq> owned h0 kept h"
  obtains (failed) h' e where "perform malloc r h = Some (Inl (h', e))" "run_tracks h0 h' kept bs"
  | (granted) h' p bs' where "perform malloc r h = Some (Inr (h', p))" "run_tracks h0 h' kept bs'"
proof -
  note run = assms(2) [unfolded run_tracks_def]
  have malloc: thesis if eq: "perform malloc r h = asm_malloc malloc sz h" for sz
  proof (rule asm_malloc_tracks [OF assms(1) run [THEN conjunct1], of sz])
    fix h' assume "asm_malloc malloc sz h = Some (Inl (h', ZLASM_DIAGNOSTIC_OUT_OF_MEMORY))"
      "hp_live h' = hp_live h" "tracks h' bs"
    then show thesis using eq run by (intro failed) (auto simp: run_tracks_def owned_def)
  next
    fix h' p assume "asm_malloc malloc sz h = Some (Inr (h', p))" "p \<notin> hp_live h"
      "hp_live h' = insert p (hp_live h)" "tracks h' (p # bs)"
    then show thesis using eq run by (intro granted [of h' p "p # bs"]) (auto simp: run_tracks_def owned_def)
  qed
  show thesis
  proof (cases r)
    case (MALLOC sz)
    then show thesis by (intro malloc) simp
  next
    case (CALLOC n sz)
    then show thesis by (intro malloc) (simp add: asm_calloc_def)
  next
    case (STRDUP string)
    then show thesis
      using failed [of h] assms(2) malloc by (cases string) (auto simp: asm_strdup_def)
  next
    case (REALLOC pointer sz)
    show thesis
    proof (cases pointer)
      case None
      then show thesis using REALLOC run by (intro malloc [of sz]) (simp add: asm_realloc_null [OF run [THEN conjunct1]])
    next
      case (Some p)
      then have p: "p \<in> set bs" using REALLOC assms(3) run by auto
      show thesis
      proof (rule asm_realloc_tracks [OF assms(1) run [THEN conjunct1] p, of sz])
        assume "asm_realloc malloc (Some p) sz h = Some (Inl (h, ZLASM_DIAGNOSTIC_OUT_OF_MEMORY))"
        then show thesis using REALLOC Some assms(2) by (intro failed) simp_all
      next
        fix h' q assume "asm_realloc malloc (Some p) sz h = Some (Inr (h', q))" "q \<notin> hp_live h - {p}"
          "hp_live h' = insert q (hp_live h - {p})" "tracks h' (map (\<lambda>b. if b = p then q else b) bs)"
        then show thesis
          using REALLOC Some p run
          by (intro granted [of h' q "map (\<lambda>b. if b = p then q else b) bs"]) (auto simp: run_tracks_def owned_def)
      qed
    qed
  qed
qed

lemma owned_outcome:
  assumes "run_tracks h0 h kept bs" "p \<in> owned h0 kept h"
  shows "\<exists>h'. asm_free (Some p) h = Some h' \<and> run_tracks h0 h' kept (remove1 p bs)"
    "\<exists>h'. asm_memory_detach (Some p) h = Some h' \<and> run_tracks h0 h' (insert p kept) (remove1 p bs)"
proof -
  have p: "tracks h bs" "p \<in> hp_live h" "p \<notin> hp_live h0" "p \<notin> kept" "set bs = owned h0 kept h"
    "hp_live h0 \<union> kept \<subseteq> hp_live h"
    using assms by (auto simp: run_tracks_def owned_def)
  have "distinct bs" using p(1) by (rule tracksE)
  then have rest: "set (remove1 p bs) = owned h0 kept h - {p}" using p(5) by simp
  show "\<exists>h'. asm_free (Some p) h = Some h' \<and> run_tracks h0 h' kept (remove1 p bs)"
  proof (rule asm_free_tracks [OF p(1,2)])
    fix h' assume "asm_free (Some p) h = Some h'" "hp_live h' = hp_live h - {p}" "tracks h' (remove1 p bs)"
    then show ?thesis using p(3,4,6) rest by (auto simp: run_tracks_def owned_def)
  qed
  show "\<exists>h'. asm_memory_detach (Some p) h = Some h' \<and> run_tracks h0 h' (insert p kept) (remove1 p bs)"
  proof (rule asm_memory_detach_tracks [OF p(1), of p])
    fix h' assume "asm_memory_detach (Some p) h = Some h'" "hp_live h' = hp_live h" "tracks h' (remove1 p bs)"
    then show ?thesis using p(2,6) rest by (auto simp: run_tracks_def owned_def)
  qed
qed

lemma asm_run_tracks:
  assumes "asm_run malloc h0 h kept" "fresh_addresses malloc" "hp_items h0 = Map.empty"
  shows "\<exists>bs. run_tracks h0 h kept bs"
  using assms(1)
proof induction
  case begin_run
  have "tracks (asm_error_begin h0) []"
    by (rule tracksI [of _ None "[]"]) (simp_all add: asm_error_begin_def assms(3))
  then have "run_tracks h0 (asm_error_begin h0) {} []"
    by (simp add: run_tracks_def owned_def asm_error_begin_def)
  then show ?case ..
next
  case (served h kept r h' p)
  then obtain bs where "run_tracks h0 h kept bs" by blast
  from request_outcome [OF assms(2) this served(2)] served(3) show ?case by (metis Inl_Inr_False option.inject prod.inject sum.inject(2))
next
  case (refused h kept r h' e)
  then obtain bs where "run_tracks h0 h kept bs" by blast
  from request_outcome [OF assms(2) this refused(2)] refused(3) show ?case by (metis Inl_Inr_False option.inject prod.inject sum.inject(1))
next
  case (freed h kept p h')
  then show ?case using owned_outcome(1) by fastforce
next
  case (detached h kept p h')
  then show ?case using owned_outcome(2) by fastforce
qed

text \<open>C7: The memory of a run of the assembler is safe. In whatever heap it is, every request for memory ends,
  granted or refused, and every block the run owns can be freed; and releasing everything, which both
  the end and the handler of a failure do, leaves exactly the blocks that were there before and those
  that were detached, and no tracking item.\<close>

theorem asm_memory_safe:
  assumes "fresh_addresses malloc" "hp_items h0 = Map.empty" "asm_run malloc h0 h kept"
  shows "(\<forall>r. resizes r \<subseteq> owned h0 kept h \<longrightarrow> perform malloc r h \<noteq> None) \<and>
    (\<forall>p \<in> owned h0 kept h. asm_free (Some p) h \<noteq> None) \<and>
    (\<exists>h'. asm_memory_release_all h = Some h' \<and> hp_live h' = hp_live h0 \<union> kept \<and> hp_items h' = Map.empty)"
proof (intro conjI allI impI ballI)
  obtain bs where bs: "run_tracks h0 h kept bs" using asm_run_tracks [OF assms(3,1,2)] ..
  show "perform malloc r h \<noteq> None" if "resizes r \<subseteq> owned h0 kept h" for r
    using request_outcome [OF assms(1) bs that] by (metis option.distinct(1))
  show "asm_free (Some p) h \<noteq> None" if "p \<in> owned h0 kept h" for p
    using owned_outcome(1) [OF bs that] by auto
  obtain h' where "asm_memory_release_all h = Some h'" "hp_live h' = hp_live h - set bs" "hp_items h' = Map.empty"
    using bs asm_memory_release_all_tracks by (metis run_tracks_def)
  then show "\<exists>h'. asm_memory_release_all h = Some h' \<and> hp_live h' = hp_live h0 \<union> kept \<and> hp_items h' = Map.empty"
    using bs by (auto simp: run_tracks_def owned_def)
qed

text \<open>The lowest free address, and nothing beyond 64 bytes; a run in a heap with one other block allocates
  two blocks, detaches the first and is refused a third.\<close>

definition lowest_free :: allocator where
  "lowest_free sz U = (if sz > 64 then None else find (\<lambda>a. a \<notin> U) [0 ..< 16])"

lemma lowest_free_fresh: "fresh_addresses lowest_free"
  by (auto simp: fresh_addresses_def lowest_free_def find_Some_iff)

theorem asm_memory_safe_witness:
  "\<exists>h. asm_run lowest_free \<lparr>hp_live = {2}, hp_items = Map.empty, hp_context = None\<rparr> h {0} \<and>
     hp_live h = {0, 2, 3} \<and>
     (\<exists>h'. asm_memory_release_all h = Some h' \<and> hp_live h' = {0, 2} \<and> hp_items h' = Map.empty)"
proof -
  let ?h0 = "\<lparr>hp_live = {2}, hp_items = Map.empty, hp_context = None\<rparr> :: asm_heap"
  let ?i = "\<lparr>item_value = 0, item_next = None\<rparr> :: nat item"
  let ?h1 = "\<lparr>hp_live = {0, 2}, hp_items = [1 \<mapsto> ?i], hp_context = Some (Some 1)\<rparr> :: asm_heap"
  let ?h2 = "\<lparr>hp_live = {0, 2, 3}, hp_items = [1 \<mapsto> ?i, 4 \<mapsto> \<lparr>item_value = 3, item_next = Some 1\<rparr>],
    hp_context = Some (Some 4)\<rparr> :: asm_heap"
  let ?h3 = "\<lparr>hp_live = {0, 2, 3}, hp_items = [4 \<mapsto> \<lparr>item_value = 3, item_next = None\<rparr>],
    hp_context = Some (Some 4)\<rparr> :: asm_heap"
  note steps = asm_malloc_def track_def lowest_free_def used_def ITEM_SIZE_def out_of_memory_def owned_def
    asm_error_begin_def upt_rec
  have "asm_run lowest_free ?h0 (asm_error_begin ?h0) {}" by (rule begin_run)
  then have "asm_run lowest_free ?h0 ?h1 {}"
    by (rule served [of _ _ _ _ "MALLOC 8"]) (simp_all add: steps insert_commute)
  then have "asm_run lowest_free ?h0 ?h2 {}"
    by (rule served [of _ _ _ _ "STRDUP (Some [65])"]) (auto simp: steps asm_strdup_def)
  then have "asm_run lowest_free ?h0 ?h3 {0}"
    by (rule detached) (auto simp: steps asm_memory_detach_def find_allocation.simps fun_eq_iff)
  then have run: "asm_run lowest_free ?h0 ?h3 {0}"
    by (rule refused [of _ _ _ _ "MALLOC 65"]) (simp_all add: steps)
  show ?thesis
    using asm_memory_safe [OF lowest_free_fresh _ run] run by (intro exI [of _ ?h3]) auto
qed

end
