(* ===== verification/Streams.thy ===== *)
theory Streams
  imports Linked_List
begin

text \<open>
  The two lists of the assembler that always have a first item, which may hold no value yet, and the
  streams that read them: the lines of \<^verbatim>\<open>asm/src/LineList.c\<close> and the tokens of \<^verbatim>\<open>asm/src/Lexer.c\<close>. They share
  a contract, stated as a locale: what is added one by one is read back in that order.
\<close>

section \<open>The contract\<close>

definition stream_holds :: "'a option store \<Rightarrow> nat \<Rightarrow> 'a list \<Rightarrow> bool" where
  "stream_holds s list ls \<longleftrightarrow>
     (\<exists>as. chain s (Some list) as \<and> contents s as = (if ls = [] then [None] else map Some ls))"

lemma stream_holdsI:
  "chain s (Some a) as \<Longrightarrow> contents s as = (if ls = [] then [None] else map Some ls) \<Longrightarrow> stream_holds s a ls"
  by (auto simp: stream_holds_def)

text \<open>Adding values one by one, each with a new item, and reading a stream to its end.\<close>

fun add_all :: "(nat \<Rightarrow> 's \<Rightarrow> nat \<Rightarrow> 'a \<Rightarrow> 's option) \<Rightarrow> 's \<Rightarrow> nat \<Rightarrow> (nat \<times> 'a) list \<Rightarrow> 's option" where
  "add_all add s list [] = Some s"
| "add_all add s list ((item, v) # rest) =
     (case add item s list v of None \<Rightarrow> None | Some s \<Rightarrow> add_all add s list rest)"

partial_function (option) read_all ::
  "('s \<Rightarrow> nat option \<Rightarrow> ('a option \<times> 's \<times> nat option) option) \<Rightarrow> 's \<Rightarrow> nat option \<Rightarrow> 'a list option" where
  "read_all read s stream =
     (case read s stream of None \<Rightarrow> None
      | Some (x, s, stream) \<Rightarrow>
          (case x of None \<Rightarrow> Some [] | Some v \<Rightarrow> Option.bind (read_all read s stream) (\<lambda>vs. Some (v # vs))))"

locale value_stream =
  fixes add :: "nat \<Rightarrow> 'a option store \<Rightarrow> nat \<Rightarrow> 'a \<Rightarrow> 'a option store option"
    and read :: "'a option store \<Rightarrow> nat option \<Rightarrow> ('a option \<times> 'a option store \<times> nat option) option"
  assumes add_holds: "stream_holds s list vs \<Longrightarrow> s item = None \<Longrightarrow>
      \<exists>s'. add item s list v = Some s' \<and> stream_holds s' list (vs @ [v]) \<and>
        (\<forall>b. b \<noteq> item \<longrightarrow> s b = None \<longrightarrow> s' b = None)"
    and read_holds: "stream_holds s a (x # xs) \<Longrightarrow>
      \<exists>s' stream. read s (Some a) = Some (Some x, s', stream) \<and>
        (if xs = [] then stream = None else \<exists>b. stream = Some b \<and> stream_holds s' b xs)"
    and read_end: "read s None = Some (None, s, None)"
begin

lemma add_all_holds:
  "stream_holds s list vs \<Longrightarrow> distinct (map fst xs) \<Longrightarrow> \<forall>x \<in> set xs. s (fst x) = None \<Longrightarrow>
     \<exists>s'. add_all add s list xs = Some s' \<and> stream_holds s' list (vs @ map snd xs)"
proof (induction xs arbitrary: s vs)
  case (Cons x xs)
  obtain item v where x: "x = (item, v)" by (cases x)
  then obtain s' where s': "add item s list v = Some s'" "stream_holds s' list (vs @ [v])"
    "\<forall>b. b \<noteq> item \<longrightarrow> s b = None \<longrightarrow> s' b = None"
    using add_holds [OF Cons.prems(1), of item v] Cons.prems(3) by auto
  have "\<forall>x \<in> set xs. s' (fst x) = None" using s'(3) Cons.prems(2,3) x by force
  then show ?case using Cons.IH [OF s'(2)] Cons.prems(2) s'(1) x by simp
qed simp

lemma read_all_holds: "stream_holds s a xs \<Longrightarrow> xs \<noteq> [] \<Longrightarrow> read_all read s (Some a) = Some xs"
proof (induction xs arbitrary: s a)
  case (Cons x xs)
  obtain s' stream where r: "read s (Some a) = Some (Some x, s', stream)"
    "if xs = [] then stream = None else \<exists>b. stream = Some b \<and> stream_holds s' b xs"
    using read_holds [OF Cons.prems(1)] by blast
  have "read_all read s' None = Some []" by (simp add: read_all.simps [of _ _ None] read_end)
  then show ?case
    using r Cons.IH [of s'] by (auto simp: read_all.simps [of _ s] split: if_splits)
qed simp

lemma order:
  assumes "stream_holds s list []" "xs \<noteq> []" "distinct (map fst xs)" "\<forall>x \<in> set xs. s (fst x) = None"
  shows "\<exists>s'. add_all add s list xs = Some s' \<and> read_all read s' (Some list) = Some (map snd xs)"
  using add_all_holds [OF assms(1,3,4)] read_all_holds assms(2) by auto

end

section \<open>Lines\<close>

text \<open>The first item of a line list always exists and may hold no line yet.\<close>

definition line_list_init :: "nat \<Rightarrow> 'a option store \<Rightarrow> 'a option store" where
  "line_list_init list s = s(list \<mapsto> \<lparr>item_value = None, item_next = None\<rparr>)"

definition line_list_add :: "nat \<Rightarrow> 'a option store \<Rightarrow> nat \<Rightarrow> 'a \<Rightarrow> 'a option store option" where
  "line_list_add item s list line =
     (case last_item s list of None \<Rightarrow> None
      | Some l \<Rightarrow>
          if item_value (the (s l)) = None then Some (s(l := map_option (\<lambda>i. i\<lparr>item_value := Some line\<rparr>) (s l)))
          else Some (s(l := map_option (\<lambda>i. i\<lparr>item_next := Some item\<rparr>) (s l),
                       item \<mapsto> \<lparr>item_value = Some line, item_next = None\<rparr>)))"

text \<open>The stream is the next item; reading releases it.\<close>

definition lineStream_read :: "'a option store \<Rightarrow> nat option \<Rightarrow> ('a option \<times> 'a option store \<times> nat option) option" where
  "lineStream_read s stream =
     (case stream of None \<Rightarrow> Some (None, s, None)
      | Some a \<Rightarrow> map_option (\<lambda>i. (item_value i, s(a := None), item_next i)) (s a))"

text \<open>Releasing a list ends with its first item; the lines are values here.\<close>

partial_function (option) line_list_free :: "'a option store \<Rightarrow> nat option \<Rightarrow> 'a option store option" where
  "line_list_free s list =
     (case list of None \<Rightarrow> Some s
      | Some a \<Rightarrow>
          (case s a of None \<Rightarrow> None
           | Some i \<Rightarrow> Option.bind (line_list_free s (item_next i)) (\<lambda>s. Some (s(a := None)))))"

lemma line_list_free_chain: "chain s list as \<Longrightarrow> line_list_free s list = Some (s |` (- set as))"
proof (induction as arbitrary: list)
  case (Cons a as)
  then have "(s |` (- set as))(a := None) = s |` (- set (a # as))" by (auto simp: restrict_map_def fun_eq_iff)
  then show ?case using Cons by (auto simp: line_list_free.simps [of s "Some a"])
qed (simp add: line_list_free.simps restrict_map_def)

lemma init_holds: "stream_holds (line_list_init list s) list []"
  unfolding stream_holds_def by (rule exI [of _ "[list]"]) (simp add: line_list_init_def)

lemma line_list_add_holds:
  assumes "stream_holds s list ls" "s item = None"
  shows "\<exists>s'. line_list_add item s list line = Some s' \<and> stream_holds s' list (ls @ [line]) \<and>
    (\<forall>b. b \<noteq> item \<longrightarrow> s b = None \<longrightarrow> s' b = None)"
proof -
  obtain as where as: "chain s (Some list) as" "contents s as = (if ls = [] then [None] else map Some ls)"
    using assms(1) by (auto simp: stream_holds_def)
  then obtain bs l where l: "as = bs @ [l]" by (cases as rule: rev_cases) auto
  obtain i where i: "s l = Some i" "item_next i = None" using chain_last [OF as(1)] l by auto
  have last: "last_item s list = Some l" using last_item_chain [OF as(1)] l by simp
  have new: "l \<notin> set bs" "item \<notin> set bs" "item \<noteq> l"
    using chain_distinct [OF as(1)] segment_dom [OF as(1), of item] assms(2) l by auto
  show ?thesis
  proof (cases "item_value i")
    case None
    then have "ls = []" "bs = []"
      using as(2) i(1) l by (auto split: if_splits simp: append_eq_map_conv Cons_eq_map_conv append_eq_Cons_conv)
    then show ?thesis
      using None as(1) i l last by (intro exI [of _ "s(l \<mapsto> i\<lparr>item_value := Some line\<rparr>)"])
        (auto simp: line_list_add_def stream_holds_def intro!: exI [of _ "[l]"])
  next
    case (Some v)
    then have ls: "ls \<noteq> []" using as(2) i(1) l by (auto split: if_splits simp: append_eq_Cons_conv)
    let ?s = "s(l \<mapsto> i\<lparr>item_next := Some item\<rparr>, item \<mapsto> \<lparr>item_value = Some line, item_next = None\<rparr>)"
    have "chain ?s (Some list) (as @ [item])" "contents ?s (as @ [item]) = map Some (ls @ [line])"
      using as ls i new unfolding l by auto
    from stream_holdsI [OF this(1), of "ls @ [line]"] this(2)
    have "stream_holds ?s list (ls @ [line])" by simp
    then show ?thesis using Some i(1) last by (simp add: line_list_add_def)
  qed
qed

lemma lineStream_read_holds:
  assumes "stream_holds s a (x # xs)"
  shows "\<exists>s' stream. lineStream_read s (Some a) = Some (Some x, s', stream) \<and> s' a = None \<and>
    (if xs = [] then stream = None else \<exists>b. stream = Some b \<and> stream_holds s' b xs)"
proof -
  obtain as where as: "chain s (Some a) as" "contents s as = map Some (x # xs)"
    using assms by (auto simp: stream_holds_def)
  then obtain bs i where b: "as = a # bs" "s a = Some i" "chain s (item_next i) bs" by (cases as) auto
  then have "a \<notin> set bs" using chain_distinct [OF as(1)] by simp
  then have "chain (s(a := None)) (item_next i) bs" "contents (s(a := None)) bs = map Some xs" "item_value i = Some x"
    using as(2) b by simp_all
  moreover have "bs = [] \<longleftrightarrow> xs = []" using calculation(2) by (metis contents_simps(1,4) map_is_Nil_conv)
  moreover have "\<exists>b. item_next i = Some b \<and> stream_holds (s(a := None)) b xs" if xs: "xs \<noteq> []"
  proof -
    obtain b where "item_next i = Some b" using calculation(1,4) xs by (cases bs) auto
    then show ?thesis using stream_holdsI [of "s(a := None)" b bs xs] calculation(1,2) xs by simp
  qed
  ultimately show ?thesis
    using b(2) by (auto simp: lineStream_read_def)
qed

interpretation lines: value_stream line_list_add lineStream_read
  by (unfold_locales, erule (1) line_list_add_holds, drule lineStream_read_holds, blast)
    (simp add: lineStream_read_def)

section \<open>Tokens\<close>

text \<open>The last item is looked for only when the first one holds a token.\<close>

definition token_list_add :: "nat \<Rightarrow> 'a option store \<Rightarrow> nat \<Rightarrow> 'a \<Rightarrow> 'a option store option" where
  "token_list_add item s list token =
     (case s list of None \<Rightarrow> None
      | Some first \<Rightarrow>
          if item_value first = None then Some (s(list \<mapsto> first\<lparr>item_value := Some token\<rparr>))
          else (case last_item s list of None \<Rightarrow> None
                | Some l \<Rightarrow> Some (s(l := map_option (\<lambda>i. i\<lparr>item_next := Some item\<rparr>) (s l),
                                item \<mapsto> \<lparr>item_value = Some token, item_next = None\<rparr>))))"

text \<open>Reading a token takes it out of its item, which stays.\<close>

definition tokenStream_read :: "'a option store \<Rightarrow> nat option \<Rightarrow> ('a option \<times> 'a option store \<times> nat option) option" where
  "tokenStream_read s stream =
     (case stream of None \<Rightarrow> Some (None, s, None)
      | Some a \<Rightarrow> map_option (\<lambda>i. (item_value i, s(a \<mapsto> i\<lparr>item_value := None\<rparr>), item_next i)) (s a))"

definition tokenStream_peek :: "'a option store \<Rightarrow> nat option \<Rightarrow> 'a option option" where
  "tokenStream_peek s stream = (case stream of None \<Rightarrow> Some None | Some a \<Rightarrow> map_option item_value (s a))"

definition tokenStream_isEof :: "'a option store \<Rightarrow> nat option \<Rightarrow> bool option" where
  "tokenStream_isEof s stream =
     (case stream of None \<Rightarrow> Some True | Some a \<Rightarrow> map_option (\<lambda>i. item_value i = None) (s a))"

partial_function (option) token_list_free :: "'a option store \<Rightarrow> nat \<Rightarrow> 'a option store option" where
  "token_list_free s list =
     (case s list of None \<Rightarrow> None
      | Some i \<Rightarrow>
          Option.bind (case item_next i of None \<Rightarrow> Some s | Some next \<Rightarrow> token_list_free s next)
            (\<lambda>s. Some (s(list := None))))"

text \<open>\<^verbatim>\<open>lexer_clear\<close> on the token list of the lexer's state.\<close>

definition lexer_clear :: "'a option store \<Rightarrow> nat option \<Rightarrow> ('a option store \<times> nat option) option" where
  "lexer_clear s tokens =
     (case tokens of None \<Rightarrow> Some (s, None) | Some list \<Rightarrow> map_option (\<lambda>s. (s, None)) (token_list_free s list))"

text \<open>On a list that holds values both ways of looking for the place of a new one agree.\<close>

lemma token_list_add_holds:
  assumes "stream_holds s list vs" "s item = None"
  shows "\<exists>s'. token_list_add item s list v = Some s' \<and> stream_holds s' list (vs @ [v]) \<and>
    (\<forall>b. b \<noteq> item \<longrightarrow> s b = None \<longrightarrow> s' b = None)"
proof -
  obtain as where as: "chain s (Some list) as" "contents s as = (if vs = [] then [None] else map Some vs)"
    using assms(1) by (auto simp: stream_holds_def)
  then obtain bs i where b: "as = list # bs" "s list = Some i" "chain s (item_next i) bs"
    by (cases as) (auto split: if_splits)
  have last: "last_item s list = Some (last as)" by (rule last_item_chain [OF as(1)])
  have "token_list_add item s list v = line_list_add item s list v"
  proof (cases "vs = []")
    case True
    then have "bs = []" "item_value i = None" using as(2) b by auto
    then show ?thesis
      using last b by (simp add: token_list_add_def line_list_add_def)
  next
    case False
    then have "\<forall>x \<in> set (contents s as). x \<noteq> None" using as(2) by auto
    then have "\<forall>a \<in> set as. item_value (the (s a)) \<noteq> None" by (simp add: contents_def)
    moreover have "last as \<in> set as" "list \<in> set as" using b(1) by simp_all
    ultimately have "item_value i \<noteq> None" "item_value (the (s (last as))) \<noteq> None" using b(2) by fastforce+
    then show ?thesis using last b(2) by (auto simp: token_list_add_def line_list_add_def)
  qed
  then show ?thesis using line_list_add_holds [OF assms] by simp
qed

lemma tokenStream_read_holds:
  assumes "stream_holds s a (x # xs)"
  shows "\<exists>s' stream. tokenStream_read s (Some a) = Some (Some x, s', stream) \<and>
    (if xs = [] then stream = None else \<exists>b. stream = Some b \<and> stream_holds s' b xs)"
proof -
  obtain as where as: "chain s (Some a) as" "contents s as = map Some (x # xs)"
    using assms by (auto simp: stream_holds_def)
  then obtain bs i where b: "as = a # bs" "s a = Some i" "chain s (item_next i) bs" by (cases as) auto
  let ?s = "s(a \<mapsto> i\<lparr>item_value := None\<rparr>)"
  have "a \<notin> set bs" using chain_distinct [OF as(1)] b(1) by simp
  then have t: "chain ?s (item_next i) bs" "contents ?s bs = map Some xs" "item_value i = Some x"
    using as(2) b by simp_all
  have "if xs = [] then item_next i = None else \<exists>b. item_next i = Some b \<and> stream_holds ?s b xs"
    using t(1,2) stream_holdsI [of ?s _ bs xs] by (cases bs) (auto split: if_splits)
  then show ?thesis using b(2) t(3) by (simp add: tokenStream_read_def)
qed

lemma tokenStream_peek_holds:
  "stream_holds s a xs \<Longrightarrow> tokenStream_peek s (Some a) = Some (if xs = [] then None else Some (hd xs)) \<and>
     tokenStream_isEof s (Some a) = Some (xs = [])"
proof -
  assume "stream_holds s a xs"
  then obtain as where as: "chain s (Some a) as" "contents s as = (if xs = [] then [None] else map Some xs)"
    by (auto simp: stream_holds_def)
  then obtain i where "s a = Some i" "item_value i = (if xs = [] then None else Some (hd xs))"
    by (cases as; cases xs) auto
  then show ?thesis by (simp add: tokenStream_peek_def tokenStream_isEof_def)
qed

interpretation tokens: value_stream token_list_add tokenStream_read
  by (unfold_locales, erule (1) token_list_add_holds, drule tokenStream_read_holds, blast)
    (simp add: tokenStream_read_def)

lemma token_list_free_chain: "chain s (Some list) as \<Longrightarrow> token_list_free s list = Some (s |` (- set as))"
proof (induction as arbitrary: list)
  case (Cons a as)
  then have "(s |` (- set as))(a := None) = s |` (- set (a # as))" by (auto simp: restrict_map_def fun_eq_iff)
  moreover obtain i where i: "a = list" "s list = Some i" "chain s (item_next i) as" using Cons.prems by auto
  ultimately show ?case
  proof (cases "item_next i")
    case None
    then have "as = []" using i(3) by (cases as) auto
    then show ?thesis using None i by (auto simp: token_list_free.simps [of s list] restrict_map_def fun_eq_iff)
  next
    case (Some b)
    then have "token_list_free s b = Some (s |` (- set as))" using i(3) Cons.IH by simp
    then show ?thesis using Some i \<open>(s |` (- set as))(a := None) = _\<close>
      by (simp add: token_list_free.simps [of s list])
  qed
qed simp

text \<open>The line list and the token list of the assembler are queues: values added one by one to a list
  that holds none, each with a new item, are read back from its stream in the order they were added,
  and then the stream ends; the first one is the one a look ahead sees.\<close>

theorem streams_in_order:
  assumes "stream_holds s list []" "xs \<noteq> []" "distinct (map fst xs)" "\<forall>x \<in> set xs. s (fst x) = None"
  shows "(\<exists>s'. add_all line_list_add s list xs = Some s' \<and>
      read_all lineStream_read s' (Some list) = Some (map snd xs)) \<and>
    (\<exists>s'. add_all token_list_add s list xs = Some s' \<and>
      read_all tokenStream_read s' (Some list) = Some (map snd xs) \<and>
      tokenStream_peek s' (Some list) = Some (Some (snd (hd xs))) \<and> tokenStream_isEof s' (Some list) = Some False)"
proof
  obtain s' where s': "add_all token_list_add s list xs = Some s'" "stream_holds s' list (map snd xs)"
    using tokens.add_all_holds [OF assms(1,3,4)] by auto
  then show "\<exists>s'. add_all token_list_add s list xs = Some s' \<and>
      read_all tokenStream_read s' (Some list) = Some (map snd xs) \<and>
      tokenStream_peek s' (Some list) = Some (Some (snd (hd xs))) \<and> tokenStream_isEof s' (Some list) = Some False"
    using tokens.read_all_holds [OF s'(2)] tokenStream_peek_holds [OF s'(2)] assms(2) by (simp add: hd_map)
qed (rule lines.order [OF assms])

text \<open>Two values in a fresh list.\<close>

theorem streams_in_order_witness:
  "\<exists>s'. add_all token_list_add (line_list_init 0 Map.empty) 0 [(1, ''a''), (2, ''b'')] = Some s' \<and>
     read_all tokenStream_read s' (Some 0) = Some [''a'', ''b'']"
  using streams_in_order [OF init_holds, of "[(1, ''a''), (2, ''b'')]" 0 Map.empty]
  by (auto simp: line_list_init_def)

end
