(* ===== verification/Label_Table.thy ===== *)
theory Label_Table
  imports Streams Asm_Samples
begin

text \<open>
  The label table as the code has it, \<^verbatim>\<open>asm/src/LabelTable.c\<close>: a list of linked items, the first of which
  always exists and may hold no label yet. It refines the association list of the assembler's model,
  and so does the pass over the lines that fills it. An item's value is the name and the address of a
  label; the address an allocation yields is an argument.
\<close>

section \<open>The table\<close>

definition labelTable_init :: "nat \<Rightarrow> (string \<times> nat) option store \<Rightarrow> (string \<times> nat) option store" where
  "labelTable_init table s = s(table \<mapsto> \<lparr>item_value = None, item_next = None\<rparr>)"

text \<open>The first item with the name.\<close>

partial_function (option) label_item ::
  "string \<Rightarrow> (string \<times> nat) option store \<Rightarrow> nat option \<Rightarrow> nat option option" where
  "label_item name s p =
     (case p of None \<Rightarrow> Some None
      | Some a \<Rightarrow>
          (case s a of None \<Rightarrow> None
           | Some i \<Rightarrow> if map_option fst (item_value i) = Some name then Some (Some a)
                       else label_item name s (item_next i)))"

text \<open>The address of the label found, or null.\<close>

definition table_getIfExist :: "(string \<times> nat) option store \<Rightarrow> nat \<Rightarrow> string \<Rightarrow> nat option option" where
  "table_getIfExist s table name =
     map_option (\<lambda>p. Option.bind p (\<lambda>a. map_option snd (item_value (the (s a))))) (label_item name s (Some table))"

definition table_setOrCreate ::
  "nat \<Rightarrow> (string \<times> nat) option store \<Rightarrow> nat \<Rightarrow> string \<Rightarrow> nat \<Rightarrow> (string \<times> nat) option store option" where
  "table_setOrCreate item s table name address =
     (case label_item name s (Some table) of None \<Rightarrow> None
      | Some (Some a) \<Rightarrow> Some (s(a := map_option (\<lambda>i. i\<lparr>item_value := map_option (\<lambda>(n, _). (n, address)) (item_value i)\<rparr>) (s a)))
      | Some None \<Rightarrow>
          (case last_item s table of None \<Rightarrow> None
           | Some l \<Rightarrow>
               let (s, last) = (if item_value (the (s l)) \<noteq> None
                     then (s(l := map_option (\<lambda>i. i\<lparr>item_next := Some item\<rparr>) (s l),
                             item \<mapsto> \<lparr>item_value = None, item_next = None\<rparr>), item)
                     else (s, l))
               in Some (s(last := map_option (\<lambda>i. i\<lparr>item_value := Some (name, address)\<rparr>) (s last)))))"

definition labelTable_add ::
  "nat \<Rightarrow> (string \<times> nat) option store \<Rightarrow> nat \<Rightarrow> string \<Rightarrow> (string \<times> nat) option store option" where
  "labelTable_add item s table name = table_setOrCreate item s table name 0"

definition labelInfo_getOrCreate ::
  "nat \<Rightarrow> (string \<times> nat) option store \<Rightarrow> nat \<Rightarrow> string \<Rightarrow> (string \<times> nat) option store option" where
  "labelInfo_getOrCreate item s table name =
     (case table_getIfExist s table name of None \<Rightarrow> None
      | Some None \<Rightarrow> labelTable_add item s table name
      | Some (Some _) \<Rightarrow> Some s)"

section \<open>Refinement\<close>

lemma labelTable_init_holds: "stream_holds (labelTable_init table s) table []"
  unfolding labelTable_init_def line_list_init_def [symmetric] by (rule init_holds)

text \<open>A search passes the entries with other names; it ends at the first one with the name, or at null.\<close>

lemma label_item_skips:
  "segment s p as q \<Longrightarrow> contents s as = map Some xs \<Longrightarrow> name \<notin> fst ` set xs \<Longrightarrow>
     label_item name s p = label_item name s q"
proof (induction as arbitrary: p xs)
  case (Cons a as)
  then obtain i x ys where "p = Some a" "s a = Some i" "segment s (item_next i) as q" "xs = x # ys"
    "item_value i = Some x" "contents s as = map Some ys" by (cases xs) auto
  then show ?case using Cons.IH [of "item_next i" ys] Cons.prems(3)
    by (auto simp: label_item.simps [of name s "Some a"])
qed simp

lemma label_item_null [simp]: "label_item name s None = Some None"
  by (simp add: label_item.simps)

lemma label_item_empty: "stream_holds s table [] \<Longrightarrow> label_item name s (Some table) = Some None"
  by (auto simp: stream_holds_def contents_def label_item.simps map_eq_Cons_conv)

lemma label_item_absent:
  assumes "stream_holds s table xs" "name \<notin> fst ` set xs"
  shows "label_item name s (Some table) = Some None"
proof (cases "xs = []")
  case False
  then show ?thesis using assms label_item_skips by (fastforce simp: stream_holds_def)
qed (use assms(1) label_item_empty in simp)

text \<open>Where the table has an entry, its list splits at the item that holds it.\<close>

lemma label_item_present:
  assumes "stream_holds s table (ys @ (name, address) # zs)" "name \<notin> fst ` set ys"
  obtains bs a cs i where "chain s (Some table) (bs @ a # cs)" "s a = Some i" "item_value i = Some (name, address)"
    "contents s bs = map Some ys" "contents s cs = map Some zs" "label_item name s (Some table) = Some (Some a)"
proof -
  obtain as where as: "chain s (Some table) as" "contents s as = map Some ys @ Some (name, address) # map Some zs"
    using assms(1) by (auto simp: stream_holds_def)
  then obtain bs a cs where l: "as = bs @ a # cs" "map (\<lambda>a. item_value (the (s a))) bs = map Some ys"
    "item_value (the (s a)) = Some (name, address)" "map (\<lambda>a. item_value (the (s a))) cs = map Some zs"
    by (auto simp: contents_def map_eq_append_conv map_eq_Cons_conv)
  then obtain i where i: "s a = Some i" using as(1) by auto
  have "label_item name s (Some table) = label_item name s (Some a)"
    using label_item_skips [of s "Some table" bs "Some a" ys name] as(1) l(1,2) assms(2) by (auto simp: contents_def)
  also have "\<dots> = Some (Some a)" using i l(3) by (simp add: label_item.simps [of name s "Some a"])
  finally show ?thesis using that [of bs a cs i] as(1) l i by (simp add: contents_def)
qed

lemma label_cases:
  obtains (absent) "name \<notin> fst ` set xs"
  | (present) ys address zs where "xs = ys @ (name, address) # zs" "name \<notin> fst ` set ys"
proof (cases "name \<in> fst ` set xs")
  case True
  then obtain x where "x \<in> set xs" "fst x = name" by blast
  then obtain ys x zs where "xs = ys @ x # zs" "fst x = name" "\<forall>y \<in> set ys. fst y \<noteq> name"
    using split_list_first_prop [of xs "\<lambda>x. fst x = name"] by blast
  then show ?thesis using present [of ys "snd x" zs] by (cases x) auto
qed (rule absent)

lemma getIfExist_holds:
  assumes "stream_holds s table xs"
  shows "table_getIfExist s table name = Some (labelInfo_getIfExist xs name)"
proof (cases rule: label_cases [of name xs])
  case absent
  then have "map_of xs name = None" by (simp add: map_of_eq_None_iff)
  then show ?thesis
    using label_item_absent [OF assms absent] by (simp add: table_getIfExist_def labelInfo_getIfExist_def)
next
  case (present ys address zs)
  obtain bs a cs i where a: "s a = Some i" "item_value i = Some (name, address)"
    "label_item name s (Some table) = Some (Some a)"
    by (rule label_item_present [OF assms [unfolded present(1)] present(2)])
  have "map_of xs name = Some address"
    using present by (simp add: map_add_def map_of_eq_None_iff [THEN iffD2])
  then show ?thesis using a by (simp add: table_getIfExist_def labelInfo_getIfExist_def)
qed

text \<open>The table of the model after setting a name it has, or has not.\<close>

lemma labelTable_set_split:
  "name \<notin> fst ` set ys \<Longrightarrow>
     labelTable_setOrCreate (ys @ (name, old) # zs) name address = ys @ (name, address) # zs"
  "name \<notin> fst ` set ys \<Longrightarrow> labelTable_setOrCreate ys name address = ys @ [(name, address)]"
  by (induction ys) auto

lemma setOrCreate_absent:
  assumes "stream_holds s table xs" "s item = None" "name \<notin> fst ` set xs"
  shows "table_setOrCreate item s table name address = line_list_add item s table (name, address)"
proof -
  obtain as where as: "chain s (Some table) as" "as \<noteq> []"
    using assms(1) by (fastforce simp: stream_holds_def)
  then obtain i where i: "s (last as) = Some i" "item_next i = None" using chain_last by blast
  then have "last as \<noteq> item" using assms(2) by auto
  moreover have "last_item s table = Some (last as)" by (rule last_item_chain [OF as(1)])
  ultimately show ?thesis
    using i label_item_absent [OF assms(1,3)]
    by (simp add: table_setOrCreate_def line_list_add_def Let_def fun_upd_twist)
qed

lemma setOrCreate_present:
  assumes "stream_holds s table (ys @ (name, old) # zs)" "name \<notin> fst ` set ys"
  shows "\<exists>s'. table_setOrCreate item s table name address = Some s' \<and>
    stream_holds s' table (ys @ (name, address) # zs) \<and> dom s' = dom s"
proof -
  obtain bs a cs i where a: "chain s (Some table) (bs @ a # cs)" "s a = Some i" "item_value i = Some (name, old)"
    "contents s bs = map Some ys" "contents s cs = map Some zs" "label_item name s (Some table) = Some (Some a)"
    by (rule label_item_present [OF assms])
  let ?s = "s(a \<mapsto> i\<lparr>item_value := Some (name, address)\<rparr>)"
  have "a \<notin> set bs" "a \<notin> set cs" using chain_distinct [OF a(1)] by auto
  then have "chain ?s (Some table) (bs @ a # cs)" "contents ?s (bs @ a # cs) = map Some (ys @ (name, address) # zs)"
    using a(1-5) by auto
  from stream_holdsI [OF this(1), of "ys @ (name, address) # zs"] this(2)
  have "stream_holds ?s table (ys @ (name, address) # zs)" by simp
  then show ?thesis using a(2,3,6) by (auto simp: table_setOrCreate_def insert_absorb domI)
qed

lemma setOrCreate_holds:
  assumes "stream_holds s table xs" "s item = None"
  shows "\<exists>s'. table_setOrCreate item s table name address = Some s' \<and>
    stream_holds s' table (labelTable_setOrCreate xs name address) \<and> dom s' \<subseteq> insert item (dom s)"
proof (cases rule: label_cases [of name xs])
  case absent
  obtain s' where s': "line_list_add item s table (name, address) = Some s'"
    "stream_holds s' table (xs @ [(name, address)])" "\<forall>b. b \<noteq> item \<longrightarrow> s b = None \<longrightarrow> s' b = None"
    using line_list_add_holds [OF assms] by blast
  have "dom s' \<subseteq> insert item (dom s)"
  proof
    fix b assume "b \<in> dom s'"
    then show "b \<in> insert item (dom s)" using s'(3) by (cases "s b") auto
  qed
  then show ?thesis
    using s'(1,2) setOrCreate_absent [OF assms absent] absent by (simp add: labelTable_set_split(2))
next
  case (present ys old zs)
  show ?thesis
    using setOrCreate_present [OF assms(1) [unfolded present(1)] present(2), of item address] present
    by (auto simp: labelTable_set_split(1))
qed

lemma getOrCreate_holds:
  assumes "stream_holds s table xs" "s item = None"
  shows "\<exists>s'. labelInfo_getOrCreate item s table name = Some s' \<and>
    stream_holds s' table (if labelInfo_getIfExist xs name = None then labelTable_setOrCreate xs name 0 else xs)"
  using setOrCreate_holds [OF assms, of name 0] getIfExist_holds [OF assms(1), of name] assms(1)
  by (auto simp: labelInfo_getOrCreate_def labelTable_add_def)

section \<open>The labels of a program\<close>

text \<open>\<^verbatim>\<open>asm_processLabels\<close> on the linked table: a line's label, with the item a new one goes to.\<close>

definition process_label_in ::
  "nat \<Rightarrow> (string \<times> nat) option store \<times> nat \<Rightarrow> line \<times> nat \<Rightarrow>
     (diagnostic + (string \<times> nat) option store \<times> nat) option" where
  "process_label_in table st x =
     (let (s, address) = st; (l, item) = x; next = address + content_size (ln_content l)
      in case ln_label l of None \<Rightarrow> Some (Inr (s, next))
         | Some name \<Rightarrow>
             (case table_getIfExist s table name of None \<Rightarrow> None
              | Some (Some _) \<Rightarrow> Some (asm_fail ZLASM_DIAGNOSTIC_SECTION_ERROR)
              | Some None \<Rightarrow> map_option (\<lambda>s. Inr (s, next)) (table_setOrCreate item s table name address)))"

fun process_labels_in ::
  "nat \<Rightarrow> (string \<times> nat) option store \<times> nat \<Rightarrow> (line \<times> nat) list \<Rightarrow>
     (diagnostic + (string \<times> nat) option store \<times> nat) option" where
  "process_labels_in table st [] = Some (Inr st)"
| "process_labels_in table st (x # xs) =
     (case process_label_in table st x of None \<Rightarrow> None
      | Some (Inl d) \<Rightarrow> Some (Inl d)
      | Some (Inr st) \<Rightarrow> process_labels_in table st xs)"

text \<open>The linked table and the model's are in step.\<close>

fun in_step :: "nat \<Rightarrow> diagnostic + (string \<times> nat) option store \<times> nat \<Rightarrow>
    diagnostic + (string \<times> nat) list \<times> nat \<Rightarrow> bool" where
  "in_step table (Inl d) r \<longleftrightarrow> r = Inl d"
| "in_step table (Inr (s, address)) r \<longleftrightarrow> (\<exists>xs. r = Inr (xs, address) \<and> stream_holds s table xs)"

lemma process_label_in_step:
  assumes "stream_holds s table xs" "s item = None"
  shows "\<exists>r. process_label_in table (s, address) (l, item) = Some r \<and>
    in_step table r (process_label (xs, address) l) \<and>
    (\<forall>s' address'. r = Inr (s', address') \<longrightarrow> dom s' \<subseteq> insert item (dom s))"
proof (cases "ln_label l")
  case None
  then show ?thesis using assms(1) by (auto simp: process_label_in_def process_label_def)
next
  case (Some name)
  show ?thesis
  proof (cases "labelInfo_getIfExist xs name")
    case None
    then show ?thesis
      using Some setOrCreate_holds [OF assms, of name address] getIfExist_holds [OF assms(1), of name]
      by (auto simp: process_label_in_def process_label_def)
  next
    case (Some a)
    then show ?thesis
      using \<open>ln_label l = Some name\<close> getIfExist_holds [OF assms(1), of name]
      by (simp add: process_label_in_def process_label_def asm_fail_def)
  qed
qed

lemma process_labels_in_step:
  "stream_holds s table xs \<Longrightarrow> distinct (map snd ls) \<Longrightarrow> \<forall>x \<in> set ls. s (snd x) = None \<Longrightarrow>
     \<exists>r. process_labels_in table (s, address) ls = Some r \<and>
       in_step table r (try_fold process_label (xs, address) (map fst ls))"
proof (induction ls arbitrary: s xs address)
  case (Cons x ls)
  obtain l item where x: "x = (l, item)" by (cases x)
  obtain r where r: "process_label_in table (s, address) (l, item) = Some r"
    "in_step table r (process_label (xs, address) l)"
    "\<forall>s' address'. r = Inr (s', address') \<longrightarrow> dom s' \<subseteq> insert item (dom s)"
    using process_label_in_step [OF Cons.prems(1), of item address l] Cons.prems(3) x by auto
  show ?case
  proof (cases r)
    case (Inl d)
    then show ?thesis using r(1,2) x by simp
  next
    case (Inr y)
    then obtain s' next' ys where y: "r = Inr (s', next')" "process_label (xs, address) l = Inr (ys, next')"
      "stream_holds s' table ys"
      using r(2) by (cases y) auto
    have "s' (snd z) = None" if z: "z \<in> set ls" for z
    proof -
      have "snd z \<noteq> item" "s (snd z) = None" using Cons.prems(2,3) x z by auto
      then have "snd z \<notin> insert item (dom s)" by auto
      then show ?thesis using r(3) y(1) by blast
    qed
    then show ?thesis using Cons.IH [OF y(3), of next'] Cons.prems(2) r(1) y(1,2) x by simp
  qed
qed simp

text \<open>C10: The linked label table refines the association list. Filled from the lines of a context, each
  new label in a new item, it ends with the same failure as the pass of the model, or answers every
  name, also one that is no label, as the table of the model does; no step follows a dangling pointer.\<close>

theorem label_table_refines:
  assumes "distinct items" "length items = length (ac_lines c)" "\<forall>i \<in> set items. i \<noteq> table \<and> s i = None"
  shows "\<exists>r. process_labels_in table (labelTable_init table s, 0) (zip (ac_lines c) items) = Some r \<and>
    (case asm_processLabels c of
       Inl d \<Rightarrow> r = Inl d
     | Inr c' \<Rightarrow> \<exists>s' end_address. r = Inr (s', end_address) \<and>
         (\<forall>name. table_getIfExist s' table name = Some (labelInfo_getIfExist (ac_labels c') name)))"
proof -
  let ?s = "labelTable_init table s" and ?ls = "zip (ac_lines c) items"
  have "\<forall>x \<in> set ?ls. ?s (snd x) = None"
    using assms(3) by (auto simp: labelTable_init_def dest: set_zip_rightD)
  then obtain r where r: "process_labels_in table (?s, 0) ?ls = Some r"
    "in_step table r (try_fold process_label ([], 0) (ac_lines c))"
    using process_labels_in_step [OF labelTable_init_holds [of table s], of ?ls 0] assms(1,2) by auto
  show ?thesis
  proof (cases "try_fold process_label ([], 0) (ac_lines c)")
    case (Inl d)
    then have "r = Inl d" using r(2) by (cases r) auto
    then show ?thesis using Inl r(1) by (simp add: asm_processLabels_def)
  next
    case (Inr y)
    then obtain s' xs e where y: "r = Inr (s', e)" "y = (xs, e)" "stream_holds s' table xs"
      using r(2) by (cases r) auto
    then show ?thesis using Inr r(1) getIfExist_holds by (simp add: asm_processLabels_def)
  qed
qed

text \<open>The labels of the sample program: the second one stands at address 16.\<close>

theorem label_table_refines_witness:
  "\<exists>s' e. process_labels_in 0 (labelTable_init 0 Map.empty, 0) (zip (ac_lines jump_context) [1, 2, 3]) =
       Some (Inr (s', e)) \<and>
     table_getIfExist s' 0 ''done'' = Some (Some 16) \<and> table_getIfExist s' 0 ''loop'' = Some None"
proof -
  have "length (ac_lines jump_context) = 3" by (simp add: jump_context_def)
  then show ?thesis
    using label_table_refines [where items = "[1, 2, 3]" and c = jump_context and table = 0 and s = Map.empty] jump_processed_labels
    by (auto simp: jump_labelled_def labelInfo_getIfExist_def)
qed

end
