(* ===== verification/Parser_Streams.thy ===== *)
theory Parser_Streams
  imports Streams Parser
begin

text \<open>
  The parser as the code has it, \<^verbatim>\<open>asm/src/Parser.c\<close>: it reads the linked tokens of a stream, links the
  tokens of each line to a list of their own, reads the line from there and adds it to the linked
  lines. It refines the parser on lists of tokens. An allocator gives the address of each new item.
\<close>

section \<open>Reading and appending\<close>

definition read_token ::
  "token option store \<Rightarrow> nat option \<Rightarrow> (token option \<times> token option store \<times> nat option) option" where
  "read_token s stream =
     (case tokenStream_isEof s stream of None \<Rightarrow> None
      | Some True \<Rightarrow> Some (None, s, stream)
      | Some False \<Rightarrow> tokenStream_read s stream)"

text \<open>The first and the last item of the list appended to.\<close>

definition append_token ::
  "nat \<Rightarrow> token option store \<Rightarrow> nat option \<Rightarrow> nat option \<Rightarrow> token \<Rightarrow>
     (token option store \<times> nat option \<times> nat option) option" where
  "append_token item s first latest token =
     (let s = s(item \<mapsto> \<lparr>item_value = Some token, item_next = None\<rparr>)
      in if first = None then Some (s, Some item, Some item)
         else case latest of None \<Rightarrow> None
              | Some l \<Rightarrow> map_option (\<lambda>i. (s(l \<mapsto> i\<lparr>item_next := Some item\<rparr>), first, Some item)) (s l))"

text \<open>The output of the macro expander, which has the same function to append to it.\<close>

fun append_tokens ::
  "(token option store \<Rightarrow> nat) \<Rightarrow> token option store \<Rightarrow> nat option \<Rightarrow> nat option \<Rightarrow> token list \<Rightarrow>
     (token option store \<times> nat option) option" where
  "append_tokens new s first latest [] = Some (s, first)"
| "append_tokens new s first latest (t # ts) =
     Option.bind (append_token (new s) s first latest t) (\<lambda>(s, first, latest). append_tokens new s first latest ts)"

section \<open>The tokens of a line\<close>

partial_function (option) skip_blank ::
  "token option store \<Rightarrow> nat option \<Rightarrow> token option \<Rightarrow> (token option \<times> token option store \<times> nat option) option" where
  "skip_blank s stream current =
     (case current of None \<Rightarrow> Some (None, s, stream)
      | Some t \<Rightarrow>
          if tok_type t = TOK_COMMENT \<or> tok_type t = TOK_NEWLINE
          then Option.bind (read_token s stream) (\<lambda>(current, s, stream). skip_blank s stream current)
          else Some (Some t, s, stream))"

text \<open>The second loop, up to the end of the line.\<close>

partial_function (option) link_tokens ::
  "(token option store \<Rightarrow> nat) \<Rightarrow> nat option \<Rightarrow> token option store \<Rightarrow> nat option \<Rightarrow> nat option \<Rightarrow> token option \<Rightarrow>
     (token option store \<times> nat option) option" where
  "link_tokens new first s stream latest current =
     (case current of None \<Rightarrow> Some (s, stream)
      | Some t \<Rightarrow>
          if tok_type t = TOK_NEWLINE \<or> tok_type t = TOK_COMMENT then Some (s, stream)
          else Option.bind (if tok_type t = TOK_COMMA then Some (s, first, latest)
                            else append_token (new s) s first latest t) (\<lambda>(s, first, latest).
               Option.bind (read_token s stream) (\<lambda>(current, s, stream).
               link_tokens new first s stream latest current)))"

text \<open>The stream after the line and the line's own list, null at the end of the tokens.\<close>

definition get_line_in ::
  "(token option store \<Rightarrow> nat) \<Rightarrow> token option store \<Rightarrow> nat option \<Rightarrow>
     (token option store \<times> nat option \<times> nat option) option" where
  "get_line_in new s stream =
     Option.bind (read_token s stream) (\<lambda>(current, s, stream).
     Option.bind (skip_blank s stream current) (\<lambda>(current, s, stream).
     case current of None \<Rightarrow> Some (s, stream, None)
     | Some first_token \<Rightarrow>
         Option.bind (append_token (new s) s None None first_token) (\<lambda>(s, first, latest).
         Option.bind (read_token s stream) (\<lambda>(current, s, stream).
         Option.bind (if tok_type first_token = TOK_LABEL_INIT \<and> map_option tok_type current = Some TOK_NEWLINE
                      then read_token s stream else Some (current, s, stream)) (\<lambda>(current, s, stream).
         map_option (\<lambda>(s, stream). (s, stream, first)) (link_tokens new first s stream latest current))))))"

section \<open>Lines\<close>

text \<open>The token read last when it has one of the types, and then the token after it.\<close>

definition accept ::
  "token_type list \<Rightarrow> token option \<times> token option store \<times> nat option \<Rightarrow>
     (token option \<times> token option \<times> token option store \<times> nat option) option" where
  "accept types st =
     (let (current, s, stream) = st
      in case current of None \<Rightarrow> Some (None, st)
         | Some t \<Rightarrow> if tok_type t \<in> set types then map_option (\<lambda>st. (Some t, st)) (read_token s stream)
                     else Some (None, st))"

definition read_statement_in ::
  "token \<Rightarrow> token option store \<Rightarrow> nat option \<Rightarrow> (diagnostic + statement \<times> token option store) option" where
  "read_statement_in opcode s stream =
     Option.bind (read_token s stream) (\<lambda>st.
     Option.bind (accept [TOK_ID] st) (\<lambda>(cond, st).
     Option.bind (accept [TOK_REGISTER] st) (\<lambda>(reg1, st).
     Option.bind (if reg1 = None then Some (None, st) else accept [TOK_REGISTER] st) (\<lambda>(reg2, st).
     Option.bind (accept immediate_types st) (\<lambda>(imm, current, s, stream).
     Some (case current of
         Some t \<Rightarrow> asm_token_fail ZLASM_DIAGNOSTIC_UNEXPECTED_TOKEN (Some t)
       | None \<Rightarrow> Inr ((statement_init opcode)
                   \<lparr>st_cond := cond, st_reg1 := reg1, st_reg2 := reg2, st_imm := imm\<rparr>, s)))))))"

partial_function (option) read_arguments_in ::
  "directive \<Rightarrow> token option store \<Rightarrow> nat option \<Rightarrow> (directive \<times> token option store) option" where
  "read_arguments_in d s stream =
     Option.bind (read_token s stream) (\<lambda>(current, s, stream).
       case current of None \<Rightarrow> Some (d, s)
       | Some t \<Rightarrow> read_arguments_in (directive_add_arg d t) s stream)"

definition read_directive_in ::
  "token \<Rightarrow> token option store \<Rightarrow> nat option \<Rightarrow> (diagnostic + directive \<times> token option store) option" where
  "read_directive_in name s stream =
     (case directive_init name of
        None \<Rightarrow> Some (asm_token_fail ZLASM_DIAGNOSTIC_UNKNOWN_DIRECTIVE (Some name))
      | Some d \<Rightarrow> map_option Inr (read_arguments_in d s stream))"

definition read_content_in ::
  "token \<Rightarrow> token option store \<Rightarrow> nat option \<Rightarrow> (diagnostic + line_content \<times> token option store) option" where
  "read_content_in t s stream =
     (case tok_type t of
        TOK_ID \<Rightarrow> map_option (\<lambda>r. sbind r (\<lambda>(x, s). Inr (L_STMT x, s))) (read_statement_in t s stream)
      | TOK_DIRECTIVE \<Rightarrow> map_option (\<lambda>r. sbind r (\<lambda>(d, s). Inr (L_DIR d, s))) (read_directive_in t s stream)
      | _ \<Rightarrow> Some (asm_token_fail ZLASM_DIAGNOSTIC_UNEXPECTED_TOKEN (Some t)))"

definition read_line_in ::
  "token option store \<Rightarrow> nat option \<Rightarrow> (diagnostic + line \<times> token option store) option" where
  "read_line_in s stream =
     Option.bind (read_token s stream) (\<lambda>(current, s, stream).
     case current of None \<Rightarrow> Some (asm_fail ZLASM_DIAGNOSTIC_UNEXPECTED_TOKEN)
     | Some t \<Rightarrow>
         if tok_type t = TOK_LABEL_INIT
         then Option.bind (read_token s stream) (\<lambda>(current, s, stream).
              case current of None \<Rightarrow> Some (asm_token_fail ZLASM_DIAGNOSTIC_UNEXPECTED_TOKEN (Some t))
              | Some u \<Rightarrow> map_option (\<lambda>r. sbind r (\<lambda>(k, s). Inr (make_line (Some (tok_value t)) k, s)))
                            (read_content_in u s stream))
         else map_option (\<lambda>r. sbind r (\<lambda>(k, s). Inr (make_line None k, s))) (read_content_in t s stream))"

section \<open>The parser\<close>

text \<open>The context of the parser: the first item of the lines, null when there is none, and their number.\<close>

record parser_context =
  pc_lines :: "nat option"
  pc_lines_count :: nat

definition parser_init :: "nat \<Rightarrow> line option store \<Rightarrow> line option store \<times> parser_context" where
  "parser_init item z = (line_list_init item z, \<lparr>pc_lines = Some item, pc_lines_count = 0\<rparr>)"

definition parser_addLine ::
  "nat \<Rightarrow> line option store \<Rightarrow> parser_context \<Rightarrow> line \<Rightarrow> (line option store \<times> parser_context) option" where
  "parser_addLine item z c line =
     (case pc_lines c of None \<Rightarrow> None
      | Some list \<Rightarrow> map_option (\<lambda>z. (z, c\<lparr>pc_lines_count := pc_lines_count c + 1\<rparr>)) (line_list_add item z list line))"

definition parser_clear :: "line option store \<Rightarrow> parser_context \<Rightarrow> (line option store \<times> parser_context) option" where
  "parser_clear z c =
     map_option (\<lambda>z. (z, \<lparr>pc_lines = None, pc_lines_count = 0\<rparr>)) (line_list_free z (pc_lines c))"

partial_function (option) parse_in ::
  "(token option store \<Rightarrow> nat) \<Rightarrow> (line option store \<Rightarrow> nat) \<Rightarrow> token option store \<Rightarrow> nat option \<Rightarrow>
     line option store \<times> parser_context \<Rightarrow> (diagnostic + line option store \<times> parser_context) option" where
  "parse_in new new_line s stream st =
     Option.bind (get_line_in new s stream) (\<lambda>(s, stream, line_stream).
     case line_stream of None \<Rightarrow> Some (Inr st)
     | Some first \<Rightarrow>
         Option.bind (read_line_in s (Some first)) (\<lambda>r.
         case r of Inl d \<Rightarrow> Some (Inl d)
         | Inr (line, s) \<Rightarrow>
             Option.bind (parser_addLine (new_line (fst st)) (fst st) (snd st) line) (\<lambda>st.
             parse_in new new_line s stream st)))"

section \<open>Queues of tokens\<close>

text \<open>Items that hold tokens, and what reading them may change: their values, and nothing else.\<close>

definition queued :: "token option store \<Rightarrow> nat option \<Rightarrow> nat list \<Rightarrow> token list \<Rightarrow> bool" where
  "queued s p as ts \<longleftrightarrow> chain s p as \<and> contents s as = map Some ts"

definition moves :: "nat list \<Rightarrow> token option store \<Rightarrow> nat list \<Rightarrow> token option store \<Rightarrow> bool" where
  "moves as s as' s' \<longleftrightarrow> set as' \<subseteq> set as \<and> dom s' = dom s \<and> (\<forall>b. b \<notin> set as \<longrightarrow> s' b = s b)"

text \<open>A queue whose first token has been read.\<close>

definition ahead :: "token option store \<Rightarrow> token option \<Rightarrow> nat option \<Rightarrow> nat list \<Rightarrow> token list \<Rightarrow> bool" where
  "ahead s current p as ts \<longleftrightarrow> current = (case ts of [] \<Rightarrow> None | t # _ \<Rightarrow> Some t) \<and> queued s p as (tl ts)"

lemma moves_refl [simp]: "moves as s as s"
  by (simp add: moves_def)

lemma moves_trans: "moves as s bs s' \<Longrightarrow> moves bs s' cs s'' \<Longrightarrow> moves as s cs s''"
  unfolding moves_def by auto

lemma queued_frame: "queued s p as ts \<Longrightarrow> (\<And>b. b \<in> set as \<Longrightarrow> s' b = s b) \<Longrightarrow> queued s' p as ts"
  using segment_cong [of as s s' p None] contents_cong [of as s s'] by (simp add: queued_def)

lemma queued_moves: "queued s p as ts \<Longrightarrow> moves bs s cs s' \<Longrightarrow> set as \<inter> set bs = {} \<Longrightarrow> queued s' p as ts"
  by (erule queued_frame) (auto simp: moves_def)

lemma queued_Nil [simp]: "queued s p as [] \<longleftrightarrow> p = None \<and> as = []"
  by (auto simp: queued_def)

lemma queued_Cons:
  "queued s p as (t # ts) \<longleftrightarrow> (\<exists>a bs i. p = Some a \<and> as = a # bs \<and> s a = Some i \<and> item_value i = Some t \<and>
     queued s (item_next i) bs ts)"
  by (cases as) (auto simp: queued_def)

lemma queued_distinct: "queued s p as ts \<Longrightarrow> distinct as"
  unfolding queued_def using chain_distinct by blast

lemma queued_dom: "queued s p as ts \<Longrightarrow> b \<in> set as \<Longrightarrow> s b \<noteq> None"
  unfolding queued_def using segment_dom by blast

lemma ahead_simps [simp]:
  "ahead s current p as [] \<longleftrightarrow> current = None \<and> p = None \<and> as = []"
  "ahead s current p as (t # ts) \<longleftrightarrow> current = Some t \<and> queued s p as ts"
  by (simp_all add: ahead_def)

lemma read_queued:
  assumes "queued s p as ts"
  shows "\<exists>current s' p' as'. read_token s p = Some (current, s', p') \<and> ahead s' current p' as' ts \<and> moves as s as' s'"
proof (cases ts)
  case Nil
  then show ?thesis using assms by (simp add: read_token_def tokenStream_isEof_def)
next
  case (Cons t us)
  then obtain a bs i where a: "p = Some a" "as = a # bs" "s a = Some i" "item_value i = Some t"
    "queued s (item_next i) bs us"
    using assms by (auto simp: queued_Cons)
  let ?s = "s(a \<mapsto> i\<lparr>item_value := None\<rparr>)"
  have "a \<notin> set bs" using queued_distinct [OF assms] a(2) by simp
  then have "queued ?s (item_next i) bs us" by (intro queued_frame [OF a(5)]) auto
  moreover have "moves as s bs ?s" using a(2,3) by (auto simp: moves_def)
  ultimately show ?thesis
    using Cons a by (auto simp: read_token_def tokenStream_isEof_def tokenStream_read_def)
qed

text \<open>Reading on from a token that has been read.\<close>

lemma read_ahead:
  assumes "ahead s (Some t) p as ts"
  shows "\<exists>current s' p' as'. read_token s p = Some (current, s', p') \<and> ahead s' current p' as' (tl ts) \<and> moves as s as' s'"
  using read_queued [of s p as "tl ts"] assms by (cases ts) auto

lemma append_queued:
  assumes "queued s first bs us" "us \<noteq> []" "s item = None"
  shows "\<exists>s'. append_token item s first (Some (last bs)) t = Some (s', first, Some item) \<and>
    queued s' first (bs @ [item]) (us @ [t]) \<and> dom s' = insert item (dom s) \<and>
    (\<forall>b. b \<notin> set bs \<longrightarrow> b \<noteq> item \<longrightarrow> s' b = s b)"
proof -
  have q: "chain s first bs" "contents s bs = map Some us" using assms(1) by (simp_all add: queued_def)
  then have "bs \<noteq> []" using assms(2) by auto
  then obtain cs l where l: "bs = cs @ [l]" by (cases bs rule: rev_cases) auto
  obtain i where i: "s l = Some i" "item_next i = None" using chain_last [OF q(1)] l by auto
  have new: "l \<notin> set cs" "item \<notin> set cs" "item \<noteq> l"
    using chain_distinct [OF q(1)] segment_dom [OF q(1), of item] assms(3) l by auto
  let ?s = "s(item \<mapsto> \<lparr>item_value = Some t, item_next = None\<rparr>, l \<mapsto> i\<lparr>item_next := Some item\<rparr>)"
  have "first \<noteq> None" using q(1) l by (cases cs) auto
  moreover have "queued ?s first (bs @ [item]) (us @ [t])"
    using q l i new by (auto simp: queued_def)
  ultimately show ?thesis
    using i(1) new(3) l by (auto simp: append_token_def)
qed

lemma append_first:
  "append_token item s None None t = Some (s(item \<mapsto> \<lparr>item_value = Some t, item_next = None\<rparr>), Some item, Some item)"
  by (simp add: append_token_def)

section \<open>The tokens of a line, refined\<close>

lemma skip_blank_queued:
  "ahead s current p as ts \<Longrightarrow>
     \<exists>current' s' p' as'. skip_blank s p current = Some (current', s', p') \<and>
       ahead s' current' p' as' (dropWhile (\<lambda>t. tok_type t = TOK_COMMENT \<or> tok_type t = TOK_NEWLINE) ts) \<and>
       moves as s as' s'"
proof (induction ts arbitrary: s current p as)
  case Nil
  then show ?case by (simp add: skip_blank.simps)
next
  case (Cons t ts)
  show ?case
  proof (cases "tok_type t = TOK_COMMENT \<or> tok_type t = TOK_NEWLINE")
    case True
    obtain current2 s2 p2 as2 where r: "read_token s p = Some (current2, s2, p2)" "ahead s2 current2 p2 as2 ts"
      "moves as s as2 s2"
      using read_ahead [of s t p as "t # ts"] Cons.prems by auto
    then show ?thesis
      using Cons.IH [OF r(2)] Cons.prems True moves_trans [OF r(3)]
      by (fastforce simp: skip_blank.simps [of s p])
  next
    case False
    then show ?thesis using Cons.prems by (auto simp: skip_blank.simps [of s p])
  qed
qed

text \<open>An allocator yields addresses that are not in use.\<close>

definition fresh :: "('a store \<Rightarrow> nat) \<Rightarrow> bool" where
  "fresh new \<longleftrightarrow> (\<forall>s. finite (dom s) \<longrightarrow> s (new s) = None)"

abbreviation inside :: "token \<Rightarrow> bool" where
  "inside t \<equiv> tok_type t \<noteq> TOK_NEWLINE \<and> tok_type t \<noteq> TOK_COMMENT"

abbreviation not_comma :: "token \<Rightarrow> bool" where
  "not_comma t \<equiv> tok_type t \<noteq> TOK_COMMA"

text \<open>The tokens still to be read and those linked so far are apart.\<close>

lemma link_tokens_queued:
  "ahead s current p as ts \<Longrightarrow> queued s first bs us \<Longrightarrow> us \<noteq> [] \<Longrightarrow> set as \<inter> set bs = {} \<Longrightarrow>
     finite (dom s) \<Longrightarrow> fresh new \<Longrightarrow>
     \<exists>s' p' as' bs'. link_tokens new first s p (Some (last bs)) current = Some (s', p') \<and>
       queued s' p' as' (tl (dropWhile inside ts)) \<and>
       queued s' first bs' (us @ filter not_comma (takeWhile inside ts)) \<and>
       set as' \<inter> set bs' = {} \<and> finite (dom s')"
proof (induction ts arbitrary: s current p as bs us)
  case Nil
  then show ?case by (auto simp: link_tokens.simps)
next
  case (Cons t ts)
  have t: "current = Some t" "queued s p as ts" using Cons.prems(1) by simp_all
  show ?case
  proof (cases "inside t")
    case False
    then show ?thesis
      using Cons.prems t by (auto simp: link_tokens.simps [of new first s p])
  next
    case True
    obtain s1 bs1 where link: "(if tok_type t = TOK_COMMA then Some (s, first, Some (last bs))
        else append_token (new s) s first (Some (last bs)) t) = Some (s1, first, Some (last bs1))"
      "queued s1 first bs1 (us @ filter not_comma [t])" "queued s1 p as ts" "set as \<inter> set bs1 = {}" "finite (dom s1)"
    proof (cases "tok_type t = TOK_COMMA")
      case True
      then show ?thesis using that [of s bs] Cons.prems(2-5) t(2) by simp
    next
      case False
      have new: "s (new s) = None" using Cons.prems(5,6) by (simp add: fresh_def)
      obtain s' where a: "append_token (new s) s first (Some (last bs)) t = Some (s', first, Some (new s))"
        "queued s' first (bs @ [new s]) (us @ [t])" "dom s' = insert (new s) (dom s)"
        "\<forall>b. b \<notin> set bs \<longrightarrow> b \<noteq> new s \<longrightarrow> s' b = s b"
        using append_queued [OF Cons.prems(2,3) new] by blast
      have as: "new s \<notin> set as" using queued_dom [OF t(2)] new by blast
      then have "queued s' p as ts" using a(4) Cons.prems(4) by (intro queued_frame [OF t(2)]) auto
      then show ?thesis using that [of s' "bs @ [new s]"] a False as Cons.prems(4,5) by auto
    qed
    obtain current2 s2 p2 as2 where r: "read_token s1 p = Some (current2, s2, p2)" "ahead s2 current2 p2 as2 ts"
      "moves as s1 as2 s2"
      using read_queued [OF link(3)] by blast
    have line: "queued s2 first bs1 (us @ filter not_comma [t])" "us @ filter not_comma [t] \<noteq> []"
      using queued_moves [OF link(2) r(3)] link(4) Cons.prems(3) by blast+
    have apart: "set as2 \<inter> set bs1 = {}" "finite (dom s2)" using r(3) link(4,5) by (auto simp: moves_def)
    have "\<exists>s' p' as' bs'. link_tokens new first s2 p2 (Some (last bs1)) current2 = Some (s', p') \<and>
       queued s' p' as' (tl (dropWhile inside ts)) \<and>
       queued s' first bs' ((us @ filter not_comma [t]) @ filter not_comma (takeWhile inside ts)) \<and>
       set as' \<inter> set bs' = {} \<and> finite (dom s')"
      by (rule Cons.IH [OF r(2) line apart Cons.prems(6)])
    moreover have "link_tokens new first s p (Some (last bs)) current =
        link_tokens new first s2 p2 (Some (last bs1)) current2"
      using True t(1) link(1) r(1) by (subst link_tokens.simps) (auto split: if_splits)
    moreover have "filter not_comma (takeWhile inside (t # ts)) =
        filter not_comma [t] @ filter not_comma (takeWhile inside ts)" "dropWhile inside (t # ts) = dropWhile inside ts"
      using True by simp_all
    ultimately show ?thesis by (simp only: append_assoc)
  qed
qed

text \<open>The newline that follows a label is read over.\<close>

definition after_label :: "token \<Rightarrow> token list \<Rightarrow> token list" where
  "after_label first rest =
     (case rest of [] \<Rightarrow> []
      | t # ts \<Rightarrow> if tok_type first = TOK_LABEL_INIT \<and> tok_type t = TOK_NEWLINE then ts else rest)"

lemma parser_get_line_unfold:
  "parser_get_line ts =
     (case dropWhile (\<lambda>t. tok_type t = TOK_COMMENT \<or> tok_type t = TOK_NEWLINE) ts of
        [] \<Rightarrow> None
      | t # rest \<Rightarrow> Some (t # filter not_comma (takeWhile inside (after_label t rest)),
                           tl (dropWhile inside (after_label t rest))))"
  unfolding parser_get_line_def after_label_def Let_def by (auto split: list.split)

lemma after_label_queued:
  assumes "ahead s current p as rest"
  shows "\<exists>current' s' p' as'.
    (if tok_type t = TOK_LABEL_INIT \<and> map_option tok_type current = Some TOK_NEWLINE
     then read_token s p else Some (current, s, p)) = Some (current', s', p') \<and>
    ahead s' current' p' as' (after_label t rest) \<and> moves as s as' s'"
  using assms read_ahead [of s _ p as rest] by (cases rest) (auto simp: after_label_def)

lemma get_line_queued:
  assumes "queued s p as ts" "finite (dom s)" "fresh new"
  shows "\<exists>s' p' first. get_line_in new s p = Some (s', p', first) \<and>
    (case parser_get_line ts of
       None \<Rightarrow> first = None
     | Some (line, rest) \<Rightarrow> first \<noteq> None \<and> finite (dom s') \<and>
         (\<exists>as' bs. queued s' p' as' rest \<and> queued s' first bs line \<and> set as' \<inter> set bs = {}))"
proof -
  let ?blank = "\<lambda>t. tok_type t = TOK_COMMENT \<or> tok_type t = TOK_NEWLINE"
  obtain c1 s1 p1 as1 where r1: "read_token s p = Some (c1, s1, p1)" "ahead s1 c1 p1 as1 ts" "moves as s as1 s1"
    using read_queued [OF assms(1)] by blast
  obtain c2 s2 p2 as2 where r2: "skip_blank s1 p1 c1 = Some (c2, s2, p2)"
    "ahead s2 c2 p2 as2 (dropWhile ?blank ts)" "moves as1 s1 as2 s2"
    using skip_blank_queued [OF r1(2)] by blast
  have fin: "finite (dom s2)" using assms(2) r1(3) r2(3) by (simp add: moves_def)
  show ?thesis
  proof (cases "dropWhile ?blank ts")
    case Nil
    then have "c2 = None" using r2(2) [unfolded Nil] by simp
    moreover have "parser_get_line ts = None" by (simp only: parser_get_line_unfold Nil list.case)
    ultimately show ?thesis using r1(1) r2(1) by (simp add: get_line_in_def)
  next
    case (Cons t rest)
    have c2: "c2 = Some t" "queued s2 p2 as2 rest" using r2(2) [unfolded Cons] by simp_all
    let ?item = "new s2" and ?s3 = "s2(new s2 \<mapsto> \<lparr>item_value = Some t, item_next = None\<rparr>)"
    have new: "s2 ?item = None" using fin assms(3) by (simp add: fresh_def)
    then have item: "?item \<notin> set as2" using queued_dom [OF c2(2)] by blast
    then have s3: "queued ?s3 p2 as2 rest" by (intro queued_frame [OF c2(2)]) auto
    have line: "queued ?s3 (Some ?item) [?item] [t]" by (simp add: queued_Cons)
    obtain c4 s4 p4 as4 where r4: "read_token ?s3 p2 = Some (c4, s4, p4)" "ahead s4 c4 p4 as4 rest" "moves as2 ?s3 as4 s4"
      using read_queued [OF s3] by blast
    obtain c5 s5 p5 as5 where r5: "(if tok_type t = TOK_LABEL_INIT \<and> map_option tok_type c4 = Some TOK_NEWLINE
        then read_token s4 p4 else Some (c4, s4, p4)) = Some (c5, s5, p5)"
      "ahead s5 c5 p5 as5 (after_label t rest)" "moves as4 s4 as5 s5"
      using after_label_queued [OF r4(2)] by blast
    have m: "moves as2 ?s3 as5 s5" by (rule moves_trans [OF r4(3) r5(3)])
    have q: "queued s5 (Some ?item) [?item] [t]" using queued_moves [OF line m] item by simp
    have apart: "set as5 \<inter> set [?item] = {}" "finite (dom s5)" using m item fin by (auto simp: moves_def)
    obtain s6 p6 as6 bs6 where r6: "link_tokens new (Some ?item) s5 p5 (Some ?item) c5 = Some (s6, p6)"
      "queued s6 p6 as6 (tl (dropWhile inside (after_label t rest)))"
      "queued s6 (Some ?item) bs6 ([t] @ filter not_comma (takeWhile inside (after_label t rest)))"
      "set as6 \<inter> set bs6 = {}" "finite (dom s6)"
      using link_tokens_queued [OF r5(2) q _ apart assms(3)] by auto
    have "get_line_in new s p = Some (s6, p6, Some ?item)"
      unfolding get_line_in_def using r1(1) r2(1) c2(1) append_first r4(1) r5(1) r6(1) by simp
    moreover have "parser_get_line ts = Some ([t] @ filter not_comma (takeWhile inside (after_label t rest)),
        tl (dropWhile inside (after_label t rest)))"
      by (simp only: parser_get_line_unfold Cons list.case append_Cons append_Nil)
    ultimately show ?thesis using r6(2-5) by auto
  qed
qed

section \<open>Lines, refined\<close>

text \<open>The result of a reader: that of the parser on lists, with no change outside the line's items.\<close>

definition reads :: "nat list \<Rightarrow> token option store \<Rightarrow> diagnostic + 'a \<Rightarrow>
    (diagnostic + 'a \<times> token option store) option \<Rightarrow> bool" where
  "reads as s q r \<longleftrightarrow>
     (case r of None \<Rightarrow> False
      | Some (Inl d) \<Rightarrow> q = Inl d
      | Some (Inr (x, s')) \<Rightarrow> q = Inr x \<and> (\<exists>as'. moves as s as' s'))"

lemma reads_simps [simp]:
  "reads as s q (Some (asm_token_fail code t)) \<longleftrightarrow> q = asm_token_fail code t"
  "reads as s q (Some (asm_fail code)) \<longleftrightarrow> q = asm_fail code"
  "reads as s q (Some (Inr (x, s'))) \<longleftrightarrow> q = Inr x \<and> (\<exists>as'. moves as s as' s')"
  by (auto simp: reads_def asm_token_fail_def asm_fail_def split: option.split)

lemma reads_moves: "moves as s bs s' \<Longrightarrow> reads bs s' q r \<Longrightarrow> reads as s q r"
  using moves_trans by (fastforce simp: reads_def split: option.splits sum.splits)

lemma reads_map:
  "reads as s q r \<Longrightarrow>
     reads as s (sbind q (\<lambda>x. Inr (f x))) (map_option (\<lambda>r. sbind r (\<lambda>(x, s). Inr (f x, s))) r)"
  by (auto simp: reads_def split: option.splits sum.splits)

lemma accept_ahead:
  assumes "ahead s current p as ts"
  shows "\<exists>st as'. accept types (current, s, p) = Some (fst (read_optional types ts), st) \<and>
    ahead (fst (snd st)) (fst st) (snd (snd st)) as' (snd (read_optional types ts)) \<and> moves as s as' (fst (snd st))"
proof (cases ts)
  case Nil
  then show ?thesis using assms by (auto simp: accept_def)
next
  case (Cons t us)
  then show ?thesis
    using assms read_ahead [of s t p as ts] by (fastforce simp: accept_def)
qed

lemma read_statement_queued:
  assumes "queued s p as ts"
  shows "reads as s (parser_read_statement opcode ts) (read_statement_in opcode s p)"
proof -
  obtain c1 s1 p1 as1 where r1: "read_token s p = Some (c1, s1, p1)" "ahead s1 c1 p1 as1 ts" "moves as s as1 s1"
    using read_queued [OF assms] by blast
  let ?u = "read_optional [TOK_ID] ts"
  obtain c2 s2 p2 as2 where r2: "accept [TOK_ID] (c1, s1, p1) = Some (fst ?u, c2, s2, p2)"
    "ahead s2 c2 p2 as2 (snd ?u)" "moves as1 s1 as2 s2"
    using accept_ahead [OF r1(2), of "[TOK_ID]"] by auto
  let ?v = "read_optional [TOK_REGISTER] (snd ?u)"
  obtain c3 s3 p3 as3 where r3: "accept [TOK_REGISTER] (c2, s2, p2) = Some (fst ?v, c3, s3, p3)"
    "ahead s3 c3 p3 as3 (snd ?v)" "moves as2 s2 as3 s3"
    using accept_ahead [OF r2(2), of "[TOK_REGISTER]"] by auto
  let ?w = "if fst ?v = None then (None, snd ?v) else read_optional [TOK_REGISTER] (snd ?v)"
  obtain c4 s4 p4 as4 where r4: "(if fst ?v = None then Some (None, c3, s3, p3)
      else accept [TOK_REGISTER] (c3, s3, p3)) = Some (fst ?w, c4, s4, p4)"
    "ahead s4 c4 p4 as4 (snd ?w)" "moves as3 s3 as4 s4"
  proof (cases "fst ?v = None")
    case True
    then show ?thesis using that [of c3 s3 p3 as3] r3(2) by simp
  next
    case False
    then show ?thesis using that accept_ahead [OF r3(2), of "[TOK_REGISTER]"] by auto
  qed
  let ?x = "read_optional immediate_types (snd ?w)"
  obtain c5 s5 p5 as5 where r5: "accept immediate_types (c4, s4, p4) = Some (fst ?x, c5, s5, p5)"
    "ahead s5 c5 p5 as5 (snd ?x)" "moves as4 s4 as5 s5"
    using accept_ahead [OF r4(2), of immediate_types] by auto
  have m: "moves as s as5 s5"
    by (rule moves_trans [OF r1(3) moves_trans [OF r2(3) moves_trans [OF r3(3) moves_trans [OF r4(3) r5(3)]]]])
  have st: "read_statement_in opcode s p = Some (case c5 of
         Some t \<Rightarrow> asm_token_fail ZLASM_DIAGNOSTIC_UNEXPECTED_TOKEN (Some t)
       | None \<Rightarrow> Inr ((statement_init opcode)
                   \<lparr>st_cond := fst ?u, st_reg1 := fst ?v, st_reg2 := fst ?w, st_imm := fst ?x\<rparr>, s5))"
    by (simp only: read_statement_in_def r1(1) r2(1) r3(1) r4(1) r5(1) Option.bind.simps prod.case)
  have ls: "parser_read_statement opcode ts = (case snd ?x of
         t # _ \<Rightarrow> asm_token_fail ZLASM_DIAGNOSTIC_UNEXPECTED_TOKEN (Some t)
       | [] \<Rightarrow> Inr ((statement_init opcode)
                   \<lparr>st_cond := fst ?u, st_reg1 := fst ?v, st_reg2 := fst ?w, st_imm := fst ?x\<rparr>))"
    by (simp only: parser_read_statement_def Let_def case_prod_beta)
  show ?thesis
  proof (cases "snd ?x")
    case Nil
    then have "c5 = None" using r5(2) [unfolded Nil] by simp
    then show ?thesis unfolding st ls Nil using m by auto
  next
    case (Cons t us)
    then have "c5 = Some t" using r5(2) [unfolded Cons] by simp
    then show ?thesis unfolding st ls Cons by simp
  qed
qed

lemma read_arguments_queued:
  "queued s p as ts \<Longrightarrow>
     \<exists>s' as'. read_arguments_in d s p = Some (foldl directive_add_arg d ts, s') \<and> moves as s as' s'"
proof (induction ts arbitrary: d s p as)
  case Nil
  have "read_token s None = Some (None, s, None)" by (simp add: read_token_def tokenStream_isEof_def)
  moreover have "\<exists>as'. moves [] s as' s" using moves_refl by blast
  ultimately show ?case using Nil by (simp add: read_arguments_in.simps [of d s None])
next
  case (Cons t ts)
  obtain c1 s1 p1 as1 where r1: "read_token s p = Some (c1, s1, p1)" "ahead s1 c1 p1 as1 (t # ts)" "moves as s as1 s1"
    using read_queued [OF Cons.prems] by blast
  then have "queued s1 p1 as1 ts" "c1 = Some t" by simp_all
  then show ?case
    using Cons.IH [of s1 p1 as1 "directive_add_arg d t"] r1(1) moves_trans [OF r1(3)]
    by (fastforce simp: read_arguments_in.simps [of d s p])
qed

lemma read_directive_queued:
  assumes "queued s p as ts"
  shows "reads as s (parser_read_directive name ts) (read_directive_in name s p)"
proof (cases "directive_init name")
  case (Some d)
  obtain s' as' where "read_arguments_in d s p = Some (foldl directive_add_arg d ts, s')" "moves as s as' s'"
    using read_arguments_queued [OF assms] by blast
  then show ?thesis using Some by (auto simp: parser_read_directive_def read_directive_in_def)
qed (simp add: parser_read_directive_def read_directive_in_def)

lemma read_content_queued:
  assumes "queued s p as ts"
  shows "reads as s (read_content t ts) (read_content_in t s p)"
  using reads_map [OF read_statement_queued [OF assms, of t], of L_STMT]
    reads_map [OF read_directive_queued [OF assms, of t], of L_DIR]
  by (cases "tok_type t") (simp_all add: read_content_def read_content_in_def)

lemma read_line_queued:
  assumes "queued s p as ts"
  shows "reads as s (parser_read_line ts) (read_line_in s p)"
proof -
  obtain c1 s1 p1 as1 where r1: "read_token s p = Some (c1, s1, p1)" "ahead s1 c1 p1 as1 ts" "moves as s as1 s1"
    using read_queued [OF assms] by blast
  show ?thesis
  proof (cases ts)
    case Nil
    then show ?thesis using r1 by (simp add: read_line_in_def parser_read_line_def)
  next
    case (Cons t us)
    then have t: "c1 = Some t" "queued s1 p1 as1 us" using r1(2) by simp_all
    show ?thesis
    proof (cases "tok_type t = TOK_LABEL_INIT")
      case False
      then show ?thesis
        using reads_moves [OF r1(3) reads_map [OF read_content_queued [OF t(2), of t], of "make_line None"]] Cons t(1) r1(1)
        by (simp add: read_line_in_def parser_read_line_def)
    next
      case True
      obtain c2 s2 p2 as2 where r2: "read_token s1 p1 = Some (c2, s2, p2)" "ahead s2 c2 p2 as2 us" "moves as1 s1 as2 s2"
        using read_queued [OF t(2)] by blast
      show ?thesis
      proof (cases us)
        case Nil
        then show ?thesis using True Cons t(1) r1(1) r2 by (simp add: read_line_in_def parser_read_line_def)
      next
        case u: (Cons u vs)
        then have "c2 = Some u" "queued s2 p2 as2 vs" using r2(2) by simp_all
        then show ?thesis
          using reads_moves [OF moves_trans [OF r1(3) r2(3)]
              reads_map [OF read_content_queued [of s2 p2 as2 vs u], of "make_line (Some (tok_value t))"]]
            True Cons u t(1) r1(1) r2(1)
          by (simp add: read_line_in_def parser_read_line_def)
      qed
    qed
  qed
qed

section \<open>The parser, refined\<close>

lemma line_list_add_finite:
  assumes "stream_holds z list ls" "z item = None" "finite (dom z)"
  obtains z' where "line_list_add item z list line = Some z'" "stream_holds z' list (ls @ [line])" "finite (dom z')"
proof -
  obtain z' where z': "line_list_add item z list line = Some z'" "stream_holds z' list (ls @ [line])"
    "\<forall>b. b \<noteq> item \<longrightarrow> z b = None \<longrightarrow> z' b = None"
    using line_list_add_holds [OF assms(1,2)] by blast
  have "dom z' \<subseteq> insert item (dom z)" using z'(3) by (auto simp: dom_def)
  then show ?thesis using that [OF z'(1,2)] assms(3) finite_subset by blast
qed

lemma parse_queued:
  "queued s p as ts \<Longrightarrow> finite (dom s) \<Longrightarrow> fresh new \<Longrightarrow> stream_holds z list ls \<Longrightarrow> finite (dom z) \<Longrightarrow> fresh new_line \<Longrightarrow>
     pc_lines c = Some list \<Longrightarrow>
     \<exists>r. parse_in new new_line s p (z, c) = Some r \<and>
       (case parser_parse ts of
          Inl d \<Rightarrow> r = Inl d
        | Inr ks \<Rightarrow> \<exists>z'. r = Inr (z', c\<lparr>pc_lines_count := pc_lines_count c + length ks\<rparr>) \<and> stream_holds z' list (ls @ ks))"
proof (induction ts arbitrary: s p as z c ls rule: parser_parse.induct)
  case (1 ts)
  obtain s1 p1 first where g: "get_line_in new s p = Some (s1, p1, first)"
    "case parser_get_line ts of
       None \<Rightarrow> first = None
     | Some (line, rest) \<Rightarrow> first \<noteq> None \<and> finite (dom s1) \<and>
         (\<exists>as' bs. queued s1 p1 as' rest \<and> queued s1 first bs line \<and> set as' \<inter> set bs = {})"
    using get_line_queued [OF "1.prems"(1-3)] by blast
  show ?case
  proof (cases "parser_get_line ts")
    case None
    then show ?thesis
      using g "1.prems"(4) by (simp add: parse_in.simps [of new new_line s p] parser_parse.simps [of ts])
  next
    case (Some x)
    obtain line rest where x: "x = (line, rest)" by (cases x)
    obtain a as1 bs where q: "first = Some a" "finite (dom s1)" "queued s1 p1 as1 rest" "queued s1 (Some a) bs line"
      "set as1 \<inter> set bs = {}"
      using g(2) Some x by auto
    note reads = read_line_queued [OF q(4)]
    then obtain r where r: "read_line_in s1 (Some a) = Some r" by (auto simp: reads_def split: option.splits)
    have step: "parse_in new new_line s p (z, c) = (case r of Inl d \<Rightarrow> Some (Inl d)
         | Inr (line, s) \<Rightarrow> Option.bind (parser_addLine (new_line z) z c line) (\<lambda>st. parse_in new new_line s p1 st))"
      using g(1) q(1) r by (simp add: parse_in.simps [of new new_line s p])
    show ?thesis
    proof (cases r)
      case (Inl d)
      then have "parser_read_line line = Inl d" using reads r by (simp add: reads_def)
      then show ?thesis using Inl step Some x by (simp add: parser_parse.simps [of ts])
    next
      case (Inr y)
      then obtain l s2 cs where l: "r = Inr (l, s2)" "parser_read_line line = Inr l" "moves bs s1 cs s2"
        using reads r by (cases y) (auto simp: reads_def)
      have s2: "queued s2 p1 as1 rest" "finite (dom s2)"
        using queued_moves [OF q(3) l(3)] q(2,5) l(3) by (auto simp: moves_def)
      have "z (new_line z) = None" using "1.prems"(5,6) by (simp add: fresh_def)
      then obtain z1 where z1: "line_list_add (new_line z) z list l = Some z1" "stream_holds z1 list (ls @ [l])"
        "finite (dom z1)"
        by (rule line_list_add_finite [OF "1.prems"(4) _ "1.prems"(5)])
      let ?c = "c\<lparr>pc_lines_count := pc_lines_count c + 1\<rparr>"
      have "parse_in new new_line s p (z, c) = parse_in new new_line s2 p1 (z1, ?c)"
        using step l(1) z1(1) "1.prems"(7) by (simp add: parser_addLine_def)
      then show ?thesis
        using "1.IH" [OF Some x [symmetric] l(2) s2 "1.prems"(3) z1(2,3) "1.prems"(6), of ?c] "1.prems"(7) Some x l(2)
        by (cases "parser_parse rest") (auto simp: parser_parse.simps [of ts])
    qed
  qed
qed

lemma append_tokens_queued:
  "queued s first as us \<Longrightarrow> us \<noteq> [] \<Longrightarrow> finite (dom s) \<Longrightarrow> fresh new \<Longrightarrow>
     \<exists>s' as'. append_tokens new s first (Some (last as)) ts = Some (s', first) \<and> queued s' first as' (us @ ts) \<and>
       finite (dom s')"
proof (induction ts arbitrary: s as us)
  case (Cons t ts)
  have new: "s (new s) = None" using Cons.prems(3,4) by (simp add: fresh_def)
  obtain s1 where s1: "append_token (new s) s first (Some (last as)) t = Some (s1, first, Some (new s))"
    "queued s1 first (as @ [new s]) (us @ [t])" "dom s1 = insert (new s) (dom s)"
    using append_queued [OF Cons.prems(1,2) new] by blast
  then show ?case
    using Cons.IH [OF s1(2) _ _ Cons.prems(4)] Cons.prems(3) by simp
qed auto

lemma appended_queued:
  assumes "finite (dom s)" "fresh new"
  shows "\<exists>s' first as. append_tokens new s None None ts = Some (s', first) \<and> queued s' first as ts \<and> finite (dom s')"
proof (cases ts)
  case Nil
  then show ?thesis using assms(1) by auto
next
  case (Cons t us)
  let ?s = "s(new s \<mapsto> \<lparr>item_value = Some t, item_next = None\<rparr>)"
  have "queued ?s (Some (new s)) [new s] [t]" by (simp add: queued_Cons)
  from append_tokens_queued [OF this _ _ assms(2), of us] assms(1)
  obtain s' as' where "append_tokens new ?s (Some (new s)) (Some (new s)) us = Some (s', Some (new s))"
    "queued s' (Some (new s)) as' ts" "finite (dom s')"
    using Cons by auto
  then show ?thesis using Cons by (auto simp: append_first)
qed

text \<open>C9: The parser on linked tokens refines the parser on lists. Tokens linked one by one, as the macro
  expander does, in any finite memory and with allocators that yield unused addresses, are parsed to
  the end, and no dangling pointer is followed: either with the diagnostic of the parser on lists, or
  the lines are those of the parser on lists, linked in order and counted, and the stream that the
  next phase opens on them yields them.\<close>

theorem parser_refines:
  assumes "finite (dom s)" "finite (dom z)" "fresh new" "fresh new_line"
  shows "\<exists>s' first r. append_tokens new s None None ts = Some (s', first) \<and>
    parse_in new new_line s' first (parser_init (new_line z) z) = Some r \<and>
    (case parser_parse ts of
       Inl d \<Rightarrow> r = Inl d
     | Inr ls \<Rightarrow> \<exists>z' list. r = Inr (z', \<lparr>pc_lines = Some list, pc_lines_count = length ls\<rparr>) \<and> stream_holds z' list ls \<and>
         (ls \<noteq> [] \<longrightarrow> read_all lineStream_read z' (Some list) = Some ls))"
proof -
  obtain s' first as where t: "append_tokens new s None None ts = Some (s', first)" "queued s' first as ts"
    "finite (dom s')"
    using appended_queued [OF assms(1,3)] by blast
  let ?list = "new_line z"
  have "stream_holds (line_list_init ?list z) ?list []" "finite (dom (line_list_init ?list z))"
    using init_holds assms(2) by (simp_all add: line_list_init_def)
  from parse_queued [OF t(2,3) assms(3) this assms(4), of "\<lparr>pc_lines = Some ?list, pc_lines_count = 0\<rparr>"]
  show ?thesis
    using t(1) lines.read_all_holds unfolding parser_init_def by (cases "parser_parse ts") auto
qed

text \<open>One token, and allocators that take the lowest unused address.\<close>

definition unused :: "'a store \<Rightarrow> nat" where
  "unused s = (LEAST a. s a = None)"

lemma unused_fresh: "fresh unused"
  unfolding fresh_def
proof (intro allI impI)
  fix s :: "'a store" assume "finite (dom s)"
  then have "\<exists>a. s a = None" using ex_new_if_finite [of "dom s"] by auto
  then show "s (unused s) = None" unfolding unused_def by (rule LeastI_ex)
qed

definition ret_token :: token where
  "ret_token = \<lparr>tok_type = TOK_ID, tok_value = ''ret'', tok_pos = 0, tok_line = 1, tok_col = 1, tok_source_size = 3\<rparr>"

lemma ret_parsed: "parser_parse [ret_token] = Inr [make_line None (L_STMT (statement_init ret_token))]"
  by (simp add: parser_parse.simps parser_get_line_def ret_token_def parser_read_line_def read_content_def
      parser_read_statement_def statement_init_def)

theorem parser_refines_witness:
  "\<exists>s' first z' list. append_tokens unused Map.empty None None [ret_token] = Some (s', first) \<and>
     parse_in unused unused s' first (parser_init (unused (Map.empty :: line option store)) Map.empty) =
       Some (Inr (z', \<lparr>pc_lines = Some list, pc_lines_count = 1\<rparr>)) \<and>
     read_all lineStream_read z' (Some list) = Some [make_line None (L_STMT (statement_init ret_token))]"
  using parser_refines [OF _ _ unused_fresh unused_fresh, of Map.empty Map.empty "[ret_token]"]
  unfolding ret_parsed sum.case by auto

end
