(* ===== verification/Places.thy ===== *)
theory Places
  imports Asm_Samples
begin

text \<open>
  Where the diagnostics of the assembler point. A location is a place of a source when its line and
  column are those of its offset and its range lies in the source. Every failure that names a location
  names such a place, unless a macro is called with a named argument.
\<close>

section \<open>Places\<close>

definition place :: "string \<Rightarrow> location \<Rightarrow> bool" where
  "place src l \<longleftrightarrow> 0 < loc_length l \<and> loc_offset l + loc_length l \<le> length src \<and>
     loc_line l = line_of src (loc_offset l) \<and> loc_column l = col_of src (loc_offset l)"

abbreviation placed :: "string \<Rightarrow> token \<Rightarrow> bool" where
  "placed src t \<equiv> place src (token_location t)"

definition points :: "string \<Rightarrow> diagnostic + 'a \<Rightarrow> bool" where
  "points src r \<longleftrightarrow> (\<forall>c l. r = Inl (c, Some l) \<longrightarrow> place src l)"

named_theorems points_intro \<open>results whose failures point into the source\<close>

lemma points_basic [simp]:
  "points src (Inr x)" "points src (asm_fail code)" "points src (asm_token_fail code None)"
  "points src (asm_token_fail code (Some t)) \<longleftrightarrow> placed src t"
  by (simp_all add: points_def asm_fail_def asm_token_fail_def)

lemma points_sbind [points_intro]:
  "points src r \<Longrightarrow> (\<And>x. r = Inr x \<Longrightarrow> points src (f x)) \<Longrightarrow> points src (sbind r f)"
  by (cases r) (simp_all add: points_def)

lemma points_case [points_intro]:
  "points src r \<Longrightarrow> (\<And>x. r = Inr x \<Longrightarrow> points src (f x)) \<Longrightarrow>
     points src (case r of Inl d \<Rightarrow> Inl d | Inr x \<Rightarrow> f x)"
  by (cases r) (simp_all add: points_def)

lemma points_try_fold [points_intro]:
  "(\<And>s x. x \<in> set xs \<Longrightarrow> points src (f s x)) \<Longrightarrow> points src (try_fold f s xs)"
  by (induction xs arbitrary: s) (auto intro!: points_intro)

lemma points_try_map [points_intro]: "(\<And>x. x \<in> set xs \<Longrightarrow> points src (f x)) \<Longrightarrow> points src (try_map f xs)"
  by (induction xs) (auto intro!: points_intro)

lemma token_location_update [simp]: "token_location (t\<lparr>tok_value := v\<rparr>) = token_location t"
  by (simp add: token_location_def)

section \<open>Lexing\<close>

lemma placed_scan:
  assumes "located s" "top_level s" "scans s e" "lx_pos s < lx_pos e"
  shows "placed (lx_source s) (make_token s e ty v)"
  using assms
  by (auto simp: place_def token_location_def make_token_def located_def top_level_def scans_def line_of_def col_of_def)

lemma token_ok_placed: "token_ok src t \<Longrightarrow> placed src t"
  by (auto simp: token_ok_def place_def token_location_def token_end_def)

lemma points_int_value [points_intro]: "placed src t \<Longrightarrow> points src (token_get_int_value t)"
proof -
  assume t: "placed src t"
  have "points src (int_value_loop t base v cs)" for base v cs
    using t by (induction t base v cs rule: int_value_loop.induct) (auto split: option.split)
  then show ?thesis using t by (simp add: token_get_int_value_def split: option.split)
qed

lemma points_char_value [points_intro]: "placed src t \<Longrightarrow> points src (token_get_char_value t)"
  by (simp add: token_get_char_value_def Let_def split: list.split option.split)

lemma points_finish [points_intro]: "placed src t \<Longrightarrow> points src (finish_token t)"
  by (auto simp: finish_token_def validate_numeric_token_def Let_def intro!: points_intro split: option.split)

lemma points_quoted:
  assumes "located start" "top_level start" "scans start st" "lx_pos start < lx_pos st"
  shows "points (lx_source start) (lexer_quoted start quote st)"
proof -
  have "scans start (lexer_while P st)" for P by (rule scans_trans [OF assms(3) scans_while])
  moreover have "lx_pos start < lx_pos (lexer_while P st)" for P
    using assms(4) scans_pos [OF scans_while] by (rule less_le_trans)
  ultimately show ?thesis using placed_scan assms(1,2) by (simp add: lexer_quoted_def Let_def)
qed

lemma points_word_loop:
  assumes "located start" "top_level start"
  shows "scans start st \<Longrightarrow> points (lx_source start) (scan_word_loop start st)"
  using assms
proof (induction start st rule: scan_word_loop.induct)
  case (1 start st)
  let ?c = "lexer_peekChar st"
  show ?case
  proof (cases "lx_pos st < length (lx_source st) \<and> is_word_char ?c")
    case False
    then show ?thesis by (subst scan_word_loop.simps) auto
  next
    case word: True
    have n: "scans start (lexer_nextChar st)" by (rule scans_trans [OF "1.prems"(1) scans_next])
    show ?thesis
    proof (cases "?c = CHR 0x22 \<or> ?c = CHR 0x27")
      case True
      have "lx_pos start < lx_pos (lexer_nextChar st)"
        using scans_pos [OF "1.prems"(1)] word by (simp add: lexer_nextChar_pos)
      then have "points (lx_source start) (lexer_quoted start ?c (lexer_nextChar st))"
        using "1.prems"(2,3) n by (intro points_quoted)
      moreover have "points (lx_source start) (scan_word_loop start (lexer_nextChar e))"
        if e: "lexer_quoted start ?c (lexer_nextChar st) = Inr e" for e
        using "1.IH"(1) [OF refl word True e] scans_trans [OF n scans_trans [OF scans_quoted [OF e] scans_next]]
          "1.prems"(2,3) by blast
      ultimately show ?thesis
        using word True by (subst scan_word_loop.simps) (auto simp: Let_def intro!: points_sbind)
    next
      case False
      then show ?thesis
        using word "1.IH"(2) [OF refl word False n "1.prems"(2,3)] by (subst scan_word_loop.simps) (simp add: Let_def)
    qed
  qed
qed

lemma points_scan:
  assumes "located st" "top_level st" "lx_pos st < length (lx_source st)"
  shows "points (lx_source st) (lexer_scan st)"
proof -
  have "points (lx_source st) (lexer_quoted st q (lexer_nextChar st))" for q
    using assms(1,2) scans_next lexer_next_less [OF assms(3)] by (rule points_quoted)
  moreover have "points (lx_source st) (scan_word_loop st st)"
    using assms(1,2) scans_refl by (rule points_word_loop)
  ultimately show ?thesis
    by (auto simp: lexer_scan_def scan_literal_def scan_word_def Let_def intro!: points_intro)
qed

lemma points_readToken:
  assumes "located st" "top_level st"
  shows "points (lx_source st) (lexer_readToken st)"
proof -
  let ?s = "lexer_while is_ignored_char st"
  have ss: "scans st ?s" by simp
  have s: "located ?s" "top_level ?s" "lx_source ?s = lx_source st"
    using located_scans [OF assms(1) ss] ss assms(2) by (auto simp: scans_def top_level_def)
  show ?thesis
  proof (cases "is_eof (lexer_peekChar ?s)")
    case True
    then show ?thesis by (simp add: lexer_readToken_def)
  next
    case False
    then have less: "lx_pos ?s < length (lx_source ?s)" by (auto simp: lexer_peekChar_def is_eof_def split: if_splits)
    have "placed (lx_source st) (make_token ?s e ty v)" if "lexer_scan ?s = Inr (ty, a, b, e)" for ty a b e v
    proof -
      have "\<not> is_ignored_char (lexer_peekChar ?s)" using lexer_while_stops [of is_ignored_char st] less s(3) by simp
      then have "scan_ok ?s (ty, a, b, e)" using lexer_scan_ok [OF that less] by simp
      then have "placed (lx_source ?s) (make_token ?s e ty v)"
        by (intro placed_scan s(1,2)) (simp_all add: scan_ok_def)
      then show ?thesis unfolding s(3) .
    qed
    then show ?thesis
      using points_scan [OF s(1,2) less] False unfolding s(3)
      by (auto simp: lexer_readToken_def Let_def intro!: points_intro split: prod.split)
  qed
qed

lemma points_readAll:
  "located st \<Longrightarrow> top_level st \<Longrightarrow> tokens_cover (lx_source st) (lx_pos st) (lx_tokens st) \<Longrightarrow>
     points (lx_source st) (lexer_readAll st)"
proof (induction st rule: lexer_readAll.induct)
  case (1 st)
  have "points (lx_source st) (lexer_readAll s)" if r: "lexer_readToken st = Inr (s, Some t)" for s t
    using "1.IH" [OF r refl] readToken_cover [OF r "1.prems"] by simp
  then show ?case
    using points_readToken [OF "1.prems"(1,2)]
    by (subst lexer_readAll.simps) (auto intro!: points_intro split: prod.split option.split)
qed

section \<open>Macros\<close>

text \<open>A named argument is lexed apart from the source.\<close>

definition no_equals :: "token \<Rightarrow> bool" where
  "no_equals t \<longleftrightarrow> \<not> (tok_type t = TOK_ID \<and> CHR ''='' \<in> set (tok_value t))"

lemma set_line_tokens: "set (line_tokens ts) \<subseteq> set ts"
  by (auto simp: line_tokens_def dest: set_takeWhileD)

lemma points_macro_fail [simp]: "points src (macro_fail t) \<longleftrightarrow> placed src t"
  by (simp add: macro_fail_def)

lemma capture_body_sets:
  assumes "capture_body name ts = Inr (body, after)"
  shows "set body \<subseteq> set ts" "set after \<subseteq> set ts"
  using assms
  by (auto simp: capture_body_def Let_def macro_fail_def split: option.splits if_splits dest: set_takeWhileD set_dropWhileD)

lemma find_set: "find P xs = Some x \<Longrightarrow> x \<in> set xs"
  by (auto simp: find_Some_iff)

lemma points_capture_body:
  "placed src name \<Longrightarrow> \<forall>t \<in> set ts. placed src t \<Longrightarrow> points src (capture_body name ts)"
  by (auto simp: capture_body_def Let_def split: option.split dest!: find_set dest: set_takeWhileD)

lemma points_capture_macro:
  assumes "placed src t" "\<forall>u \<in> set rest. placed src u"
  shows "points src (capture_macro macros t rest)"
proof (cases "line_tokens rest")
  case Nil
  then show ?thesis using assms(1) by (simp add: capture_macro_def)
next
  case (Cons name args)
  then have names: "placed src name" "\<forall>u \<in> set args. placed src u" using assms(2) set_line_tokens [of rest] by auto
  have rest: "\<forall>u \<in> set (tl (line_end rest)). placed src u" using assms(2) set_tl_line_end by blast
  have parameter: "points src (add_parameter ps u)" if "placed src u" for ps u
    using that by (simp add: add_parameter_def)
  have "points src (try_fold add_parameter []
      (filter (\<lambda>t. tok_type t \<noteq> TOK_COMMA) (takeWhile (\<lambda>t. tok_type t \<noteq> TOK_COMMENT) args)))"
    using names(2) by (intro points_try_fold parameter) (auto dest: set_takeWhileD)
  moreover have "points src (case find (\<lambda>t. tok_type t \<noteq> TOK_COMMENT) (line_tokens (tl after)) of
      Some t \<Rightarrow> macro_fail t | None \<Rightarrow> Inr x)" if "capture_body name (tl (line_end rest)) = Inr (body, after)"
    for body after and x :: "macro list \<times> token list"
  proof -
    have "set (line_tokens (tl after)) \<subseteq> set (tl (line_end rest))"
      using capture_body_sets(2) [OF that] set_line_tokens [of "tl after"] list.set_sel(2) [of after]
      by (cases after) auto
    then have "find P (line_tokens (tl after)) = Some u \<Longrightarrow> placed src u" for P u
      using rest find_set [of P "line_tokens (tl after)" u] by blast
    then show ?thesis by (simp split: option.split)
  qed
  ultimately show ?thesis
    using assms(1) names points_capture_body [OF names(1) rest] unfolding capture_macro_def Cons list.case
    by (auto intro!: points_intro split: prod.split)
qed

lemma capture_macro_sets:
  assumes "capture_macro macros t rest = Inr (macros', after)"
  shows "set after \<subseteq> set rest" "\<exists>m. macros' = m # macros \<and> set (mac_body m) \<subseteq> set rest"
proof -
  obtain name parameters body mid where h: "capture_body name (tl (line_end rest)) = Inr (body, mid)"
    "macros' = \<lparr>mac_name = name, mac_parameters = parameters, mac_body = body\<rparr> # macros" "after = tl (line_end (tl mid))"
    using assms by (auto simp: capture_macro_def sbind_Inr macro_fail_def split: list.splits if_splits option.splits)
  have "set (tl mid) \<subseteq> set mid" by (cases mid) auto
  then show "set after \<subseteq> set rest"
    using capture_body_sets(2) [OF h(1)] set_tl_line_end [of rest] set_tl_line_end [of "tl mid"] h(3) by blast
  show "\<exists>m. macros' = m # macros \<and> set (mac_body m) \<subseteq> set rest"
    using capture_body_sets(1) [OF h(1)] set_tl_line_end [of rest] h(2) by fastforce
qed

lemma points_capture_macros:
  "\<forall>u \<in> set ts. placed src u \<Longrightarrow> points src (capture_macros macros ts)"
proof (induction macros ts rule: capture_macros.induct)
  case (2 macros t ts)
  have "points src (capture_macros macros' after)"
    if "is_directive t ''macro''" "capture_macro macros t ts = Inr (macros', after)" for macros' after
    using "2.IH"(1) [OF that refl] capture_macro_sets(1) [OF that(2)] "2.prems" by auto
  moreover have "points src (capture_macros macros ts)"
    if "\<not> is_directive t ''macro''" "\<not> is_directive t ''endmacro''"
    using "2.IH"(2) that "2.prems" by simp
  ultimately show ?case
    using points_capture_macro [of src t ts macros] "2.prems" by (auto intro!: points_case)
qed simp

lemma captured_bodies:
  "capture_macros macros ts = Inr macros' \<Longrightarrow> \<forall>u \<in> set ts. P u \<Longrightarrow> \<forall>m \<in> set macros. \<forall>u \<in> set (mac_body m). P u \<Longrightarrow>
     \<forall>m \<in> set macros'. \<forall>u \<in> set (mac_body m). P u"
proof (induction macros ts rule: capture_macros.induct)
  case (2 macros t ts)
  show ?case
  proof (cases "is_directive t ''macro''")
    case True
    then obtain ms after where c: "capture_macro macros t ts = Inr (ms, after)" "capture_macros ms after = Inr macros'"
      using "2.prems"(1) by (auto split: sum.splits)
    then show ?thesis
      using "2.IH"(1) [OF True c(1) refl c(2)] capture_macro_sets [OF c(1)] "2.prems"(2,3) by fastforce
  next
    case False
    then show ?thesis using 2 by (auto simp: macro_fail_def split: if_splits)
  qed
qed simp

lemma points_arguments_loop:
  "placed src t \<Longrightarrow> \<forall>u \<in> set args. no_equals u \<Longrightarrow>
     points src (read_arguments_loop m t arguments i named args)"
proof (induction args arbitrary: arguments i named)
  case (Cons u us)
  then have "\<not> (tok_type u = TOK_ID \<and> CHR ''='' \<in> set (tok_value u))" by (simp add: no_equals_def)
  then show ?case
    using Cons by (simp only: read_arguments_loop.simps(2) if_False) simp
qed simp

text \<open>Without named arguments the values are tokens of the call.\<close>

lemma arguments_loop_values:
  "read_arguments_loop m t arguments i named args = Inr values \<Longrightarrow> \<forall>u \<in> set args. no_equals u \<Longrightarrow>
     \<forall>v. Some v \<in> set arguments \<longrightarrow> no_equals v \<Longrightarrow>
     length values = length arguments \<and> (\<forall>v. Some v \<in> set values \<longrightarrow> no_equals v)"
proof (induction args arbitrary: arguments i named)
  case (Cons u us)
  have "\<not> (tok_type u = TOK_ID \<and> CHR ''='' \<in> set (tok_value u))" using Cons.prems(2) by (simp add: no_equals_def)
  from read_plain_argument [OF Cons.prems(1) this] show ?case
  proof (elim disjE)
    assume "read_arguments_loop m t (arguments[i := Some u]) (i + 1) named us = Inr values"
    moreover have upd: "\<forall>v. Some v \<in> set (arguments[i := Some u]) \<longrightarrow> no_equals v"
      using Cons.prems(2,3) set_update_subset_insert [of arguments i "Some u"] by fastforce
    ultimately show ?thesis using Cons.IH [OF _ _ upd] Cons.prems(2) by simp
  qed (use Cons in auto)
qed simp

lemma points_enter_macro:
  "placed src t \<Longrightarrow> \<forall>u \<in> set args. no_equals u \<Longrightarrow> points src (enter_macro m args stack t)"
  by (auto simp: enter_macro_def read_arguments_def intro!: points_intro points_arguments_loop)

lemma no_equals_clone [simp]:
  "no_equals (clone_token t l) = no_equals t" "no_equals (t\<lparr>tok_type := TOK_LABEL_INIT\<rparr>)"
  by (simp_all add: no_equals_def)

lemma entered_body:
  assumes "enter_macro m args stack t = Inr body" "placed src t" "\<forall>u \<in> set args. no_equals u"
    "\<forall>u \<in> set (mac_body m). no_equals u"
  shows "\<forall>u \<in> set body. placed src u \<and> no_equals u"
proof -
  obtain vs where v: "read_arguments m args t = Inr vs" "body = expand_body m vs t"
    using assms(1) by (auto simp: enter_macro_Inr)
  then obtain arguments where a: "read_arguments_loop m t (replicate (length (mac_parameters m)) None) 0 False args =
      Inr arguments" "\<not> list_ex (\<lambda>a. a = None) arguments" "vs = map the arguments"
    by (auto simp: read_arguments_def sbind_Inr macro_fail_def split: if_splits)
  have c: "length arguments = length (mac_parameters m)" "\<forall>v. Some v \<in> set arguments \<longrightarrow> no_equals v"
    using arguments_loop_values [OF a(1) assms(3)] by simp_all
  have "no_equals (vs ! i)" if i: "i < length (mac_parameters m)" for i
  proof -
    have "arguments ! i \<in> set arguments" using i c(1) by simp
    moreover obtain v where "arguments ! i = Some v"
      using a(2) calculation by (cases "arguments ! i") (auto simp: list_ex_iff)
    ultimately show ?thesis using i c a(3) by auto
  qed
  then have "no_equals u" if "u \<in> set body" for u
    using that assms(4) parameter_index_less unfolding v(2) expand_body_def Let_def by (auto split: if_splits)
  moreover have "placed src u" if "u \<in> set body" for u
    using that expand_body_location assms(2) unfolding v(2) by metis
  ultimately show ?thesis by blast
qed

lemma found_macro: "find_macro macros name = Some m \<Longrightarrow> m \<in> set macros"
  unfolding find_macro_def by (rule find_set)

lemma points_expand_range:
  "\<forall>u \<in> set ts. placed src u \<and> no_equals u \<Longrightarrow> \<forall>m \<in> set macros. \<forall>u \<in> set (mac_body m). no_equals u \<Longrightarrow>
     points src (expand_range macros stack location s ts)"
proof (induction macros stack location s ts rule: expand_range.induct)
  case (2 macros stack location s t ts)
  have t: "placed src t" "\<forall>u \<in> set (line_tokens ts). no_equals u"
    using "2.prems"(1) set_line_tokens [of ts] by auto
  have ends: "\<forall>u \<in> set (skip_macro_definition (t # ts)). placed src u \<and> no_equals u"
    "\<forall>u \<in> set (tl (line_end ts)). placed src u \<and> no_equals u"
    using "2.prems"(1) set_skip_macro_definition [of "t # ts"] set_tl_line_end [of ts] by auto
  show ?case
  proof (cases "is_directive t ''macro'' \<or> \<not> invokes macros s t")
    case True
    then show ?thesis
      using "2.IH"(1) [OF _ ends(1) "2.prems"(2)] "2.IH"(4) "2.prems"
      by (auto simp: expand_range.simps(2) intro!: points_sbind)
  next
    case call: False
    show ?thesis
    proof (cases "find_macro macros (invoked_name t)")
      case None
      then show ?thesis using call t(1) by (simp add: expand_range.simps(2))
    next
      case (Some m)
      have body: "points src (expand_range macros (stack @ [m]) (Some t) True body)"
        if "enter_macro m (line_tokens ts) stack t = Inr body" for body
        using "2.IH"(2) [OF _ _ Some that _ "2.prems"(2)] call
          entered_body [OF that t] "2.prems"(2) found_macro [OF Some] by blast
      have rest: "points src (expand_range macros stack location True (tl (line_end ts)))"
        if "enter_macro m (line_tokens ts) stack t = Inr body"
          "expand_range macros (stack @ [m]) (Some t) True body = Inr expanded" for body expanded
        using "2.IH"(3) [OF _ _ Some that ends(2) "2.prems"(2)] call by blast
      show ?thesis
        using call Some points_enter_macro [OF t] body rest
        by (auto simp: expand_range.simps(2) intro!: points_sbind)
    qed
  qed
qed simp

lemma expanded_placed:
  "expands macros stack location s ts out \<Longrightarrow> \<forall>u \<in> set ts. placed src u \<and> no_equals u \<Longrightarrow>
     \<forall>m \<in> set macros. \<forall>u \<in> set (mac_body m). no_equals u \<Longrightarrow> (\<forall>l. location = Some l \<longrightarrow> placed src l) \<Longrightarrow>
     \<forall>u \<in> set out. placed src u"
proof (induction rule: expands.induct)
  case (skip t stack location ts out s)
  then show ?case using set_skip_macro_definition [of "t # ts"] by blast
next
  case (call t s m ts stack body expanded location rest)
  have "\<forall>u \<in> set (line_tokens ts). no_equals u" "placed src t" using call.prems(1) set_line_tokens [of ts] by auto
  then have "\<forall>u \<in> set body. placed src u \<and> no_equals u"
    using entered_body [OF call.hyps(4)] found_macro [OF call.hyps(3)] call.prems(2) by blast
  moreover have "\<forall>u \<in> set (tl (line_end ts)). placed src u \<and> no_equals u"
    using call.prems(1) set_tl_line_end [of ts] by auto
  ultimately have "\<forall>u \<in> set expanded. placed src u" "\<forall>u \<in> set rest. placed src u"
    using call.IH call.prems(2,3) \<open>placed src t\<close> by blast+
  then show ?case by auto
next
  case (keep t s stack location ts rest)
  then show ?case by (cases location) (auto simp: clone_token_location)
qed simp

lemma points_expand:
  assumes "\<forall>u \<in> set ts. placed src u \<and> no_equals u"
  shows "points src (macros_expand ts)" "macros_expand ts = Inr out \<Longrightarrow> \<forall>u \<in> set out. placed src u"
proof -
  have bodies: "\<forall>m \<in> set macros. \<forall>u \<in> set (mac_body m). no_equals u" if "capture_macros [] ts = Inr macros" for macros
    using captured_bodies [OF that, of no_equals] assms by simp
  show "points src (macros_expand ts)"
    using assms bodies points_expand_range [OF assms]
    by (auto simp: macros_expand_def intro!: points_sbind points_capture_macros)
  show "\<forall>u \<in> set out. placed src u" if "macros_expand ts = Inr out"
  proof (cases "ts = []")
    case False
    then have "sbind (capture_macros [] ts) (\<lambda>macros. expand_range macros [] None True ts) = Inr out"
      using that by (simp add: macros_expand_def)
    then obtain macros where m: "capture_macros [] ts = Inr macros" "expand_range macros [] None True ts = Inr out"
      unfolding sbind_Inr by blast
    show ?thesis using expanded_placed [OF expand_range_expands [OF m(2)] assms bodies [OF m(1)]] by simp
  qed (use that in \<open>simp add: macros_expand_def\<close>)
qed

section \<open>Lines\<close>

fun content_tokens :: "line_content \<Rightarrow> token set" where
  "content_tokens (L_DIR d) = insert (dir_name d) (set (dir_argv d))"
| "content_tokens (L_STMT s) = insert (st_opcode s)
     (set_option (st_cond s) \<union> set_option (st_reg1 s) \<union> set_option (st_reg2 s) \<union> set_option (st_imm s))"
| "content_tokens (L_RAW data) = {}"

abbreviation placed_line :: "string \<Rightarrow> line \<Rightarrow> bool" where
  "placed_line src l \<equiv> \<forall>t \<in> content_tokens (ln_content l). placed src t"

lemma read_optional_set: "read_optional types ts = (t, us) \<Longrightarrow> set_option t \<subseteq> set ts \<and> set us \<subseteq> set ts"
  by (cases ts) (auto split: if_splits)

lemma statement_tokens:
  assumes "\<forall>t \<in> set ts. placed src t"
  shows "points src (parser_read_statement opcode ts)"
    "parser_read_statement opcode ts = Inr s \<Longrightarrow> content_tokens (L_STMT s) \<subseteq> insert opcode (set ts)"
proof -
  obtain cond ts1 where c: "read_optional [TOK_ID] ts = (cond, ts1)" by fastforce
  obtain reg1 ts2 where r1: "read_optional [TOK_REGISTER] ts1 = (reg1, ts2)" by fastforce
  obtain reg2 ts3 where r2: "(if reg1 = None then (None, ts2) else read_optional [TOK_REGISTER] ts2) = (reg2, ts3)"
    by fastforce
  obtain imm ts4 where i: "read_optional immediate_types ts3 = (imm, ts4)" by fastforce
  have "set_option reg2 \<subseteq> set ts2 \<and> set ts3 \<subseteq> set ts2" using r2 read_optional_set by (auto split: if_splits)
  then have sub: "set_option cond \<subseteq> set ts" "set_option reg1 \<subseteq> set ts" "set_option reg2 \<subseteq> set ts"
    "set_option imm \<subseteq> set ts" "set ts4 \<subseteq> set ts"
    using read_optional_set [OF c] read_optional_set [OF r1] read_optional_set [OF i] by blast+
  note e = parser_read_statement_def [of opcode ts, unfolded c r1 r2 i Let_def prod.case]
  show "points src (parser_read_statement opcode ts)"
    using assms sub(5) unfolding e by (cases ts4) auto
  show "parser_read_statement opcode ts = Inr s \<Longrightarrow> content_tokens (L_STMT s) \<subseteq> insert opcode (set ts)"
    using sub(1-4) unfolding e by (cases ts4) (auto simp: statement_init_def)
qed

lemma foldl_directive_name: "dir_name (foldl directive_add_arg d ts) = dir_name d"
  by (induction ts arbitrary: d) (simp_all add: directive_add_arg_def)

lemma directive_tokens:
  "placed src t \<Longrightarrow> points src (parser_read_directive t ts)"
  "parser_read_directive t ts = Inr d \<Longrightarrow> content_tokens (L_DIR d) = insert t (set ts)"
  by (auto simp: parser_read_directive_def directive_init_def foldl_directive_args foldl_directive_name
      split: option.split option.splits)

lemma read_content_points:
  assumes "placed src t" "\<forall>u \<in> set ts. placed src u"
  shows "points src (read_content t ts)"
    "read_content t ts = Inr k \<Longrightarrow> \<forall>u \<in> content_tokens k. placed src u"
proof -
  note s = statement_tokens [OF assms(2), of t]
  show "points src (read_content t ts)"
    using assms s(1) by (cases "tok_type t") (auto simp: read_content_def directive_tokens(1) intro!: points_sbind)
  assume k: "read_content t ts = Inr k"
  have "content_tokens k \<subseteq> insert t (set ts)"
  proof (cases "tok_type t")
    case TOK_ID
    then show ?thesis using k s(2) by (auto simp: read_content_def sbind_Inr)
  next
    case TOK_DIRECTIVE
    then show ?thesis using k by (auto simp: read_content_def sbind_Inr dest!: directive_tokens(2))
  qed (use k in \<open>simp_all add: read_content_def\<close>)
  then show "\<forall>u \<in> content_tokens k. placed src u" using assms by blast
qed

lemma read_line_points:
  assumes "\<forall>u \<in> set ts. placed src u"
  shows "points src (parser_read_line ts)" "parser_read_line ts = Inr l \<Longrightarrow> placed_line src l"
proof -
  show "points src (parser_read_line ts)"
    using assms by (auto simp: parser_read_line_def intro!: points_sbind read_content_points(1) split: list.split)
  show "parser_read_line ts = Inr l \<Longrightarrow> placed_line src l"
  proof -
    assume l: "parser_read_line ts = Inr l"
    obtain label t us where r: "sbind (read_content t us) (\<lambda>c. Inr (make_line label c)) = Inr l" "set (t # us) \<subseteq> set ts"
    proof (cases ts)
      case (Cons t us)
      show ?thesis
      proof (cases "tok_type t = TOK_LABEL_INIT")
        case True
        then show ?thesis
          using l that [of "hd us" "tl us" "Some (tok_value t)"] Cons by (cases us) (auto simp: parser_read_line_def)
      qed (use l that [of t us None] Cons in \<open>simp add: parser_read_line_def\<close>)
    qed (use l in \<open>simp add: parser_read_line_def\<close>)
    then obtain k where k: "read_content t us = Inr k" "l = make_line label k" by (auto simp: sbind_Inr)
    have "placed src t" "\<forall>u \<in> set us. placed src u" using assms r(2) by auto
    then show ?thesis using read_content_points(2) [OF _ _ k(1)] k(2) by (simp add: make_line_def)
  qed
qed

lemma parse_points:
  "\<forall>u \<in> set ts. placed src u \<Longrightarrow> points src (parser_parse ts)"
  "\<forall>u \<in> set ts. placed src u \<Longrightarrow> parser_parse ts = Inr ls \<Longrightarrow> \<forall>l \<in> set ls. placed_line src l"
proof (induction ts arbitrary: ls rule: parser_parse.induct)
  case (1 ts)
  have sub: "\<forall>u \<in> set line. placed src u" "\<forall>u \<in> set rest. placed src u"
    if "parser_get_line ts = Some (line, rest)" "\<forall>u \<in> set ts. placed src u" for line rest
    using that(2) parser_get_line_set [OF that(1)] by blast+
  {
    case 1
    have "points src (parser_parse rest)"
      if "parser_get_line ts = Some (line, rest)" "parser_read_line line = Inr l" for line rest l
      using "1.IH"(1) [OF that(1) refl that(2) sub(2) [OF that(1) 1]] .
    then show ?case
      using sub(1) [OF _ 1]
      by (subst parser_parse.simps) (auto intro!: points_sbind read_line_points(1) split: option.split prod.split)
  next
    case 2
    show ?case
    proof (cases "parser_get_line ts")
      case None
      then show ?thesis using 2(2) by (simp add: parser_parse.simps [of ts])
    next
      case (Some x)
      obtain line rest where x: "x = (line, rest)" by (cases x)
      then obtain l ks where p: "parser_read_line line = Inr l" "parser_parse rest = Inr ks" "ls = l # ks"
        using 2(2) Some by (auto simp: parser_parse.simps [of ts] sbind_Inr)
      show ?thesis
        using "1.IH"(2) [OF Some x [symmetric] p(1) sub(2) [OF Some [unfolded x] 2(1)] p(2)] p(3)
          read_line_points(2) [OF sub(1) [OF Some [unfolded x] 2(1)] p(1)] by simp
    qed
  }
qed

section \<open>Directives and data\<close>

lemma points_fails [simp]:
  "points src (directive_fail t) \<longleftrightarrow> placed src t" "points src (section_fail t) \<longleftrightarrow> placed src t"
  "points src (too_large d) \<longleftrightarrow> placed src (dir_name d)"
  by (simp_all add: directive_fail_def section_fail_def too_large_def)

abbreviation placed_directive :: "string \<Rightarrow> directive \<Rightarrow> bool" where
  "placed_directive src d \<equiv> placed src (dir_name d) \<and> (\<forall>t \<in> set (dir_argv d). placed src t)"

lemma points_validate_directive [points_intro]:
  assumes "placed_directive src d"
  shows "points src (validate_directive d)"
proof -
  have "points src (require_arity d n)" for n using assms by (simp add: require_arity_def)
  moreover have "points src (require_first P d)" for P
    using assms by (cases "dir_argv d") (simp_all add: require_first_def)
  moreover have "points src (require_data b d)" for b
    using assms by (auto simp: require_data_def split: option.split dest: find_set)
  ultimately show ?thesis by (simp add: validate_directive_def points_sbind)
qed

lemma points_numeric_data [points_intro]:
  "placed_directive src d \<Longrightarrow> points src (encode_numeric_data d n m)"
  by (auto simp: encode_numeric_data_def numeric_value_def intro!: points_intro)

lemma points_ascii [points_intro]:
  "placed_directive src d \<Longrightarrow> placed src arg \<Longrightarrow> points src (append_ascii d acc arg)"
  by (auto simp: append_ascii_def ascii_value_def intro!: points_intro)

lemma points_raw_data [points_intro]:
  "placed_directive src d \<Longrightarrow> points src (directive_get_raw_data can_alloc d)"
  by (cases "dir_type d") (auto simp: directive_get_raw_data_def intro!: points_intro split: list.split)

lemma points_range [points_intro]:
  "placed src t \<Longrightarrow> points src (validate_section_range s (Some t))" "points src (validate_section_range s None)"
  by (simp_all add: validate_section_range_def)

lemma points_align [points_intro]: "placed src arg \<Longrightarrow> points src (align_section s arg)"
  by (auto simp: align_section_def Let_def intro!: points_intro)

lemma points_locate [points_intro]: "placed src arg \<Longrightarrow> points src (locate_section s arg)"
  by (auto simp: locate_section_def intro!: points_intro)

lemma points_process_directive:
  assumes "placed_directive src d" "validate_directive d = Inr u"
  shows "points src (process_directive c d)"
proof -
  have "placed src (dir_argv d ! 0)" if "dir_type d \<in> {DIR_SECTION, DIR_ALIGN, DIR_LOCATE}"
    using assms(1) validated_argument [OF assms(2)] that by auto
  then show ?thesis
    using assms(1)
    by (cases "dir_type d") (auto simp: process_directive_def Let_def intro!: points_intro split: prod.split)
qed

lemma points_record_line [points_intro]: "points src (record_line c l)"
  by (auto simp: record_line_def Let_def intro!: points_intro)

lemma points_process_lines:
  "\<forall>l \<in> set ls. placed_line src l \<Longrightarrow> points src (process_lines can_alloc c proc ls)"
proof (induction can_alloc c proc ls rule: process_lines.induct)
  case (2 can_alloc c proc l rest)
  show ?case
  proof (cases "ln_content l")
    case (L_DIR d)
    then have k: "ln_content (relabel proc l) = L_DIR d" and d: "placed_directive src d"
      using "2.prems" by auto
    show ?thesis
      using "2.IH"(1-4) [OF refl k] "2.prems" L_DIR points_validate_directive [OF d] points_raw_data [OF d]
        points_process_directive [OF d] d
      by (auto simp: process_lines.simps(2) Let_def intro!: points_sbind points_record_line split: list.split)
  next
    case (L_STMT s)
    then show ?thesis
      using "2.IH"(5) [OF refl] "2.prems"
      by (auto simp: process_lines.simps(2) Let_def intro!: points_sbind points_record_line)
  next
    case (L_RAW data)
    then show ?thesis
      using "2.IH"(6) [OF refl] "2.prems"
      by (auto simp: process_lines.simps(2) Let_def intro!: points_sbind points_record_line)
  qed
qed simp

lemma record_line_placed:
  "record_line c l = Inr c' \<Longrightarrow> \<forall>l \<in> set (ac_lines c). placed_line src l \<Longrightarrow> placed_line src l \<Longrightarrow>
     \<forall>l \<in> set (ac_lines c'). placed_line src l"
  by (auto simp: record_line_def sbind_Inr set_current_section_def Let_def split: if_splits)

lemma processed_placed:
  "process_lines can_alloc c proc ls = Inr c' \<Longrightarrow> \<forall>l \<in> set ls. placed_line src l \<Longrightarrow>
     \<forall>l \<in> set (ac_lines c). placed_line src l \<Longrightarrow> \<forall>l \<in> set (ac_lines c'). placed_line src l"
  by (erule process_lines_invariant [where I = "\<lambda>c. \<forall>l \<in> set (ac_lines c). placed_line src l"
        and L = "placed_line src" and N = "\<lambda>_. True"])
    (rule TrueI | assumption | erule (2) record_line_placed | simp add: process_directive_lines)+

lemma points_labels: "points src (asm_processLabels c)"
  by (auto simp: asm_processLabels_def process_label_def Let_def intro!: points_intro split: prod.split option.split)

section \<open>Translation\<close>

lemma points_optional [points_intro]:
  "(\<And>t. tok = Some t \<Longrightarrow> points src (parse t)) \<Longrightarrow> points src (parse_optional parse absent tok)"
  by (simp add: parse_optional_def split: option.split)

lemma points_condition [points_intro]: "placed src t \<Longrightarrow> points src (parse_condition t)"
  by (simp add: parse_condition_def split: option.split)

lemma points_register [points_intro]:
  assumes "placed src t"
  shows "points src (parse_register t)"
proof -
  have "placed src tok \<Longrightarrow> points src (register_number tok i cs)" for tok i cs
    by (induction tok i cs rule: register_number.induct) (auto simp: Let_def)
  then show ?thesis
    using assms by (auto simp: parse_register_def intro!: points_intro split: list.split option.split)
qed

lemma points_immediates [points_intro]:
  "placed src t \<Longrightarrow> points src (literal_immediate t)"
  "(\<And>t. imm = Some t \<Longrightarrow> placed src t) \<Longrightarrow> points src (raw_immediate labels imm)"
  "(\<And>t. imm = Some t \<Longrightarrow> placed src t) \<Longrightarrow> points src (object_immediate ls symbols l imm)"
  by (auto simp: literal_immediate_def raw_immediate_def object_immediate_def intro!: points_intro
      split: option.split)

lemma points_operands [points_intro]: "placed src (st_opcode s) \<Longrightarrow> points src (validate_operands op s)"
  by (auto simp: validate_operands_def Let_def split: prod.split)

lemma points_encode [points_intro]: "points src (encode_or_fail ins)"
  by (simp add: encode_or_fail_def split: option.split)

lemma points_statements:
  assumes "\<forall>t \<in> content_tokens (L_STMT s). placed src t"
  shows "points src (translate_statement labels s)" "points src (object_statement ls symbols l s)"
  using assms
  by (auto simp: translate_statement_def object_statement_def intro!: points_intro split: option.split prod.split)

lemma points_translate:
  assumes "\<forall>l \<in> set (ac_lines c). placed_line src l"
  shows "points src (asm_translate c)"
proof -
  have "points src (translate_line labels result l)" if "l \<in> set (ac_lines c)" for labels result l
    using assms that
    by (cases "ln_content l")
      (auto simp: translate_line_def translate_content_def intro!: points_intro points_statements(1))
  then show ?thesis by (simp add: asm_translate_def points_try_fold)
qed

lemma points_object:
  assumes "\<forall>l \<in> set (ac_lines c). placed_line src l"
  shows "points src (asm_translate_object can_alloc c)"
proof -
  have "points src (object_symbols c)"
    by (auto simp: object_symbols_def make_global_def intro!: points_intro split: option.split)
  moreover have "points src (emit_line ls symbols st l)" if "l \<in> set (ac_lines c)" for ls symbols st l
    using assms that
    by (cases "ln_content l") (auto simp: emit_line_def intro!: points_intro points_statements(2) split: prod.split)
  ultimately show ?thesis
    by (auto simp: asm_translate_object_def intro!: points_sbind points_try_fold split: prod.split sum.split)
qed

section \<open>Results\<close>

text \<open>A source without named arguments.\<close>

definition plain_source :: "string \<Rightarrow> bool" where
  "plain_source src \<longleftrightarrow>
     (case lexer_readAll (lexer_init src) of Inl _ \<Rightarrow> True | Inr st \<Rightarrow> \<forall>t \<in> set (lx_tokens st). no_equals t)"

lemma lexed_points: "points src (lexer_readAll (lexer_init src))"
  using points_readAll [of "lexer_init src"] located_init
  by (simp add: lexer_init_def top_level_def tokens_cover_def)

lemma lexed_placed: "lexer_readAll (lexer_init src) = Inr st \<Longrightarrow> t \<in> set (lx_tokens st) \<Longrightarrow> placed src t"
  using readAll_cover [of "lexer_init src" st] located_init
  by (auto simp: lexer_init_def top_level_def tokens_cover_def token_ok_placed)

lemma points_phases:
  assumes "plain_source src"
  shows "points src (assemble_phases can_alloc object src)"
  unfolding assemble_phases_def
proof (intro points_sbind lexed_points)
  fix st assume st: "lexer_readAll (lexer_init src) = Inr st"
  then have ts: "\<forall>t \<in> set (lx_tokens st). placed src t \<and> no_equals t"
    using assms lexed_placed by (simp add: plain_source_def)
  show "points src (macros_expand (lx_tokens st))" by (rule points_expand(1) [OF ts])
  fix tokens assume "macros_expand (lx_tokens st) = Inr tokens"
  from points_expand(2) [OF ts this] have tokens: "\<forall>t \<in> set tokens. placed src t" .
  show "points src (parser_parse tokens)" by (rule parse_points(1) [OF tokens])
  fix lines assume "parser_parse tokens = Inr lines"
  from parse_points(2) [OF tokens this] have lines: "\<forall>l \<in> set lines. placed_line src l" .
  show "points src (asm_processDirectives can_alloc lines)"
    unfolding asm_processDirectives_def by (rule points_process_lines [OF lines])
  fix c assume "asm_processDirectives can_alloc lines = Inr c"
  then have c: "\<forall>l \<in> set (ac_lines c). placed_line src l"
    using processed_placed [OF _ lines, of can_alloc asm_init None c] by (simp add: asm_processDirectives_def asm_init_def)
  show "points src (asm_processLabels c)" by (rule points_labels)
  fix c' assume "asm_processLabels c = Inr c'"
  then have "ac_lines c' = ac_lines c" by (auto simp: asm_processLabels_def sbind_Inr)
  then show "points src (if object then asm_translate_object can_alloc c' else asm_translate c')"
    using c points_translate points_object by simp
qed

text \<open>A failure of the first three phases is one of the assembly.\<close>

lemma early_failure:
  assumes "sbind (sbind (map_sum id lx_tokens (lexer_readAll (lexer_init source))) macros_expand) parser_parse = Inl d"
  shows "res_diagnostic (assemble_source can_alloc (Some source) object) = d"
proof (cases "lexer_readAll (lexer_init source)")
  case (Inl e)
  then show ?thesis using assms by (simp add: assemble_source_def assemble_phases_def)
next
  case (Inr st)
  then have "sbind (macros_expand (lx_tokens st)) parser_parse = Inl d" using assms by simp
  then have "assemble_phases can_alloc object source = Inl d"
    unfolding assemble_phases_def Inr sbind.simps by (auto simp: sbind_Inl)
  then show ?thesis by (simp add: assemble_source_def)
qed

text \<open>C20: A diagnostic of an assembly that names a location names a place of the source: the line and
  column are those of its offset and its range is not empty and lies in the source. The source has no
  named macro arguments, and may use any other construct, macros included.\<close>

theorem diagnostic_points_to_source:
  assumes "plain_source source"
    and "res_diagnostic (assemble_source can_alloc (Some source) object) = (code, Some l)"
  shows "place source l"
  using points_phases [OF assms(1), of can_alloc object] assms(2)
  by (auto simp: assemble_source_def points_def split: sum.splits)


text \<open>A macro whose body is not a statement, called in line 4.\<close>

definition macro_source :: string where
  "macro_source = ''.macro m'' @ nl @ '' int 1 2'' @ nl @ ''.endmacro'' @ nl @ ''  m''"

abbreviation macro_place :: location where
  "macro_place \<equiv> \<lparr>loc_line = 4, loc_column = 3, loc_offset = 30, loc_length = 1\<rparr>"

lemma macro_source_fails:
  "sbind (sbind (map_sum id lx_tokens (lexer_readAll (lexer_init macro_source))) macros_expand) parser_parse =
     Inl (ZLASM_DIAGNOSTIC_UNEXPECTED_TOKEN, Some macro_place)"
  by code_simp

lemma macro_source_plain: "plain_source macro_source"
  by code_simp

theorem diagnostic_points_to_source_witness:
  "res_diagnostic (assemble_source (\<lambda>n. True) (Some macro_source) False) =
     (ZLASM_DIAGNOSTIC_UNEXPECTED_TOKEN, Some macro_place) \<and> place macro_source macro_place"
proof -
  note fails = early_failure [OF macro_source_fails, of "\<lambda>n. True" False]
  show ?thesis using fails diagnostic_points_to_source [OF macro_source_plain fails] by blast
qed

section \<open>Named arguments\<close>

text \<open>The value of a named argument is lexed at the place of the call, with its own length.\<close>

definition named_source :: string where
  "named_source = ''.macro f a'' @ nl @ ''nop'' @ nl @ ''.endmacro'' @ nl @ ''.macro g'' @ nl @ ''f a=0zzz'' @ nl @
     ''.endmacro'' @ nl @ ''g''"

lemma named_source_fails:
  "sbind (sbind (map_sum id lx_tokens (lexer_readAll (lexer_init named_source))) macros_expand) parser_parse =
     Inl (ZLASM_DIAGNOSTIC_MALFORMED_NUMBER,
       Some \<lparr>loc_line = 7, loc_column = 1, loc_offset = 53, loc_length = 4\<rparr>)"
  by code_simp

text \<open>A malformed value of a named argument is reported at the call of the macro with the length of
  the value. In the sample the call is expanded from another macro, called by the one character that
  ends the source, so the reported range ends after the source: the diagnostic is no place of it.\<close>

theorem named_argument_past_source:
  "\<exists>l. res_diagnostic (assemble_source can_alloc (Some named_source) object) =
         (ZLASM_DIAGNOSTIC_MALFORMED_NUMBER, Some l) \<and>
       length named_source < loc_offset l + loc_length l \<and> \<not> place named_source l"
  using early_failure [OF named_source_fails] by (simp add: place_def named_source_def nl_def)

end
