(* ===== verification/Spec2Isabelle.thy ===== *)
theory Spec2Isabelle
  imports Command_Samples Asm_Memory Label_Table Parser_Streams Places
begin

text \<open>
  ZLVM: a small processor with its assembler, linker and emulator. This library models the C code of
  the repository function by function and proves what makes it correct. The names of the definitions
  are those of the code.

  \<^bold>\<open>The program.\<close> A source text goes through \<^verbatim>\<open>asm/src\<close>: the lexer makes tokens, the macro expander
  rewrites them, the parser makes lines, the directives are processed into sections with offsets and
  the lines are translated, either to a raw program or to an object image. \<^verbatim>\<open>Linker.c\<close> decodes objects,
  places their sections, resolves the symbols, patches the relocations and encodes an executable.
  \<^verbatim>\<open>Image.c\<close> is the codec of both kinds of image. \<^verbatim>\<open>VirtualMachineInternal.c\<close> loads a raw program or an
  executable into the ROM and runs it, with \<^verbatim>\<open>ALU.c\<close> for the arithmetic. The three \<^verbatim>\<open>main.c\<close> wrap this in
  files and exit codes.

  \<^bold>\<open>The theories.\<close>

  \<^item> \<open>Prelude\<close>: machine integers (C's \<^verbatim>\<open>byte\<close>, \<^verbatim>\<open>word\<close>, \<^verbatim>\<open>dword\<close> are words of 8, 32 and 64 bits and wrap),
    buffers as byte lists, little-endian numbers and the lemmas they share.
  \<^item> \<open>Byte_Store\<close>: the contract of memory with bytes at addresses, a locale. The correctness of
    multi-byte access is proved from it once; it is interpreted on C buffers there and on the memory of
    the emulator in \<open>Machine\<close>.
  \<^item> \<open>Isa\<close> (\<^verbatim>\<open>Opcode.c\<close>, \<^verbatim>\<open>Condition.c\<close>, \<^verbatim>\<open>Instruction.c\<close>, \<^verbatim>\<open>Registers.h\<close>) and \<open>Alu\<close> (\<^verbatim>\<open>ALU.c\<close>): the instruction
    codec and the mnemonics; results and flags, which say exactly when an operation overflows or carries.
  \<^item> \<open>Machine\<close>, \<open>Stack\<close>, \<open>Execute\<close>, \<open>Run\<close> (\<^verbatim>\<open>VirtualMachineInternal.c\<close>): the record of the processor,
    access to ROM and RAM, push and pop as an instance of the stack contract \<open>word_stack\<close>, every opcode,
    interrupts and the run loop. The lemmas show the effect of each group of instructions, the
    well-formedness every instruction keeps, and that a run is a sequence of cycles (\<open>cycle\<close>, a relation that
    says what a cycle does with the eight bytes at \<open>$pc\<close>), which ends exactly where the machine is halted
    or in error.
  \<^item> \<open>Image\<close>, \<open>Image_Format\<close>, \<open>Image_Roundtrip\<close> (\<^verbatim>\<open>Image.c\<close>): encoder and decoder with every check; the
    encoder succeeds exactly on the valid images that fit, writes the concatenation of its tables, and
    decoding gives the image back; what the decoder accepts is valid.
  \<^item> \<open>Loader\<close>: \<^verbatim>\<open>vm_loadDump\<close> and \<^verbatim>\<open>vm_loadImage\<close>, which loads all or nothing.
  \<^item> \<open>Linker\<close>, \<open>Link_Layout\<close>, \<open>Link_Phases\<close>, \<open>Link_Load\<close> (\<^verbatim>\<open>Linker.c\<close>): each phase against its
    specification, and that a linked executable is one the loader takes.
  \<^item> \<open>Token\<close>, \<open>Lexer\<close>, \<open>Lexer_Facts\<close> (\<^verbatim>\<open>Token.c\<close>, \<^verbatim>\<open>Lexer.c\<close>): tokens cover the source in order at the
    positions they report; integer literals mean their digits or are refused.
  \<^item> \<open>Macros\<close>, \<open>Macro_Facts\<close> (\<^verbatim>\<open>Macros.c\<close>): the result of an expansion holds no macro any more,
    and a call becomes the body with every parameter replaced by its argument, told without the
    expander's own code (\<open>replaces\<close>).
  \<^item> \<open>Directive\<close>, \<open>Data_Facts\<close>, \<open>Parser\<close> (\<^verbatim>\<open>Directive.c\<close>, \<^verbatim>\<open>Parser.c\<close>, \<^verbatim>\<open>Statement.c\<close>): lines and the data
    they emit.
  \<^item> \<open>Assembler\<close>, \<open>Asm_Layout\<close>, \<open>Asm_Sections\<close>, \<open>Object\<close>, \<open>Object_Facts\<close> (\<^verbatim>\<open>Assembler.c\<close>,
    \<^verbatim>\<open>LabelTable.c\<close>): validation, sections, labels, the raw and the object translation. The invariant of
    the sections is what the object translation rests on.
  \<^item> \<open>Zlasm\<close>, \<open>Zlasm_Facts\<close>, \<open>Failures\<close> (\<^verbatim>\<open>zlasm.c\<close>, \<^verbatim>\<open>Error.c\<close>): the whole assembler. Every object it
    writes is one the linker reads back, and a diagnostic without a code is exactly a success.
  \<^item> \<open>Places\<close>: what the diagnostics of every phase point at. A location a failure names is a place of the
    source, through macro expansion too, and named macro arguments are the one exception.
  \<^item> \<open>Source_Run\<close>: a semantics of source programs by their lines, where a label is the address of its
    line, and that the machine on the assembled and loaded code follows it in both directions.
  \<^item> \<open>Linked_List\<close> (\<^verbatim>\<open>LinkedList.h\<close>), \<open>Streams\<close> (\<^verbatim>\<open>LineList.c\<close>, the token lists of \<^verbatim>\<open>Lexer.c\<close>) and
    \<open>Asm_Memory\<close> (\<^verbatim>\<open>Memory.c\<close>): lists of items in an explicit store against the list of their values,
    the contract the line and the token streams share as the locale \<open>value_stream\<close>, and the tracked
    allocations against the list of the blocks they track: no sequence of requests, releases and
    detachments by the owners of the blocks (\<open>asm_run\<close>) leaks or frees twice, failed or not.
  \<^item> \<open>Parser_Streams\<close> (\<^verbatim>\<open>Parser.c\<close>) and \<open>Label_Table\<close> (\<^verbatim>\<open>LabelTable.c\<close>, \<^verbatim>\<open>asm_processLabels\<close>): the parser and the
    label table on linked items as the code has them, which refine the parser on lists and the
    association list that the other theories work with.
  \<^item> \<open>Commands\<close>, \<open>Command_Facts\<close> (\<^verbatim>\<open>asm/main.c\<close>, \<^verbatim>\<open>linker/main.c\<close>, \<^verbatim>\<open>emulator/main.c\<close>): the programs as
    functions of command line and files.
  \<^item> \<open>Samples\<close>, \<open>Image_Samples\<close>, \<open>Link_Samples\<close>, \<open>Asm_Samples\<close>, \<open>Pipeline\<close>, \<open>Command_Samples\<close>: concrete
    machines, images, objects, sources and command lines, evaluated, with the application of every
    property whose hypotheses they meet. \<open>Pipeline\<close> takes one source to the output of the machine
    along both ways, and shows where they differ.

  \<^bold>\<open>Errors, loops and bounds.\<close> An error is a value: a sum with the error code of the component, the state
  of the machine, or a diagnostic with its place in the source; the \<^verbatim>\<open>longjmp\<close> of a failing assembly is
  the failing branch of each phase. A loop that always ends is a recursive function with its measure:
  the lexer consumes a character, the expander lowers the pair of the depth left and the tokens left, with
  the limit of 64 nested expansions the code has. The run loop of the machine may run forever, so
  \<open>vm_run\<close> is a partial function whose value \<^term>\<open>None\<close> is not ending; the properties about it either give
  its value or show when it ends. A walk along linked items is partial in the same way and is proved to
  end on well-formed lists. No fuel is used anywhere.

  \<^bold>\<open>Parameters.\<close> \<open>can_alloc\<close> says which sizes the host allocates, \<open>malloc\<close> in \<open>Asm_Memory\<close> gives addresses
  that are not in use, and the record \<open>io\<close> says which files the host opens, reads, writes and closes. The
  standard streams of the machine are byte lists in its record.

  \<^bold>\<open>Not modelled.\<close> What only prints: the DEBUG dumps, \<^verbatim>\<open>instruction_print\<close>, \<^verbatim>\<open>token_print\<close>, \<^verbatim>\<open>line_print\<close>,
  usage and diagnostics on the standard error with their message texts and file names. The release of
  single tokens, statements and directives, which are values here, and of the buffers of linker and image
  codec. In the
  models of the assembler's phases an allocation succeeds, except where the source text chooses its size
  and in the image encoder; what a refusal does to the heap is in \<open>Asm_Memory\<close>. The tests are not
  modelled.

  \<^bold>\<open>What modelling showed.\<close> An object's reference to a label of its own section is not relocated
  (\<open>local_label_misplaced\<close>), the linker adds the address of a global symbol in 32 bits
  (\<open>global_symbol_address\<close>), a bss section takes no line (\<open>Object_Facts\<close>), and a malformed named argument can
  be reported past the end of the source (\<open>named_argument_past_source\<close>).
\<close>

end
